(* ===== verification/Imap_Prelude.thy ===== *)
theory Imap_Prelude
  imports Main "HOL-Library.Word"
begin

text \<open>
  Shared vocabulary of the development: bytes, machine integers, Rust's \<open>Result\<close>, the parts
  of Rust's standard library that the crates use (checked and saturating arithmetic,
  \<open>Iterator::position\<close>, \<open>str::replace\<close>, decimal printing and parsing) and the generic
  lemmas about them.

  A Rust \<open>u8\<close> is an Isabelle \<open>char\<close>, so that byte strings of the source are string
  literals here; \<open>code b\<close> is its numeric value. A Rust \<open>str\<close> is the list of its UTF-8
  bytes. \<open>u32\<close> and \<open>u64\<close> are words of that width, \<open>usize\<close> is \<open>nat\<close>.
\<close>

type_synonym bytes = "char list"
type_synonym u32 = "32 word"
type_synonym u64 = "64 word"
type_synonym ('e, 'a) result = "'e + 'a"

abbreviation code :: "char \<Rightarrow> nat" where
  "code b \<equiv> of_char b"

abbreviation cr :: char where "cr \<equiv> CHR 0x0D"
abbreviation lf :: char where "lf \<equiv> CHR 0x0A"
abbreviation crlf :: bytes where "crlf \<equiv> [cr, lf]"
abbreviation sp :: char where "sp \<equiv> CHR '' ''"
abbreviation dquote :: char where "dquote \<equiv> CHR 0x22"
abbreviation backslash :: char where "backslash \<equiv> CHR 0x5C"

named_theorems emit_intros \<open>introduction rules for the contract of encoders\<close>
named_theorems scan_simps \<open>rewrite rules for the line scanner\<close>

subsection \<open>Rust's \<open>Result\<close>\<close>

fun res_bind :: "('e, 'a) result \<Rightarrow> ('a \<Rightarrow> ('e, 'b) result) \<Rightarrow> ('e, 'b) result" where
  "res_bind (Inl e) f = Inl e"
| "res_bind (Inr x) f = f x"

fun map_err :: "('e \<Rightarrow> 'f) \<Rightarrow> ('e, 'a) result \<Rightarrow> ('f, 'a) result" where
  "map_err f (Inl e) = Inl (f e)"
| "map_err f (Inr x) = Inr x"

fun map_ok :: "('a \<Rightarrow> 'b) \<Rightarrow> ('e, 'a) result \<Rightarrow> ('e, 'b) result" where
  "map_ok f (Inl e) = Inl e"
| "map_ok f (Inr x) = Inr (f x)"

fun is_ok :: "('e, 'a) result \<Rightarrow> bool" where
  "is_ok (Inl e) = False"
| "is_ok (Inr x) = True"

lemma res_bind_cong [fundef_cong]:
  "m = m' \<Longrightarrow> (\<And>x. m' = Inr x \<Longrightarrow> f x = g x) \<Longrightarrow> res_bind m f = res_bind m' g"
  by (cases m') auto

lemma res_bind_eq_Inr [simp]: "(res_bind m f = Inr y) = (\<exists>x. m = Inr x \<and> f x = Inr y)"
  by (cases m) auto

lemma map_err_eq_Inr [simp]: "(map_err f m = Inr y) = (m = Inr y)"
  by (cases m) auto

lemma map_ok_eq_Inr [simp]: "(map_ok f m = Inr y) = (\<exists>x. m = Inr x \<and> y = f x)"
  by (cases m) auto

lemma map_ok_eq_Inl [simp]: "(map_ok f m = Inl e) = (m = Inl e)"
  by (cases m) auto

lemma is_ok_iff: "is_ok m = (\<exists>x. m = Inr x)"
  by (cases m) auto

subsection \<open>Checked and saturating arithmetic\<close>

definition checked_mul_u32 :: "u32 \<Rightarrow> u32 \<Rightarrow> u32 option" where
  "checked_mul_u32 a b = (if unat a * unat b < 2 ^ 32 then Some (a * b) else None)"

definition checked_add_u32 :: "u32 \<Rightarrow> u32 \<Rightarrow> u32 option" where
  "checked_add_u32 a b = (if unat a + unat b < 2 ^ 32 then Some (a + b) else None)"

definition saturating_add :: "'w::len word \<Rightarrow> 'w word \<Rightarrow> 'w word" where
  "saturating_add a b = (if unat a + unat b < 2 ^ LENGTH('w) then a + b else - 1)"

definition saturating_sub :: "'w::len word \<Rightarrow> 'w word \<Rightarrow> 'w word" where
  "saturating_sub a b = (if b \<le> a then a - b else 0)"

lemma checked_mul_u32_Some:
  "checked_mul_u32 a b = Some c \<longleftrightarrow> unat a * unat b < 2 ^ 32 \<and> c = a * b"
  by (auto simp: checked_mul_u32_def)

lemma checked_add_u32_Some:
  "checked_add_u32 a b = Some c \<longleftrightarrow> unat a + unat b < 2 ^ 32 \<and> c = a + b"
  by (auto simp: checked_add_u32_def)

lemma unat_u32_bound: "unat (a :: u32) < 2 ^ 32"
proof -
  have "unat a < 2 ^ LENGTH(32)" by (rule unsigned_less)
  then show ?thesis by simp
qed

lemma unat_of_nat_u32: "n < 2 ^ 32 \<Longrightarrow> unat (of_nat n :: u32) = n"
  by (simp add: unat_of_nat take_bit_nat_eq_self)

lemma unat_remaining:
  fixes r :: u32
  assumes "n \<le> unat r"
  shows "unat (r - of_nat n) = unat r - n"
proof -
  have "unat (of_nat n :: u32) = n"
    using assms unat_u32_bound [of r] by (simp add: unat_of_nat_u32)
  then show ?thesis using assms by (simp add: unat_sub word_le_nat_alt)
qed

lemma unat_remaining_one: "0 < unat (r :: u32) \<Longrightarrow> unat (r - 1) = unat r - 1"
  using unat_remaining [of 1 r] by simp

lemma unat_add_u32:
  fixes a b :: u32
  assumes "unat a + unat b < 2 ^ 32"
  shows "unat (a + b) = unat a + unat b"
  using assms by (simp add: unat_word_ariths)

lemma unat_mul_u32:
  fixes a b :: u32
  assumes "unat a * unat b < 2 ^ 32"
  shows "unat (a * b) = unat a * unat b"
  using assms by (simp add: unat_word_ariths)

lemma unat_minus_one_u32: "unat (- 1 :: u32) = 2 ^ 32 - 1"
  by (simp add: unsigned_minus_1_eq_mask mask_eq_exp_minus_1)

lemma unat_max_iff: "unat (a :: u32) + 1 < 2 ^ 32 \<longleftrightarrow> a \<noteq> - 1"
proof -
  have "unat a = 2 ^ 32 - 1 \<longleftrightarrow> a = - 1"
    unfolding unat_minus_one_u32 [symmetric] by (rule word_unat_eq_iff [symmetric])
  then show ?thesis using unat_u32_bound [of a] by auto
qed

lemma saturating_succ: "saturating_add (a :: u32) 1 = (if a = - 1 then - 1 else a + 1)"
  using unat_max_iff [of a] by (simp add: saturating_add_def)

lemma u32_le_max: "(a :: u32) \<le> - 1"
  by simp

lemma unat_succ: "(a :: u32) < b \<Longrightarrow> unat (a + 1) = Suc (unat a)"
  using unat_u32_bound [of b] by (simp add: unat_add_u32 word_less_nat_alt)

lemma saturating_succ_le: "(l :: u32) < v \<Longrightarrow> saturating_add l 1 \<le> v"
  using unat_succ [of l v] u32_le_max [of v]
  by (auto simp: saturating_succ word_le_nat_alt word_less_nat_alt)

lemma saturating_succ_ge: "(l :: u32) \<le> saturating_add l 1"
  using u32_le_max [of l] unat_max_iff [of l] unat_add_u32 [of l 1]
  by (auto simp: saturating_succ word_le_nat_alt)

subsection \<open>\<open>Iterator::position\<close>\<close>

fun position :: "('a \<Rightarrow> bool) \<Rightarrow> 'a list \<Rightarrow> nat option" where
  "position P [] = None"
| "position P (x # xs) = (if P x then Some 0 else map_option Suc (position P xs))"

lemma position_None_iff [simp]: "position P xs = None \<longleftrightarrow> (\<forall>x \<in> set xs. \<not> P x)"
  by (induction xs) auto

lemma position_Some_iff:
  "position P xs = Some i \<longleftrightarrow> i < length xs \<and> P (xs ! i) \<and> (\<forall>j < i. \<not> P (xs ! j))"
proof (induction xs arbitrary: i)
  case Nil
  then show ?case by simp
next
  case (Cons x xs)
  show ?case by (cases i) (auto simp: Cons.IH nth_Cons split: nat.splits)
qed

subsection \<open>\<open>str::contains\<close> and \<open>str::replace\<close>\<close>

definition starts_with :: "bytes \<Rightarrow> bytes \<Rightarrow> bool" where
  "starts_with pat s \<longleftrightarrow> take (length pat) s = pat"

fun str_contains :: "bytes \<Rightarrow> bytes \<Rightarrow> bool" where
  "str_contains pat [] \<longleftrightarrow> pat = []"
| "str_contains pat (c # cs) \<longleftrightarrow> starts_with pat (c # cs) \<or> str_contains pat cs"

text \<open>Non-overlapping matches from left to right; the callers' patterns are never empty.\<close>

fun str_replace :: "bytes \<Rightarrow> bytes \<Rightarrow> bytes \<Rightarrow> bytes" where
  "str_replace pat to [] = []"
| "str_replace pat to (c # cs) =
     (if pat \<noteq> [] \<and> starts_with pat (c # cs)
      then to @ str_replace pat to (drop (length pat - 1) cs)
      else c # str_replace pat to cs)"

subsection \<open>ASCII case\<close>

definition ascii_lower :: "char \<Rightarrow> char" where
  "ascii_lower c = (if 65 \<le> code c \<and> code c \<le> 90 then char_of (code c + 32) else c)"

definition ascii_upper :: "char \<Rightarrow> char" where
  "ascii_upper c = (if 97 \<le> code c \<and> code c \<le> 122 then char_of (code c - 32) else c)"

abbreviation to_ascii_lowercase :: "bytes \<Rightarrow> bytes" where
  "to_ascii_lowercase \<equiv> map ascii_lower"

abbreviation to_ascii_uppercase :: "bytes \<Rightarrow> bytes" where
  "to_ascii_uppercase \<equiv> map ascii_upper"

definition eq_ignore_ascii_case :: "bytes \<Rightarrow> bytes \<Rightarrow> bool" where
  "eq_ignore_ascii_case a b \<longleftrightarrow> to_ascii_lowercase a = to_ascii_lowercase b"

subsection \<open>Decimal numbers\<close>

definition is_digit :: "char \<Rightarrow> bool" where
  "is_digit c \<longleftrightarrow> 48 \<le> code c \<and> code c \<le> 57"

definition digit_val :: "char \<Rightarrow> nat" where
  "digit_val c = code c - 48"

definition digit_char :: "nat \<Rightarrow> char" where
  "digit_char d = char_of (48 + d)"

text \<open>\<open>Display\<close> of an unsigned integer.\<close>

function dec :: "nat \<Rightarrow> bytes" where
  "dec n = (if n < 10 then [digit_char n] else dec (n div 10) @ [digit_char (n mod 10)])"
  by pat_completeness auto
termination
  by (relation "measure id") auto

declare dec.simps [simp del]

text \<open>The value of a digit string, and the parser of \<open>str::parse\<close> for unsigned integers below
  a bound: an optional \<open>+\<close>, then at least one digit, with the overflow check.\<close>

definition dec_value :: "bytes \<Rightarrow> nat" where
  "dec_value s = fold (\<lambda>c n. 10 * n + digit_val c) s 0"

definition parse_unsigned :: "nat \<Rightarrow> bytes \<Rightarrow> nat option" where
  "parse_unsigned bound s =
     (let ds = (case s of c # cs \<Rightarrow> if c = CHR ''+'' then cs else s | [] \<Rightarrow> s)
      in if ds \<noteq> [] \<and> list_all is_digit ds \<and> dec_value ds < bound
         then Some (dec_value ds) else None)"

lemma is_digit_digit_char [simp]: "d < 10 \<Longrightarrow> is_digit (digit_char d)"
  by (simp add: is_digit_def digit_char_def)

lemma digit_val_digit_char [simp]: "d < 10 \<Longrightarrow> digit_val (digit_char d) = d"
  by (simp add: digit_val_def digit_char_def)

lemma dec_value_Nil [simp]: "dec_value [] = 0"
  by (simp add: dec_value_def)

lemma dec_value_snoc [simp]: "dec_value (s @ [c]) = 10 * dec_value s + digit_val c"
  by (simp add: dec_value_def)

lemma dec_not_Nil [simp]: "dec n \<noteq> []"
  by (subst dec.simps) simp

lemma dec_digits: "list_all is_digit (dec n)"
proof (induction n rule: dec.induct)
  case (1 n)
  then show ?case by (subst dec.simps) simp
qed

lemma dec_digits_set: "c \<in> set (dec n) \<Longrightarrow> is_digit c"
  using dec_digits [of n] by (auto simp: list_all_iff)

lemma dec_value_dec [simp]: "dec_value (dec n) = n"
proof (induction n rule: dec.induct)
  case (1 n)
  show ?case
  proof (cases "n < 10")
    case True
    then show ?thesis
      using dec_value_snoc [of "[]" "digit_char n"] by (subst dec.simps) simp
  next
    case False
    with "1.IH" have "dec_value (dec (n div 10)) = n div 10" by simp
    with False show ?thesis by (subst dec.simps) simp
  qed
qed

lemma dec_inject [simp]: "dec m = dec n \<longleftrightarrow> m = n"
  using dec_value_dec by metis

lemma digit_not_plus: "is_digit c \<Longrightarrow> c \<noteq> CHR ''+''"
  by (auto simp: is_digit_def)

lemma parse_unsigned_dec [simp]: "n < bound \<Longrightarrow> parse_unsigned bound (dec n) = Some n"
  using dec_digits [of n] dec_value_dec [of n]
  by (cases "dec n") (auto simp: parse_unsigned_def Let_def digit_not_plus)

lemma dec_hd_zero: "0 < n \<Longrightarrow> hd (dec n) \<noteq> CHR ''0''"
proof (induction n rule: dec.induct)
  case (1 n)
  show ?case
  proof (cases "n < 10")
    case True
    have "digit_char n \<noteq> CHR ''0''"
    proof
      assume "digit_char n = CHR ''0''"
      then have "digit_val (digit_char n) = digit_val CHR ''0''" by simp
      with True "1.prems" show False by (simp add: digit_val_def [of "CHR ''0''"])
    qed
    with True show ?thesis by (subst dec.simps) simp
  next
    case False
    then have "hd (dec (n div 10)) \<noteq> CHR ''0''" using "1.IH" by simp
    with False show ?thesis by (subst dec.simps) simp
  qed
qed

end
