(* ===== verification/Imap_Utils.thy ===== *)
theory Imap_Utils
  imports Imap_Prelude
begin

text \<open>
  \<open>imap-types/src/utils.rs\<close>: the byte classes of the IMAP grammar (module \<open>indicators\<close>), the
  escaping of quoted strings and the printable form of arbitrary bytes.
\<close>

section \<open>Byte classes\<close>

definition is_char :: "char \<Rightarrow> bool" where
  "is_char byte \<longleftrightarrow> 0x01 \<le> code byte \<and> code byte \<le> 0x7f"

definition is_ctl :: "char \<Rightarrow> bool" where
  "is_ctl byte \<longleftrightarrow> code byte \<le> 0x1f \<or> code byte = 0x7f"

definition is_quoted_specials :: "char \<Rightarrow> bool" where
  "is_quoted_specials byte \<longleftrightarrow> byte = dquote \<or> byte = backslash"

definition is_list_wildcards :: "char \<Rightarrow> bool" where
  "is_list_wildcards i \<longleftrightarrow> i = CHR ''%'' \<or> i = CHR ''*''"

definition is_resp_specials :: "char \<Rightarrow> bool" where
  "is_resp_specials i \<longleftrightarrow> i = CHR '']''"

definition is_atom_specials :: "char \<Rightarrow> bool" where
  "is_atom_specials i \<longleftrightarrow>
     (if i = CHR ''('' \<or> i = CHR '')'' \<or> i = CHR ''{'' \<or> i = CHR '' '' then True
      else if is_ctl i then True
      else if is_list_wildcards i then True
      else if is_quoted_specials i then True
      else if is_resp_specials i then True
      else False)"

definition is_atom_char :: "char \<Rightarrow> bool" where
  "is_atom_char b \<longleftrightarrow> is_char b \<and> \<not> is_atom_specials b"

definition is_astring_char :: "char \<Rightarrow> bool" where
  "is_astring_char i \<longleftrightarrow> is_atom_char i \<or> is_resp_specials i"

definition is_char8 :: "char \<Rightarrow> bool" where
  "is_char8 i \<longleftrightarrow> code i \<noteq> 0"

definition is_text_char :: "char \<Rightarrow> bool" where
  "is_text_char c \<longleftrightarrow>
     0x01 \<le> code c \<and> code c \<le> 0x09 \<or> 0x0b \<le> code c \<and> code c \<le> 0x0c \<or>
     0x0e \<le> code c \<and> code c \<le> 0x7f"

definition is_any_text_char_except_quoted_specials :: "char \<Rightarrow> bool" where
  "is_any_text_char_except_quoted_specials byte \<longleftrightarrow>
     is_text_char byte \<and> \<not> is_quoted_specials byte"

definition is_list_char :: "char \<Rightarrow> bool" where
  "is_list_char i \<longleftrightarrow> is_atom_char i \<or> is_list_wildcards i \<or> is_resp_specials i"

lemmas indicator_defs =
  is_char_def is_ctl_def is_quoted_specials_def is_list_wildcards_def is_resp_specials_def
  is_atom_specials_def is_atom_char_def is_astring_char_def is_char8_def is_text_char_def
  is_any_text_char_except_quoted_specials_def is_list_char_def

text \<open>The inclusions between the classes that the constructors of the crate rely on.\<close>

lemma is_atom_specials_iff:
  "is_atom_specials i \<longleftrightarrow>
     i = CHR ''('' \<or> i = CHR '')'' \<or> i = CHR ''{'' \<or> i = CHR '' '' \<or> is_ctl i \<or>
     is_list_wildcards i \<or> is_quoted_specials i \<or> is_resp_specials i"
  by (simp add: is_atom_specials_def)

lemma atom_char_range: "is_atom_char c \<Longrightarrow> 0x20 \<le> code c \<and> code c \<le> 0x7e"
  by (auto simp: is_atom_char_def is_atom_specials_iff is_char_def is_ctl_def)

lemma atom_char_astring_char: "is_atom_char c \<Longrightarrow> is_astring_char c"
  by (simp add: is_astring_char_def)

lemma astring_char_list_char: "is_astring_char c \<Longrightarrow> is_list_char c"
  by (auto simp: is_astring_char_def is_list_char_def)

lemma list_char_range: "is_list_char c \<Longrightarrow> 0x20 \<le> code c \<and> code c \<le> 0x7e"
  by (auto simp: is_list_char_def is_list_wildcards_def is_resp_specials_def
      dest: atom_char_range)

lemma astring_char_range: "is_astring_char c \<Longrightarrow> 0x20 \<le> code c \<and> code c \<le> 0x7e"
  by (intro list_char_range astring_char_list_char)

lemma list_char_text_char: "is_list_char c \<Longrightarrow> is_text_char c"
  by (drule list_char_range) (simp add: is_text_char_def)

lemma astring_char_text_char: "is_astring_char c \<Longrightarrow> is_text_char c"
  by (intro list_char_text_char astring_char_list_char)

lemma text_char_char8: "is_text_char c \<Longrightarrow> is_char8 c"
  by (auto simp: is_text_char_def is_char8_def)

lemma text_char_not_crlf: "is_text_char c \<Longrightarrow> c \<noteq> cr \<and> c \<noteq> lf"
  by (auto simp: is_text_char_def)

lemma list_char_not_brace: "\<not> is_list_char CHR ''{''"
  by (simp add: is_list_char_def is_list_wildcards_def is_resp_specials_def is_atom_char_def
      is_atom_specials_iff)

lemma list_char_bland: "is_list_char c \<Longrightarrow> c \<noteq> cr \<and> c \<noteq> lf \<and> c \<noteq> CHR ''{''"
  using list_char_text_char [of c] text_char_not_crlf [of c] list_char_not_brace by auto

lemma digit_atom_char:
  assumes "is_digit c"
  shows "is_atom_char c"
proof -
  have "is_char c" "\<not> is_ctl c"
    using assms by (auto simp: is_digit_def is_char_def is_ctl_def)
  moreover have "c \<noteq> x" if "code x < 48 \<or> 57 < code x" for x
    using assms that by (auto simp: is_digit_def)
  ultimately show ?thesis
    by (simp add: is_atom_char_def is_atom_specials_iff is_list_wildcards_def
        is_quoted_specials_def is_resp_specials_def)
qed

section \<open>Escaping of quoted strings\<close>

definition escape_quoted :: "bytes \<Rightarrow> bytes" where
  "escape_quoted unescaped =
     (let escaped = unescaped;
          escaped = (if str_contains [backslash] escaped
                     then str_replace [backslash] [backslash, backslash] escaped else escaped);
          escaped = (if str_contains [dquote] escaped
                     then str_replace [dquote] [backslash, dquote] escaped else escaped)
      in escaped)"

definition unescape_quoted :: "bytes \<Rightarrow> bytes" where
  "unescape_quoted escaped =
     (let unescaped = escaped;
          unescaped = (if str_contains [backslash, backslash] unescaped
                       then str_replace [backslash, backslash] [backslash] unescaped
                       else unescaped);
          unescaped = (if str_contains [backslash, dquote] unescaped
                       then str_replace [backslash, dquote] [dquote] unescaped else unescaped)
      in unescaped)"

text \<open>The specification: one byte at a time.\<close>

definition quoted_char_bytes :: "char \<Rightarrow> bytes" where
  "quoted_char_bytes c = (if is_quoted_specials c then [backslash, c] else [c])"

lemma str_replace_absent: "\<not> str_contains pat s \<Longrightarrow> str_replace pat to s = s"
  by (induction s) auto

lemma str_replace_single:
  "str_replace [p] to s = concat (map (\<lambda>c. if c = p then to else [c]) s)"
  by (induction s) (auto simp: starts_with_def)

lemma escape_quoted_unguarded:
  "escape_quoted s =
     str_replace [dquote] [backslash, dquote] (str_replace [backslash] [backslash, backslash] s)"
  by (simp add: escape_quoted_def str_replace_absent Let_def)

lemma unescape_quoted_unguarded:
  "unescape_quoted s =
     str_replace [backslash, dquote] [dquote] (str_replace [backslash, backslash] [backslash] s)"
  by (simp add: unescape_quoted_def str_replace_absent Let_def)

lemma escape_quoted_spec: "escape_quoted s = concat (map quoted_char_bytes s)"
  unfolding escape_quoted_unguarded str_replace_single
  by (induction s) (auto simp: quoted_char_bytes_def is_quoted_specials_def)

lemma escape_quoted_Nil [simp]: "escape_quoted [] = []"
  by (simp add: escape_quoted_spec)

lemma escape_quoted_Cons [simp]: "escape_quoted (c # s) = quoted_char_bytes c @ escape_quoted s"
  by (simp add: escape_quoted_spec)

text \<open>The two passes of \<open>unescape_quoted\<close> on an escaped string: after the first one the
  backslashes are single again while a double quote still has its backslash.\<close>

definition half_escaped :: "bytes \<Rightarrow> bytes" where
  "half_escaped s = concat (map (\<lambda>c. if c = dquote then [backslash, c] else [c]) s)"

lemma unescape_first_pass:
  "str_replace [backslash, backslash] [backslash] (escape_quoted s) = half_escaped s"
  by (induction s)
     (auto simp: half_escaped_def quoted_char_bytes_def is_quoted_specials_def starts_with_def)

lemma half_escaped_no_dquote: "half_escaped s \<noteq> dquote # t"
  by (cases s) (auto simp: half_escaped_def)

lemma unescape_second_pass: "str_replace [backslash, dquote] [dquote] (half_escaped s) = s"
proof (induction s)
  case Nil
  then show ?case by (simp add: half_escaped_def)
next
  case (Cons c s)
  have step: "half_escaped (c # s) = (if c = dquote then [backslash, c] else [c]) @ half_escaped s"
    by (simp add: half_escaped_def)
  have "\<not> starts_with [dquote] (half_escaped s)"
    using half_escaped_no_dquote [of s] by (cases "half_escaped s") (auto simp: starts_with_def)
  then show ?case
    using Cons.IH by (auto simp: step starts_with_def )
qed

lemma unescape_escape: "unescape_quoted (escape_quoted s) = s"
  by (simp add: unescape_quoted_unguarded unescape_first_pass unescape_second_pass)

text \<open>The grammar of the body of a quoted string, \<open>*QUOTED-CHAR\<close>.\<close>

fun quoted_body :: "bytes \<Rightarrow> bool" where
  "quoted_body [] = True"
| "quoted_body (c # s) =
     (if c = backslash
      then (case s of q # t \<Rightarrow> is_quoted_specials q \<and> quoted_body t | [] \<Rightarrow> False)
      else is_any_text_char_except_quoted_specials c \<and> quoted_body s)"

lemma specials_text_char: "is_quoted_specials c \<Longrightarrow> is_text_char c"
  by (auto simp: is_quoted_specials_def is_text_char_def)

lemma quoted_body_escape: "list_all is_text_char s \<Longrightarrow> quoted_body (escape_quoted s)"
  by (induction s)
     (auto simp: quoted_char_bytes_def is_quoted_specials_def
        is_any_text_char_except_quoted_specials_def)

lemma quoted_body_is_escape:
  "quoted_body e \<Longrightarrow> \<exists>s. list_all is_text_char s \<and> e = escape_quoted s"
proof (induction e rule: quoted_body.induct)
  case 1
  have "list_all is_text_char [] \<and> [] = escape_quoted []" by simp
  then show ?case by blast
next
  case (2 c s)
  show ?case
  proof (cases "c = backslash")
    case True
    with "2.prems" obtain q t where s: "s = q # t" and q: "is_quoted_specials q" "quoted_body t"
      by (auto split: list.splits)
    with "2.IH"(1) True obtain u where "list_all is_text_char u" "t = escape_quoted u" by blast
    with True s q have "list_all is_text_char (q # u) \<and> c # s = escape_quoted (q # u)"
      by (simp add: quoted_char_bytes_def specials_text_char)
    then show ?thesis by blast
  next
    case False
    with 2 obtain u where "list_all is_text_char u" "s = escape_quoted u" by auto
    with False "2.prems" have "list_all is_text_char (c # u) \<and> c # s = escape_quoted (c # u)"
      by (simp add: quoted_char_bytes_def is_any_text_char_except_quoted_specials_def)
    then show ?thesis by blast
  qed
qed

lemma escape_unescape: "quoted_body e \<Longrightarrow> escape_quoted (unescape_quoted e) = e"
  using quoted_body_is_escape [of e] by (auto simp: unescape_escape)

end
