(* ===== verification/Imap_Core.thy ===== *)
theory Imap_Core
  imports Imap_Utils
begin

text \<open>
  \<open>imap-types/src/error.rs\<close>, \<open>core.rs\<close>, \<open>extensions/binary.rs\<close> and \<open>extensions/utf8.rs\<close>: the
  string types of the protocol. Each validated type has its \<open>validate\<close> and \<open>try_from\<close>; the
  locale \<open>validated\<close> is the contract they share, proved once and interpreted on all of them.
  The four \<open>TryFrom\<close> instances of a type (borrowed or owned, bytes or \<open>str\<close>) differ only in
  ownership and are one function on byte lists here.
\<close>

section \<open>Validation errors\<close>

datatype ValidationErrorKind = Empty | NotEnough nat | Invalid | InvalidByteAt char nat

datatype ValidationError = ValidationError ValidationErrorKind

section \<open>The contract of the validated strings\<close>

text \<open>
  A client of a validated type relies on three operations: the validation, the conversion and
  the access to the bytes. \<open>allowed\<close> is the byte class of the type and \<open>nonempty\<close> tells whether
  the empty string is refused.
\<close>

locale validated =
  fixes validate :: "bytes \<Rightarrow> (ValidationError, unit) result"
    and try_from :: "bytes \<Rightarrow> (ValidationError, 'a) result"
    and mk :: "bytes \<Rightarrow> 'a"
    and inner :: "'a \<Rightarrow> bytes"
    and allowed :: "char \<Rightarrow> bool"
    and nonempty :: bool
  assumes validate_law: "validate s =
      (if nonempty \<and> s = [] then Inl (ValidationError Empty)
       else case position (\<lambda>b. \<not> allowed b) s of
         Some at \<Rightarrow> Inl (ValidationError (InvalidByteAt (s ! at) at))
       | None \<Rightarrow> Inr ())"
    and try_from_law: "try_from s = res_bind (validate s) (\<lambda>_. Inr (mk s))"
    and inner_mk: "inner (mk s) = s"
begin

definition valid :: "bytes \<Rightarrow> bool" where
  "valid s \<longleftrightarrow> (nonempty \<longrightarrow> s \<noteq> []) \<and> list_all allowed s"

lemma validate_ok_iff: "validate s = Inr u \<longleftrightarrow> valid s"
  by (auto simp: validate_law valid_def list_all_iff position_Some_iff split: option.splits)

lemma validate_empty_iff: "validate s = Inl (ValidationError Empty) \<longleftrightarrow> nonempty \<and> s = []"
  by (auto simp: validate_law split: option.splits)

text \<open>The reported position is the first byte outside the class.\<close>

lemma validate_byte_iff:
  "validate s = Inl (ValidationError (InvalidByteAt b at)) \<longleftrightarrow>
     at < length s \<and> s ! at = b \<and> \<not> allowed b \<and> list_all allowed (take at s)"
proof -
  have "validate s = Inl (ValidationError (InvalidByteAt b at)) \<longleftrightarrow>
      position (\<lambda>b. \<not> allowed b) s = Some at \<and> s ! at = b"
    by (auto simp: validate_law simp del: position_None_iff split: option.splits)
  also have "\<dots> \<longleftrightarrow> at < length s \<and> s ! at = b \<and> \<not> allowed b \<and> list_all allowed (take at s)"
    by (auto simp: position_Some_iff list_all_length)
  finally show ?thesis .
qed

lemma validate_cases:
  obtains (ok) "valid s" "validate s = Inr ()"
  | (empty) "nonempty" "s = []" "validate s = Inl (ValidationError Empty)"
  | (byte) b at where "validate s = Inl (ValidationError (InvalidByteAt b at))" "\<not> valid s"
proof (cases "valid s")
  case True
  with validate_ok_iff [of s "()"] ok show ?thesis by blast
next
  case False
  show ?thesis
  proof (cases "nonempty \<and> s = []")
    case True
    then have "validate s = Inl (ValidationError Empty)" by (simp add: validate_empty_iff)
    with True empty show ?thesis by blast
  next
    case no_empty: False
    have "validate s \<noteq> Inr ()" using False by (simp add: validate_ok_iff)
    then show ?thesis
      using no_empty False byte by (auto simp: validate_law split: option.splits if_splits)
  qed
qed

lemma try_from_iff: "try_from s = Inr x \<longleftrightarrow> valid s \<and> x = mk s"
  by (auto simp: try_from_law validate_ok_iff)

lemma try_from_inner: "try_from s = Inr x \<Longrightarrow> inner x = s \<and> valid s"
  by (simp add: try_from_iff inner_mk)

lemma try_from_ok: "valid s \<Longrightarrow> try_from s = Inr (mk s)"
  by (simp add: try_from_iff)

lemma try_from_err: "try_from s = Inl e \<longleftrightarrow> validate s = Inl e"
  by (cases "validate s") (simp_all add: try_from_law)

end

text \<open>The types whose constructors call \<open>from_utf8(..).unwrap()\<close>: their bytes are ASCII, hence
  valid UTF-8, and the \<open>unwrap\<close> cannot panic.\<close>

locale ascii_validated = validated +
  assumes allowed_ascii: "allowed c \<Longrightarrow> code c < 0x80"
begin

lemma valid_ascii: "valid s \<Longrightarrow> list_all (\<lambda>c. code c < 0x80) s"
  by (auto simp: valid_def list_all_iff allowed_ascii)

end

section \<open>\<open>Atom\<close>, \<open>AtomExt\<close>, \<open>Quoted\<close>, \<open>Text\<close>, \<open>Tag\<close>\<close>

datatype Atom = Atom (atom_inner: bytes)

definition Atom_validate :: "bytes \<Rightarrow> (ValidationError, unit) result" where
  "Atom_validate value =
     (if value = [] then Inl (ValidationError Empty)
      else case position (\<lambda>b. \<not> is_atom_char b) value of
        Some at \<Rightarrow> Inl (ValidationError (InvalidByteAt (value ! at) at))
      | None \<Rightarrow> Inr ())"

definition Atom_try_from :: "bytes \<Rightarrow> (ValidationError, Atom) result" where
  "Atom_try_from value = res_bind (Atom_validate value) (\<lambda>_. Inr (Atom value))"

datatype AtomExt = AtomExt (atom_ext_inner: bytes)

definition AtomExt_validate :: "bytes \<Rightarrow> (ValidationError, unit) result" where
  "AtomExt_validate value =
     (if value = [] then Inl (ValidationError Empty)
      else case position (\<lambda>b. \<not> is_astring_char b) value of
        Some at \<Rightarrow> Inl (ValidationError (InvalidByteAt (value ! at) at))
      | None \<Rightarrow> Inr ())"

definition AtomExt_try_from :: "bytes \<Rightarrow> (ValidationError, AtomExt) result" where
  "AtomExt_try_from value = res_bind (AtomExt_validate value) (\<lambda>_. Inr (AtomExt value))"

definition AtomExt_from_Atom :: "Atom \<Rightarrow> AtomExt" where
  "AtomExt_from_Atom value = AtomExt (atom_inner value)"

datatype Quoted = Quoted (quoted_inner: bytes)

definition Quoted_validate :: "bytes \<Rightarrow> (ValidationError, unit) result" where
  "Quoted_validate value =
     (case position (\<lambda>b. \<not> is_text_char b) value of
        Some at \<Rightarrow> Inl (ValidationError (InvalidByteAt (value ! at) at))
      | None \<Rightarrow> Inr ())"

definition Quoted_try_from :: "bytes \<Rightarrow> (ValidationError, Quoted) result" where
  "Quoted_try_from value = res_bind (Quoted_validate value) (\<lambda>_. Inr (Quoted value))"

datatype Text = Text (text_inner: bytes)

definition Text_validate :: "bytes \<Rightarrow> (ValidationError, unit) result" where
  "Text_validate value =
     (if value = [] then Inl (ValidationError Empty)
      else case position (\<lambda>b. \<not> is_text_char b) value of
        Some at \<Rightarrow> Inl (ValidationError (InvalidByteAt (value ! at) at))
      | None \<Rightarrow> Inr ())"

definition Text_try_from :: "bytes \<Rightarrow> (ValidationError, Text) result" where
  "Text_try_from value = res_bind (Text_validate value) (\<lambda>_. Inr (Text value))"

datatype Tag = Tag (tag_inner: bytes)

definition is_tag_char :: "char \<Rightarrow> bool" where
  "is_tag_char b \<longleftrightarrow> \<not> (\<not> is_astring_char b \<or> b = CHR ''+'')"

definition Tag_validate :: "bytes \<Rightarrow> (ValidationError, unit) result" where
  "Tag_validate value =
     (if value = [] then Inl (ValidationError Empty)
      else case position (\<lambda>b. \<not> is_astring_char b \<or> b = CHR ''+'') value of
        Some at \<Rightarrow> Inl (ValidationError (InvalidByteAt (value ! at) at))
      | None \<Rightarrow> Inr ())"

definition Tag_try_from :: "bytes \<Rightarrow> (ValidationError, Tag) result" where
  "Tag_try_from value = res_bind (Tag_validate value) (\<lambda>_. Inr (Tag value))"

section \<open>\<open>Literal\<close>, \<open>Literal8\<close>\<close>

datatype LiteralMode = Sync | NonSync

record Literal =
  data :: bytes
  mode :: LiteralMode

definition Literal_validate :: "bytes \<Rightarrow> (ValidationError, unit) result" where
  "Literal_validate value =
     (case position (\<lambda>b. \<not> is_char8 b) value of
        Some at \<Rightarrow> Inl (ValidationError (InvalidByteAt (value ! at) at))
      | None \<Rightarrow> Inr ())"

definition Literal_try_from :: "bytes \<Rightarrow> (ValidationError, Literal) result" where
  "Literal_try_from value =
     res_bind (Literal_validate value) (\<lambda>_. Inr \<lparr>data = value, mode = Sync\<rparr>)"

definition into_sync :: "Literal \<Rightarrow> Literal" where
  "into_sync l = l\<lparr>mode := Sync\<rparr>"

definition into_non_sync :: "Literal \<Rightarrow> Literal" where
  "into_non_sync l = l\<lparr>mode := NonSync\<rparr>"

definition set_mode :: "LiteralMode \<Rightarrow> Literal \<Rightarrow> Literal" where
  "set_mode m l = l\<lparr>mode := m\<rparr>"

record Literal8 =
  data8 :: bytes
  mode8 :: LiteralMode

datatype LiteralOrLiteral8 = LL_Literal Literal | LL_Literal8 Literal8

section \<open>The interpretations\<close>

text \<open>Hiding nothing: each type discharges the laws of the contract from its own definitions.\<close>

interpretation atom: ascii_validated Atom_validate Atom_try_from Atom atom_inner is_atom_char True
  by unfold_locales (auto simp: Atom_validate_def Atom_try_from_def dest: atom_char_range)

interpretation atom_ext:
  ascii_validated AtomExt_validate AtomExt_try_from AtomExt atom_ext_inner is_astring_char True
  by unfold_locales
     (auto simp: AtomExt_validate_def AtomExt_try_from_def
       dest!: astring_char_range)

interpretation quoted:
  ascii_validated Quoted_validate Quoted_try_from Quoted quoted_inner is_text_char False
  by unfold_locales (auto simp: Quoted_validate_def Quoted_try_from_def is_text_char_def)

interpretation text_string:
  ascii_validated Text_validate Text_try_from Text text_inner is_text_char True
  by unfold_locales (auto simp: Text_validate_def Text_try_from_def is_text_char_def)

interpretation tag: ascii_validated Tag_validate Tag_try_from Tag tag_inner is_tag_char True
  by unfold_locales
     (auto simp: Tag_validate_def Tag_try_from_def is_tag_char_def
       dest!: astring_char_range)

interpretation literal:
  validated Literal_validate Literal_try_from "\<lambda>s. \<lparr>data = s, mode = Sync\<rparr>" data is_char8 False
  by unfold_locales (auto simp: Literal_validate_def Literal_try_from_def)

lemmas valid_defs = atom.valid_def atom_ext.valid_def quoted.valid_def text_string.valid_def
  tag.valid_def literal.valid_def

text \<open>The well-formedness of a value: what its constructors establish.\<close>

abbreviation wf_atom :: "Atom \<Rightarrow> bool" where
  "wf_atom a \<equiv> atom.valid (atom_inner a)"
abbreviation wf_atom_ext :: "AtomExt \<Rightarrow> bool" where
  "wf_atom_ext a \<equiv> atom_ext.valid (atom_ext_inner a)"
abbreviation wf_quoted :: "Quoted \<Rightarrow> bool" where
  "wf_quoted q \<equiv> quoted.valid (quoted_inner q)"
abbreviation wf_text :: "Text \<Rightarrow> bool" where
  "wf_text t \<equiv> text_string.valid (text_inner t)"
abbreviation wf_tag :: "Tag \<Rightarrow> bool" where
  "wf_tag t \<equiv> tag.valid (tag_inner t)"
abbreviation wf_literal :: "Literal \<Rightarrow> bool" where
  "wf_literal l \<equiv> literal.valid (data l)"

lemma atom_valid_atom_ext: "atom.valid s \<Longrightarrow> atom_ext.valid s"
  by (auto simp: valid_defs list_all_iff atom_char_astring_char)

lemma tag_valid_atom_ext: "tag.valid s \<Longrightarrow> atom_ext.valid s"
  by (auto simp: valid_defs list_all_iff is_tag_char_def)

lemma atom_ext_valid_quoted: "atom_ext.valid s \<Longrightarrow> quoted.valid s"
  by (auto simp: valid_defs list_all_iff astring_char_text_char)

lemma quoted_valid_literal: "quoted.valid s \<Longrightarrow> literal.valid s"
  by (auto simp: valid_defs list_all_iff text_char_char8)

section \<open>\<open>IString\<close>, \<open>NString\<close>, \<open>AString\<close>\<close>

datatype QuotedUtf8 = QuotedUtf8 (quoted_utf8_inner: bytes)

datatype IString = IString_Literal Literal | IString_Quoted Quoted | IString_QuotedUtf8 QuotedUtf8

fun IString_as_ref :: "IString \<Rightarrow> bytes" where
  "IString_as_ref (IString_Quoted quoted) = quoted_inner quoted"
| "IString_as_ref (IString_Literal literal) = data literal"
| "IString_as_ref (IString_QuotedUtf8 quoted_utf8) = quoted_utf8_inner quoted_utf8"

definition IString_try_from :: "bytes \<Rightarrow> (ValidationError, IString) result" where
  "IString_try_from value =
     (case Quoted_try_from value of
        Inr quoted \<Rightarrow> Inr (IString_Quoted quoted)
      | Inl _ \<Rightarrow> map_ok IString_Literal (Literal_try_from value))"

datatype NString = NString (nstring_option: "IString option")

definition NString_NIL :: NString where
  "NString_NIL = NString None"

definition NString_into_option :: "NString \<Rightarrow> bytes option" where
  "NString_into_option n = map_option IString_as_ref (nstring_option n)"

definition NString_try_from :: "bytes \<Rightarrow> (ValidationError, NString) result" where
  "NString_try_from value = map_ok (\<lambda>i. NString (Some i)) (IString_try_from value)"

datatype AString = AString_Atom AtomExt | AString_String IString

fun AString_as_ref :: "AString \<Rightarrow> bytes" where
  "AString_as_ref (AString_Atom atom_ext) = atom_ext_inner atom_ext"
| "AString_as_ref (AString_String istr) = IString_as_ref istr"

definition AString_try_from :: "bytes \<Rightarrow> (ValidationError, AString) result" where
  "AString_try_from value =
     (case AtomExt_try_from value of
        Inr atom \<Rightarrow> Inr (AString_Atom atom)
      | Inl _ \<Rightarrow> map_ok AString_String (IString_try_from value))"

datatype Charset = Charset_Atom Atom | Charset_Quoted Quoted

fun Charset_as_ref :: "Charset \<Rightarrow> bytes" where
  "Charset_as_ref (Charset_Atom atom) = atom_inner atom"
| "Charset_as_ref (Charset_Quoted quoted) = quoted_inner quoted"

definition Charset_try_from :: "bytes \<Rightarrow> (ValidationError, Charset) result" where
  "Charset_try_from value =
     (case Atom_try_from value of
        Inr atom \<Rightarrow> Inr (Charset_Atom atom)
      | Inl _ \<Rightarrow> map_ok Charset_Quoted (Quoted_try_from value))"

datatype NString8 = NString8_NString NString | NString8_Literal8 Literal8

text \<open>Well-formedness. \<open>QuotedUtf8\<close> has a public field and no validation: it is unconstrained.\<close>

fun wf_istring :: "IString \<Rightarrow> bool" where
  "wf_istring (IString_Literal l) \<longleftrightarrow> wf_literal l"
| "wf_istring (IString_Quoted q) \<longleftrightarrow> wf_quoted q"
| "wf_istring (IString_QuotedUtf8 q) \<longleftrightarrow> True"

fun wf_astring :: "AString \<Rightarrow> bool" where
  "wf_astring (AString_Atom a) \<longleftrightarrow> wf_atom_ext a"
| "wf_astring (AString_String i) \<longleftrightarrow> wf_istring i"

fun wf_charset :: "Charset \<Rightarrow> bool" where
  "wf_charset (Charset_Atom a) \<longleftrightarrow> wf_atom a"
| "wf_charset (Charset_Quoted q) \<longleftrightarrow> wf_quoted q"

lemma IString_try_from_cases:
  "IString_try_from s =
     (if quoted.valid s then Inr (IString_Quoted (Quoted s))
      else if literal.valid s then Inr (IString_Literal \<lparr>data = s, mode = Sync\<rparr>)
      else map_ok IString_Literal (Literal_try_from s))"
  by (auto simp: IString_try_from_def quoted.try_from_ok literal.try_from_ok quoted.try_from_iff
      split: sum.splits)

lemma literal_try_from_Inl: "\<not> literal.valid s \<Longrightarrow> \<exists>e. Literal_try_from s = Inl e"
  by (cases "Literal_try_from s") (auto simp: literal.try_from_iff)

lemma IString_try_from_iff:
  "IString_try_from s = Inr i \<longleftrightarrow> literal.valid s \<and>
     i = (if quoted.valid s then IString_Quoted (Quoted s)
          else IString_Literal \<lparr>data = s, mode = Sync\<rparr>)"
  using quoted_valid_literal literal_try_from_Inl [of s] by (auto simp: IString_try_from_cases)

lemma AString_try_from_iff:
  "AString_try_from s = Inr a \<longleftrightarrow> literal.valid s \<and>
     a = (if atom_ext.valid s then AString_Atom (AtomExt s)
          else if quoted.valid s then AString_String (IString_Quoted (Quoted s))
          else AString_String (IString_Literal \<lparr>data = s, mode = Sync\<rparr>))"
proof (cases "atom_ext.valid s")
  case True
  then have "literal.valid s" by (intro quoted_valid_literal atom_ext_valid_quoted)
  with True show ?thesis by (auto simp: AString_try_from_def atom_ext.try_from_ok)
next
  case False
  then obtain e where "AtomExt_try_from s = Inl e"
    by (cases "AtomExt_try_from s") (auto simp: atom_ext.try_from_iff)
  with False show ?thesis by (auto simp: AString_try_from_def IString_try_from_iff)
qed

lemma AString_try_from_Inl:
  "AString_try_from s = Inl e \<longleftrightarrow> Literal_validate s = Inl e"
proof (cases "literal.valid s")
  case True
  then have "\<exists>a. AString_try_from s = Inr a" by (simp add: AString_try_from_iff)
  moreover have "Literal_validate s = Inr ()" using True by (simp add: literal.validate_ok_iff)
  ultimately show ?thesis by auto
next
  case False
  then have "\<not> quoted.valid s" "\<not> atom_ext.valid s"
    using quoted_valid_literal atom_ext_valid_quoted by blast+
  then obtain e1 e2 where "AtomExt_try_from s = Inl e1" "Quoted_try_from s = Inl e2"
    by (cases "AtomExt_try_from s"; cases "Quoted_try_from s")
       (auto simp: atom_ext.try_from_iff quoted.try_from_iff)
  then show ?thesis
    by (simp add: AString_try_from_def IString_try_from_def literal.try_from_err)
qed

text \<open>\<open>AString::try_from\<close> succeeds exactly on the NUL-free byte strings, keeps the bytes, and
  picks the cheapest representation that can carry them: an atom if all bytes are ASTRING-CHARs,
  else a quoted string if all bytes are TEXT-CHARs, and a synchronizing literal otherwise.
  On failure the error names the first NUL byte.\<close>

theorem AString_try_from_spec:
  "case AString_try_from s of
     Inr a \<Rightarrow> AString_as_ref a = s \<and> wf_astring a \<and> CHR 0x00 \<notin> set s \<and>
       a = (if s \<noteq> [] \<and> list_all is_astring_char s then AString_Atom (AtomExt s)
            else if list_all is_text_char s then AString_String (IString_Quoted (Quoted s))
            else AString_String (IString_Literal \<lparr>data = s, mode = Sync\<rparr>))
   | Inl e \<Rightarrow> (\<exists>i < length s. s ! i = CHR 0x00 \<and> CHR 0x00 \<notin> set (take i s) \<and>
       e = ValidationError (InvalidByteAt (CHR 0x00) i))"
proof (cases "AString_try_from s")
  case (Inl e)
  then have v: "Literal_validate s = Inl e" by (simp add: AString_try_from_Inl)
  have zero: "\<not> is_char8 c \<longleftrightarrow> c = CHR 0x00" for c
    using of_char_eq_iff [of c "CHR 0x00"] by (auto simp: is_char8_def)
  from v obtain i where "position (\<lambda>b. \<not> is_char8 b) s = Some i"
    and e: "e = ValidationError (InvalidByteAt (s ! i) i)"
    by (auto simp: Literal_validate_def simp del: position_None_iff split: option.splits)
  then have "i < length s \<and> s ! i = CHR 0x00 \<and> CHR 0x00 \<notin> set (take i s)"
    by (auto simp: position_Some_iff zero in_set_conv_nth)
  with e Inl show ?thesis by auto
next
  case (Inr a)
  then have "literal.valid s" by (simp add: AString_try_from_iff)
  moreover from this have "CHR 0x00 \<notin> set s"
    by (auto simp: valid_defs list_all_iff is_char8_def)
  moreover from Inr have "a = (if atom_ext.valid s then AString_Atom (AtomExt s)
      else if quoted.valid s then AString_String (IString_Quoted (Quoted s))
      else AString_String (IString_Literal \<lparr>data = s, mode = Sync\<rparr>))"
    by (simp add: AString_try_from_iff)
  ultimately show ?thesis
    unfolding Inr by (auto simp: valid_defs)
qed

section \<open>\<open>QuotedChar\<close>\<close>

text \<open>A Rust \<open>char\<close> is a Unicode scalar value, a number here.\<close>

datatype QuotedChar = QuotedChar (quoted_char_inner: nat)

definition QuotedChar_validate :: "nat \<Rightarrow> (ValidationError, unit) result" where
  "QuotedChar_validate input =
     (if input < 0x80 \<and>
         (is_any_text_char_except_quoted_specials (char_of input) \<or>
          input = code backslash \<or> input = code dquote)
      then Inr () else Inl (ValidationError Invalid))"

definition QuotedChar_try_from :: "nat \<Rightarrow> (ValidationError, QuotedChar) result" where
  "QuotedChar_try_from value = res_bind (QuotedChar_validate value) (\<lambda>_. Inr (QuotedChar value))"

text \<open>A \<open>QuotedChar\<close> is exactly a one-byte quoted string.\<close>

lemma QuotedChar_validate_iff:
  "QuotedChar_validate c = Inr () \<longleftrightarrow> c < 0x80 \<and> quoted.valid [char_of c]"
proof (cases "c < 0x80")
  case True
  then have "code (char_of c) = c" by (simp add: take_bit_nat_eq_self)
  moreover from this have "char_of c = x \<longleftrightarrow> c = code x" for x
    by (metis char_of_char)
  ultimately show ?thesis
    by (auto simp: QuotedChar_validate_def valid_defs is_text_char_def
        is_any_text_char_except_quoted_specials_def is_quoted_specials_def)
qed (simp add: QuotedChar_validate_def)

section \<open>\<open>VecN\<close>\<close>

text \<open>A vector with at least \<open>N\<close> elements; \<open>Vec1\<close> and \<open>Vec2\<close> are its instances at 1 and 2.\<close>

type_synonym 'a VecN = "'a list"

definition VecN_validate :: "nat \<Rightarrow> 'a list \<Rightarrow> (ValidationError, unit) result" where
  "VecN_validate N value =
     (if length value < N then Inl (ValidationError (NotEnough N)) else Inr ())"

definition VecN_try_from :: "nat \<Rightarrow> 'a list \<Rightarrow> (ValidationError, 'a VecN) result" where
  "VecN_try_from N inner = res_bind (VecN_validate N inner) (\<lambda>_. Inr inner)"

abbreviation (input) wf_vec :: "nat \<Rightarrow> 'a VecN \<Rightarrow> bool" where
  "wf_vec N v \<equiv> N \<le> length v"

lemma VecN_try_from_iff: "VecN_try_from N v = Inr w \<longleftrightarrow> w = v \<and> wf_vec N v"
  by (auto simp: VecN_try_from_def VecN_validate_def)

section \<open>Secrets\<close>

text \<open>The wrapper of \<open>secret.rs\<close>; it only changes what \<open>Debug\<close> prints.\<close>

datatype 'a Secret = Secret (declassify: 'a)

section \<open>Tags from the generator\<close>

text \<open>
  \<open>TagGenerator\<close>. The process-wide atomic counter is the first component of the state; a
  \<open>usize\<close> that never wraps in practice, it is a number here. The random token of a release
  build is a parameter, \<open>None\<close> in a debug build.
\<close>

record TagGenerator =
  tg_global :: nat
  tg_counter :: u64

definition TagGenerator_new :: "nat \<Rightarrow> TagGenerator \<times> nat" where
  "TagGenerator_new global_count =
     (\<lparr>tg_global = global_count, tg_counter = 0\<rparr>, global_count + 1)"

definition TagGenerator_generate :: "bytes option \<Rightarrow> TagGenerator \<Rightarrow> Tag \<times> TagGenerator" where
  "TagGenerator_generate token g =
     (let inner = dec (tg_global g) @ ''.'' @ dec (unat (tg_counter g)) @
            (case token of None \<Rightarrow> [] | Some token \<Rightarrow> ''.'' @ token)
      in (Tag inner, g\<lparr>tg_counter := tg_counter g + 1\<rparr>))"

definition is_alphanumeric :: "char \<Rightarrow> bool" where
  "is_alphanumeric c \<longleftrightarrow> is_digit c \<or> 65 \<le> code c \<and> code c \<le> 90 \<or> 97 \<le> code c \<and> code c \<le> 122"

primrec generate_many :: "(nat \<Rightarrow> bytes option) \<Rightarrow> nat \<Rightarrow> TagGenerator \<Rightarrow> Tag list \<times> TagGenerator" where
  "generate_many tokens 0 g = ([], g)"
| "generate_many tokens (Suc n) g =
     (let (tags, g) = generate_many tokens n g; (tag, g) = TagGenerator_generate (tokens n) g
      in (tags @ [tag], g))"

lemma alphanumeric_tag_char: "is_alphanumeric c \<Longrightarrow> is_tag_char c"
proof -
  assume c: "is_alphanumeric c"
  have ne: "c \<noteq> x" if "\<not> is_alphanumeric x" for x
    using c that by auto
  have "is_char c" "\<not> is_ctl c"
    using c by (auto simp: is_alphanumeric_def is_digit_def is_char_def is_ctl_def)
  then show ?thesis
    by (simp add: is_tag_char_def is_astring_char_def is_atom_char_def is_atom_specials_iff
        is_list_wildcards_def is_quoted_specials_def is_resp_specials_def ne is_alphanumeric_def
        is_digit_def)
qed

lemma digit_tag_char: "c \<in> set (dec n) \<Longrightarrow> is_tag_char c"
  by (simp add: alphanumeric_tag_char is_alphanumeric_def dec_digits_set)

lemma generate_many_spec:
  "generate_many tokens n (fst (TagGenerator_new a)) =
     (map (\<lambda>i. Tag (dec a @ ''.'' @ dec (unat (of_nat i :: u64)) @
        (case tokens i of None \<Rightarrow> [] | Some token \<Rightarrow> ''.'' @ token))) [0..<n],
      \<lparr>tg_global = a, tg_counter = of_nat n\<rparr>)"
  by (induction n) (simp_all add: TagGenerator_new_def TagGenerator_generate_def)

lemma leading_digits:
  "s = [] \<or> \<not> is_digit (hd s) \<Longrightarrow> takeWhile is_digit (dec n @ s) = dec n"
  by (cases s) (auto simp: takeWhile_append2 dec_digits_set takeWhile_eq_all_conv)

lemma dec_append_inject:
  assumes "dec m @ s = dec n @ t" "s = [] \<or> \<not> is_digit (hd s)" "t = [] \<or> \<not> is_digit (hd t)"
  shows "m = n \<and> s = t"
proof -
  have "dec m = dec n"
    using assms leading_digits [of s m] leading_digits [of t n] by simp
  then show ?thesis using assms(1) by simp
qed

definition token_ok :: "bytes option \<Rightarrow> bool" where
  "token_ok t = (case t of None \<Rightarrow> True | Some s \<Rightarrow> list_all is_alphanumeric s)"

text \<open>C38: Generated tags are valid tags, and no two of them are equal, neither from one generator
  until its 64-bit counter wraps nor from two generators of the process, whatever the random
  tokens are.\<close>

theorem TagGenerator_unique:
  assumes "\<And>i. token_ok (ts i)" "\<And>i. token_ok (us i)"
    and "n \<le> 2 ^ 64" "m \<le> 2 ^ 64" "i < n" "j < m"
    and "tags = fst (generate_many ts n (fst (TagGenerator_new a)))"
    and "tags' = fst (generate_many us m (fst (TagGenerator_new b)))"
  shows "tag.valid (tag_inner (tags ! i)) \<and> (tags ! i = tags' ! j \<longrightarrow> a = b \<and> i = j)"
proof -
  have u: "unat (of_nat k :: u64) = k" if "k < 2 ^ 64" for k
    using that by (simp add: unat_of_nat take_bit_nat_eq_self)
  define tok where "tok t = (case t of None \<Rightarrow> [] | Some token \<Rightarrow> ''.'' @ token)" for t
  have ti: "tags ! i = Tag (dec a @ ''.'' @ dec i @ tok (ts i))"
    using assms by (simp add: generate_many_spec u tok_def)
  have tj: "tags' ! j = Tag (dec b @ ''.'' @ dec j @ tok (us j))"
    using assms by (simp add: generate_many_spec u tok_def)
  have dot: "is_tag_char CHR ''.''" by code_simp
  have "\<forall>c \<in> set (tok (ts i)). is_tag_char c"
    using assms(1) [of i] dot
    by (auto simp: tok_def token_ok_def list_all_iff alphanumeric_tag_char split: option.splits)
  then have "tag.valid (tag_inner (tags ! i))"
    using dot by (auto simp: ti tag.valid_def list_all_iff digit_tag_char)
  moreover have "a = b \<and> i = j" if "tags ! i = tags' ! j"
  proof -
    have hd: "tok t = [] \<or> \<not> is_digit (hd (tok t))" for t
      by (cases t) (simp_all add: tok_def is_digit_def)
    from that have *: "dec a @ ''.'' @ dec i @ tok (ts i) = dec b @ ''.'' @ dec j @ tok (us j)"
      by (simp add: ti tj)
    from dec_append_inject [OF *] have "a = b" "dec i @ tok (ts i) = dec j @ tok (us j)"
      by (auto simp: is_digit_def)
    with dec_append_inject [OF this(2) hd hd] show ?thesis by simp
  qed
  ultimately show ?thesis by blast
qed

theorem TagGenerator_unique_witness:
  "tag.valid ''0.1.x9'' \<and> fst (generate_many (\<lambda>_. Some ''x9'') 2 (fst (TagGenerator_new 0))) ! 1 = Tag ''0.1.x9''"
proof -
  have tags: "fst (generate_many (\<lambda>_. Some ''x9'') 2 (fst (TagGenerator_new 0))) = [Tag ''0.0.x9'', Tag ''0.1.x9'']"
    by code_simp
  have ok: "token_ok (Some ''x9'')" by code_simp
  show ?thesis
    using TagGenerator_unique [OF ok ok _ _ _ _ refl refl, of 2 2 1 0 0 0] by (simp add: tags)
qed

end
