(* ===== verification/Imap_Fragmentizer.thy ===== *)
theory Imap_Fragmentizer
  imports Imap_Core
begin

text \<open>
  \<open>imap-codec/src/fragmentizer.rs\<close>: the scanner that splits a byte stream into line and literal
  fragments before any detailed parsing. The state of \<open>Fragmentizer\<close> and of its two parsers is
  passed explicitly. A panic of the source (an underflow of \<open>usize\<close>, a \<open>drain\<close> out of range)
  is the value \<open>None\<close>; byte positions are natural numbers, so they stand for executions that
  see fewer than \<open>2 ^ 64\<close> bytes.
\<close>

section \<open>Data\<close>

record LiteralAnnouncement =
  ann_mode :: LiteralMode
  ann_length :: u32

datatype LineEnding = Lf | CrLf

datatype FragmentInfo =
    Line (frag_start: nat) (frag_end: nat) (frag_announcement: "LiteralAnnouncement option")
      (frag_ending: LineEnding)
  | Lit (frag_start: nat) (frag_end: nat)

definition FragmentInfo_range :: "FragmentInfo \<Rightarrow> nat \<times> nat" where
  "FragmentInfo_range fi = (case fi of Line s e _ _ \<Rightarrow> (s, e) | Lit s e \<Rightarrow> (s, e))"

datatype LatestByte =
    Other | OpeningBracket | Digit u32 | Plus u32 | ClosingBracket LiteralAnnouncement
  | Cr "LiteralAnnouncement option"

record LineParser =
  line_start :: nat
  line_end :: nat
  latest_byte :: LatestByte

record LiteralParser =
  lit_start :: nat
  lit_end :: nat
  remaining :: u32

datatype Parser = Parser_Line LineParser | Parser_Literal LiteralParser

record Fragmentizer =
  unparsed_buffer :: bytes
  max_message_size :: "u32 option"
  max_message_size_exceeded :: bool
  message_poisoned :: bool
  message_buffer :: bytes
  parser :: "Parser option"

section \<open>The line parser\<close>

definition LineParser_new :: "nat \<Rightarrow> LineParser" where
  "LineParser_new start = \<lparr>line_start = start, line_end = start, latest_byte = Other\<rparr>"

text \<open>The transition on one byte: the new \<open>latest_byte\<close>, and the announcement and ending of the
  line when the byte completes it.\<close>

fun next_latest ::
  "LatestByte \<Rightarrow> char \<Rightarrow> LatestByte \<times> (LiteralAnnouncement option \<times> LineEnding) option" where
  "next_latest Other b =
     (if b = cr then (Cr None, None)
      else if b = lf then (Other, Some (None, Lf))
      else if b = CHR ''{'' then (OpeningBracket, None)
      else (Other, None))"
| "next_latest OpeningBracket b =
     (if b = cr then (Cr None, None)
      else if b = lf then (Other, Some (None, Lf))
      else if b = CHR ''{'' then (OpeningBracket, None)
      else if is_digit b then (Digit (of_nat (digit_val b)), None)
      else (Other, None))"
| "next_latest (Plus len) b =
     (if b = cr then (Cr None, None)
      else if b = lf then (Other, Some (None, Lf))
      else if b = CHR ''{'' then (OpeningBracket, None)
      else if b = CHR ''}''
        then (ClosingBracket \<lparr>ann_mode = NonSync, ann_length = len\<rparr>, None)
      else (Other, None))"
| "next_latest (Digit len) b =
     (if b = cr then (Cr None, None)
      else if b = lf then (Other, Some (None, Lf))
      else if b = CHR ''{'' then (OpeningBracket, None)
      else if is_digit b then
        (case Option.bind (checked_mul_u32 len 10)
            (\<lambda>x. checked_add_u32 x (of_nat (digit_val b))) of
           None \<Rightarrow> (Other, None)
         | Some new_length \<Rightarrow> (Digit new_length, None))
      else if b = CHR ''+'' then (Plus len, None)
      else if b = CHR ''}''
        then (ClosingBracket \<lparr>ann_mode = Sync, ann_length = len\<rparr>, None)
      else (Other, None))"
| "next_latest (ClosingBracket announcement) b =
     (if b = cr then (Cr (Some announcement), None)
      else if b = lf then (Other, Some (Some announcement, Lf))
      else if b = CHR ''{'' then (OpeningBracket, None)
      else (Other, None))"
| "next_latest (Cr announcement) b =
     (if b = cr then (Cr None, None)
      else if b = lf then (Other, Some (announcement, CrLf))
      else if b = CHR ''{'' then (OpeningBracket, None)
      else (Other, None))"

text \<open>The loop over the unprocessed bytes with its \<open>break\<close> after a complete line.\<close>

fun LineParser_parse :: "LineParser \<Rightarrow> bytes \<Rightarrow> LineParser \<times> nat \<times> FragmentInfo option" where
  "LineParser_parse p [] = (p, 0, None)"
| "LineParser_parse p (next_byte # bs) =
     (let p = p\<lparr>line_end := line_end p + 1\<rparr>;
          (latest, parsed_line) = next_latest (latest_byte p) next_byte;
          p = p\<lparr>latest_byte := latest\<rparr>
      in case parsed_line of
        Some (announcement, ending) \<Rightarrow>
          (p, 1, Some (Line (line_start p) (line_end p) announcement ending))
      | None \<Rightarrow> let (p, n, r) = LineParser_parse p bs in (p, n + 1, r))"

section \<open>The literal parser\<close>

definition LiteralParser_new :: "nat \<Rightarrow> u32 \<Rightarrow> LiteralParser" where
  "LiteralParser_new start len =
     \<lparr>lit_start = start, lit_end = start, remaining = len\<rparr>"

definition LiteralParser_parse ::
  "LiteralParser \<Rightarrow> bytes \<Rightarrow> LiteralParser \<times> nat \<times> FragmentInfo option" where
  "LiteralParser_parse p unprocessed_bytes =
     (if length unprocessed_bytes < unat (remaining p) then
        let parsed_byte_count = length unprocessed_bytes
        in (p\<lparr>lit_end := lit_end p + parsed_byte_count,
              remaining := remaining p - of_nat parsed_byte_count\<rparr>, parsed_byte_count, None)
      else
        let parsed_byte_count = unat (remaining p);
            p = p\<lparr>lit_end := lit_end p + parsed_byte_count, remaining := 0\<rparr>
        in (p, parsed_byte_count, Some (Lit (lit_start p) (lit_end p))))"

fun Parser_parse :: "Parser \<Rightarrow> bytes \<Rightarrow> Parser \<times> nat \<times> FragmentInfo option" where
  "Parser_parse (Parser_Line p) bs = apfst Parser_Line (LineParser_parse p bs)"
| "Parser_parse (Parser_Literal p) bs = apfst Parser_Literal (LiteralParser_parse p bs)"

section \<open>The fragmentizer\<close>

definition Fragmentizer_new :: "u32 \<Rightarrow> Fragmentizer" where
  "Fragmentizer_new max_size =
     \<lparr>unparsed_buffer = [], max_message_size = Some max_size, max_message_size_exceeded = False,
      message_poisoned = False, message_buffer = [],
      parser = Some (Parser_Line (LineParser_new 0))\<rparr>"

definition without_max_message_size :: Fragmentizer where
  "without_max_message_size =
     \<lparr>unparsed_buffer = [], max_message_size = None, max_message_size_exceeded = False,
      message_poisoned = False, message_buffer = [],
      parser = Some (Parser_Line (LineParser_new 0))\<rparr>"

definition dequeue_parsed_bytes :: "nat \<Rightarrow> Fragmentizer \<Rightarrow> Fragmentizer option" where
  "dequeue_parsed_bytes parsed_byte_count f =
     (if length (unparsed_buffer f) < parsed_byte_count then None
      else
        let parsed_bytes = take parsed_byte_count (unparsed_buffer f);
            f = f\<lparr>unparsed_buffer := drop parsed_byte_count (unparsed_buffer f)\<rparr>
        in case max_message_size f of
          Some max_size \<Rightarrow>
            if unat max_size < length (message_buffer f) then None
            else
              let remaining_size = unat max_size - length (message_buffer f)
              in if remaining_size < parsed_byte_count
                 then Some (f\<lparr>message_buffer := message_buffer f @ take remaining_size parsed_bytes,
                              max_message_size_exceeded := True\<rparr>)
                 else Some (f\<lparr>message_buffer := message_buffer f @ parsed_bytes\<rparr>)
        | None \<Rightarrow> Some (f\<lparr>message_buffer := message_buffer f @ parsed_bytes\<rparr>))"

definition start_next_message :: "Fragmentizer \<Rightarrow> Fragmentizer" where
  "start_next_message f =
     f\<lparr>max_message_size_exceeded := False, message_poisoned := False, message_buffer := [],
       parser := Some (Parser_Line (LineParser_new 0))\<rparr>"

definition next_parser :: "FragmentInfo \<Rightarrow> Parser option" where
  "next_parser fragment =
     (case fragment of
        Line _ _ None _ \<Rightarrow> None
      | Line _ e (Some announcement) _ \<Rightarrow>
          Some (Parser_Literal (LiteralParser_new e (ann_length announcement)))
      | Lit _ e \<Rightarrow> Some (Parser_Line (LineParser_new e)))"

definition progress :: "Fragmentizer \<Rightarrow> (Fragmentizer \<times> FragmentInfo option) option" where
  "progress f =
     (let (f, p) = (case parser f of
             Some p \<Rightarrow> (f, p)
           | None \<Rightarrow> (start_next_message f, Parser_Line (LineParser_new 0)));
          (p, parsed_byte_count, fragment) = Parser_parse p (unparsed_buffer f);
          f = f\<lparr>parser := Some p\<rparr>
      in Option.bind (dequeue_parsed_bytes parsed_byte_count f) (\<lambda>f.
           case fragment of
             Some fr \<Rightarrow> Some (f\<lparr>parser := next_parser fr\<rparr>, fragment)
           | None \<Rightarrow> Some (f, fragment)))"

definition enqueue_bytes :: "bytes \<Rightarrow> Fragmentizer \<Rightarrow> Fragmentizer" where
  "enqueue_bytes bs f = f\<lparr>unparsed_buffer := unparsed_buffer f @ bs\<rparr>"

definition fragment_bytes :: "Fragmentizer \<Rightarrow> FragmentInfo \<Rightarrow> bytes" where
  "fragment_bytes f fragment_info =
     (let (s, e) = (case fragment_info of Line s e _ _ \<Rightarrow> (s, e) | Lit s e \<Rightarrow> (s, e));
          s = min s (length (message_buffer f));
          e = min e (length (message_buffer f))
      in take (e - s) (drop s (message_buffer f)))"

definition is_message_complete :: "Fragmentizer \<Rightarrow> bool" where
  "is_message_complete f \<longleftrightarrow> parser f = None"

definition message_bytes :: "Fragmentizer \<Rightarrow> bytes" where
  "message_bytes f = message_buffer f"

definition skip_message :: "Fragmentizer \<Rightarrow> Fragmentizer" where
  "skip_message f =
     f\<lparr>max_message_size_exceeded := False, message_poisoned := False, message_buffer := [],
       parser := Some (Parser_Line (LineParser_new 0))\<rparr>"

definition poison_message :: "Fragmentizer \<Rightarrow> Fragmentizer" where
  "poison_message f = f\<lparr>message_poisoned := True\<rparr>"

text \<open>\<open>decode_tag\<close> and \<open>decode_message\<close>. The decoder is a type parameter of the source; here it
  is the argument \<open>decode\<close>. The errors carry the bytes wrapped in \<open>Secret\<close>, which only
  redacts their debug output.\<close>

fun parse_tag_loop :: "nat \<Rightarrow> bytes \<Rightarrow> nat option" where
  "parse_tag_loop i [] = None"
| "parse_tag_loop i (byte # bs) =
     (if byte = sp then Some i
      else if byte = lf then None
      else parse_tag_loop (i + 1) bs)"

definition parse_tag :: "bytes \<Rightarrow> Tag option" where
  "parse_tag bs =
     (case parse_tag_loop 0 bs of
        None \<Rightarrow> None
      | Some at \<Rightarrow> (case Tag_try_from (take at bs) of Inl _ \<Rightarrow> None | Inr t \<Rightarrow> Some t))"

definition decode_tag :: "Fragmentizer \<Rightarrow> Tag option" where
  "decode_tag f = parse_tag (message_buffer f)"

datatype ('err, 'msg) DecodeMessageError =
    DecodingFailure 'err
  | DecodingRemainder 'msg "bytes Secret"
  | MessageTooLong "bytes Secret"
  | MessagePoisoned "bytes Secret"

definition decode_message ::
  "(bytes \<Rightarrow> ('err, bytes \<times> 'msg) result) \<Rightarrow> Fragmentizer \<Rightarrow>
   (('err, 'msg) DecodeMessageError, 'msg) result" where
  "decode_message decode f =
     (if max_message_size_exceeded f then Inl (MessageTooLong (Secret (message_buffer f)))
      else if message_poisoned f then Inl (MessagePoisoned (Secret (message_buffer f)))
      else case decode (message_buffer f) of
        Inl err \<Rightarrow> Inl (DecodingFailure err)
      | Inr (remainder, message) \<Rightarrow>
          if remainder \<noteq> [] then Inl (DecodingRemainder message (Secret remainder))
          else Inr message)"

section \<open>The contract of the fragment parsers\<close>

text \<open>
  What \<open>progress\<close> relies on: a parser consumes a prefix of the buffer, all of it when no
  fragment is found, its positions advance by the consumed bytes, a fragment covers exactly the
  bytes since the parser was created, and parsing can be interrupted at any byte.
\<close>

locale fragment_parser =
  fixes parse :: "'p \<Rightarrow> bytes \<Rightarrow> 'p \<times> nat \<times> FragmentInfo option"
    and start_of :: "'p \<Rightarrow> nat"
    and end_of :: "'p \<Rightarrow> nat"
  assumes count_le: "parse p bs = (p', n, r) \<Longrightarrow> n \<le> length bs"
    and unfinished: "parse p bs = (p', n, None) \<Longrightarrow> n = length bs"
    and advance: "parse p bs = (p', n, r) \<Longrightarrow> end_of p' = end_of p + n \<and> start_of p' = start_of p"
    and fragment_range:
      "parse p bs = (p', n, Some fr) \<Longrightarrow> frag_start fr = start_of p \<and> frag_end fr = end_of p'"
    and settled: "parse p bs = (p', n, Some fr) \<Longrightarrow> parse p (bs @ cs) = (p', n, Some fr)"
    and resume: "parse p bs = (p', n, None) \<Longrightarrow>
      parse p (bs @ cs) = (case parse p' cs of (p'', m, r) \<Rightarrow> (p'', n + m, r))"
begin

lemma parse_append:
  "parse p (bs @ cs) =
     (case parse p bs of
        (p', n, Some fr) \<Rightarrow> (p', n, Some fr)
      | (p', n, None) \<Rightarrow> (case parse p' cs of (p'', m, r) \<Rightarrow> (p'', n + m, r)))"
proof -
  obtain p' n r where "parse p bs = (p', n, r)" by (cases "parse p bs")
  then show ?thesis by (cases r) (simp_all add: settled resume)
qed

lemma range_growth:
  assumes "parse p bs = (p', n, r)" "start_of p \<le> end_of p"
  shows "start_of p' \<le> end_of p'"
  using assms advance by fastforce

lemma parse_take:
  assumes "parse p bs = (p', n, Some fr)"
  shows "n \<le> length bs" "frag_end fr = end_of p + n" "frag_start fr = start_of p"
  using assms count_le advance fragment_range by force+

end

lemma LineParser_parse_count_le: "LineParser_parse p bs = (p', n, r) \<Longrightarrow> n \<le> length bs"
  by (induction p bs arbitrary: p' n r rule: LineParser_parse.induct)
     (auto simp: Let_def split: prod.splits option.splits)

lemma LineParser_parse_unfinished:
  "LineParser_parse p bs = (p', n, None) \<Longrightarrow> n = length bs"
  by (induction p bs arbitrary: p' n rule: LineParser_parse.induct)
     (fastforce simp: Let_def split: prod.splits option.splits)+

lemma LineParser_parse_advance:
  "LineParser_parse p bs = (p', n, r) \<Longrightarrow> line_end p' = line_end p + n \<and> line_start p' = line_start p"
  by (induction p bs arbitrary: p' n r rule: LineParser_parse.induct)
     (fastforce simp: Let_def split: prod.splits option.splits)+

lemma LineParser_parse_range:
  "LineParser_parse p bs = (p', n, Some fr) \<Longrightarrow>
     frag_start fr = line_start p \<and> frag_end fr = line_end p'"
  by (induction p bs arbitrary: p' n rule: LineParser_parse.induct)
     (fastforce simp: Let_def split: prod.splits option.splits)+

lemma LineParser_parse_append:
  "LineParser_parse p (bs @ cs) =
     (case LineParser_parse p bs of
        (p', n, Some fr) \<Rightarrow> (p', n, Some fr)
      | (p', n, None) \<Rightarrow> (case LineParser_parse p' cs of (p'', m, r) \<Rightarrow> (p'', n + m, r)))"
  by (induction p bs rule: LineParser_parse.induct)
     (auto simp: Let_def split: prod.splits option.splits)

interpretation line_parser: fragment_parser LineParser_parse line_start line_end
  by unfold_locales
     (auto simp: LineParser_parse_append
       dest: LineParser_parse_count_le LineParser_parse_unfinished LineParser_parse_advance
         LineParser_parse_range)

interpretation literal_parser: fragment_parser LiteralParser_parse lit_start lit_end
  by unfold_locales
     (auto simp: LiteralParser_parse_def Let_def unat_remaining split: if_splits)

fun parser_start :: "Parser \<Rightarrow> nat" where
  "parser_start (Parser_Line p) = line_start p"
| "parser_start (Parser_Literal p) = lit_start p"

fun parser_end :: "Parser \<Rightarrow> nat" where
  "parser_end (Parser_Line p) = line_end p"
| "parser_end (Parser_Literal p) = lit_end p"

interpretation parsers: fragment_parser Parser_parse parser_start parser_end
proof
  fix p p' bs cs n r fr
  show "n \<le> length bs" if "Parser_parse p bs = (p', n, r)"
    using that line_parser.count_le literal_parser.count_le
    by (cases p) (auto simp: apfst_def map_prod_def split: prod.splits)
  show "n = length bs" if "Parser_parse p bs = (p', n, None)"
    using that line_parser.unfinished literal_parser.unfinished
    by (cases p) (auto simp: apfst_def map_prod_def split: prod.splits)
  show "parser_end p' = parser_end p + n \<and> parser_start p' = parser_start p"
    if "Parser_parse p bs = (p', n, r)"
    using that line_parser.advance literal_parser.advance
    by (cases p) (auto simp: apfst_def map_prod_def split: prod.splits)
  show "frag_start fr = parser_start p \<and> frag_end fr = parser_end p'"
    if "Parser_parse p bs = (p', n, Some fr)"
    using that line_parser.fragment_range literal_parser.fragment_range
    by (cases p) (auto simp: apfst_def map_prod_def split: prod.splits)
  show "Parser_parse p (bs @ cs) = (p', n, Some fr)" if "Parser_parse p bs = (p', n, Some fr)"
    using that line_parser.settled literal_parser.settled
    by (cases p) (auto simp: apfst_def map_prod_def split: prod.splits)
  show "Parser_parse p (bs @ cs) = (case Parser_parse p' cs of (p'', m, r) \<Rightarrow> (p'', n + m, r))"
    if "Parser_parse p bs = (p', n, None)"
    using that line_parser.resume literal_parser.resume
    by (cases p) (auto simp: apfst_def map_prod_def split: prod.splits)
qed

section \<open>What the line parser recognises\<close>

text \<open>The state reached after the bytes \<open>s\<close> of a line, none of them LF.\<close>

definition scan :: "LatestByte \<Rightarrow> bytes \<Rightarrow> LatestByte" where
  "scan q s = fold (\<lambda>b q. fst (next_latest q b)) s q"

lemma scan_Nil [scan_simps]: "scan q [] = q"
  by (simp add: scan_def)

lemma scan_Cons [scan_simps]: "scan q (b # s) = scan (fst (next_latest q b)) s"
  by (simp add: scan_def)

lemma scan_append [scan_simps]: "scan q (s @ t) = scan (scan q s) t"
  by (simp add: scan_def)

definition digits :: "bytes \<Rightarrow> bool" where
  "digits ds \<longleftrightarrow> ds \<noteq> [] \<and> list_all is_digit ds"

definition u32_digits :: "bytes \<Rightarrow> u32 \<Rightarrow> bool" where
  "u32_digits ds len \<longleftrightarrow> digits ds \<and> dec_value ds < 2 ^ 32 \<and> unat len = dec_value ds"

text \<open>The literal announcement \<open>{n}\<close> or \<open>{n+}\<close> at the end of a line without its line break.\<close>

definition announces :: "bytes \<Rightarrow> LiteralAnnouncement \<Rightarrow> bool" where
  "announces s a \<longleftrightarrow> (\<exists>p ds. u32_digits ds (ann_length a) \<and>
     s = p @ ''{'' @ ds @ (case ann_mode a of Sync \<Rightarrow> ''}'' | NonSync \<Rightarrow> ''+}''))"

fun recognised :: "LatestByte \<Rightarrow> bytes \<Rightarrow> bool" where
  "recognised Other s = True"
| "recognised OpeningBracket s = (\<exists>p. s = p @ ''{'')"
| "recognised (Digit len) s = (\<exists>p ds. u32_digits ds len \<and> s = p @ ''{'' @ ds)"
| "recognised (Plus len) s = (\<exists>p ds. u32_digits ds len \<and> s = p @ ''{'' @ ds @ ''+'')"
| "recognised (ClosingBracket a) s = announces s a"
| "recognised (Cr a) s = (\<exists>p. s = p @ [cr] \<and> (\<forall>b. a = Some b \<longrightarrow> announces p b))"

lemma digit_val_bound: "is_digit b \<Longrightarrow> digit_val b < 10"
  by (auto simp: is_digit_def digit_val_def)

lemma unat_digit: "is_digit b \<Longrightarrow> unat (of_nat (digit_val b) :: u32) = digit_val b"
  using digit_val_bound [of b] by (simp add: unat_of_nat take_bit_nat_eq_self)

lemma u32_digits_single: "is_digit b \<Longrightarrow> u32_digits [b] (of_nat (digit_val b))"
  using dec_value_snoc [of "[]" b] digit_val_bound [of b]
  by (simp add: u32_digits_def digits_def unat_digit)

lemma u32_digits_snoc:
  assumes "u32_digits ds len" "is_digit b"
  shows "Option.bind (checked_mul_u32 len 10) (\<lambda>x. checked_add_u32 x (of_nat (digit_val b))) =
      (if dec_value (ds @ [b]) < 2 ^ 32 then Some (of_nat (dec_value (ds @ [b]))) else None)"
proof -
  let ?d = "of_nat (digit_val b) :: u32"
  have len: "unat len = dec_value ds" using assms by (simp add: u32_digits_def)
  have len_word: "len = of_nat (dec_value ds)" by (simp flip: len)
  have d: "unat ?d = digit_val b" by (rule unat_digit) fact
  show ?thesis
  proof (cases "unat len * 10 < 2 ^ 32")
    case True
    then have mul: "unat (len * 10) = dec_value ds * 10"
      using unat_mul_u32 [of len 10] by (simp add: len)
    show ?thesis
    proof (cases "dec_value (ds @ [b]) < 2 ^ 32")
      case fits: True
      then have "unat (len * 10) + unat ?d < 2 ^ 32" by (simp add: mul d)
      moreover have "len * 10 + ?d = of_nat (dec_value (ds @ [b]))"
        by (simp add: len_word)
      ultimately show ?thesis
        using True fits by (simp add: checked_mul_u32_def checked_add_u32_def)
    next
      case False
      then have "\<not> unat (len * 10) + unat ?d < 2 ^ 32" by (simp add: mul d)
      with False show ?thesis by (simp add: checked_mul_u32_def checked_add_u32_def)
    qed
  next
    case False
    then show ?thesis by (simp add: checked_mul_u32_def len)
  qed
qed

lemma next_latest_line: "snd (next_latest q b) = None \<longleftrightarrow> b \<noteq> lf"
  by (cases q) (auto simp: is_digit_def split: option.splits)

lemma next_latest_open: "next_latest q CHR ''{'' = (OpeningBracket, None)"
  by (cases q) (auto simp: is_digit_def)

lemma next_latest_cr:
  "next_latest q cr = (Cr (case q of ClosingBracket a \<Rightarrow> Some a | _ \<Rightarrow> None), None)"
  by (cases q) (auto simp: is_digit_def)

lemma recognised_Digit_snoc:
  assumes "recognised (Digit len) s" "is_digit b"
  shows "recognised (fst (next_latest (Digit len) b)) (s @ [b])"
proof -
  from assms(1) obtain p ds where ds: "u32_digits ds len" and s: "s = p @ ''{'' @ ds" by auto
  have b: "b \<noteq> cr" "b \<noteq> lf" "b \<noteq> CHR ''{''" using assms(2) by (auto simp: is_digit_def)
  show ?thesis
  proof (cases "dec_value (ds @ [b]) < 2 ^ 32")
    case True
    let ?v = "dec_value (ds @ [b])"
    have "unat (of_nat ?v :: u32) = ?v" by (rule unat_of_nat_u32) (rule True)
    then have "u32_digits (ds @ [b]) (of_nat ?v)"
      using ds assms(2) True by (simp add: u32_digits_def digits_def)
    moreover have "s @ [b] = p @ ''{'' @ (ds @ [b])" by (simp add: s)
    moreover have "fst (next_latest (Digit len) b) = Digit (of_nat ?v)"
      using b assms(2) True by (simp add: u32_digits_snoc [OF ds assms(2)] del: dec_value_snoc)
    ultimately show ?thesis by (auto simp del: dec_value_snoc)
  next
    case False
    then show ?thesis
      using b assms(2) by (simp add: u32_digits_snoc [OF ds assms(2)] del: dec_value_snoc)
  qed
qed

lemma recognised_next:
  assumes "recognised q s" "b \<noteq> lf"
  shows "recognised (fst (next_latest q b)) (s @ [b])"
proof (cases q)
  case OpeningBracket
  with assms show ?thesis using u32_digits_single [of b] by (auto 4 4)
next
  case (Digit len)
  show ?thesis
  proof (cases "is_digit b")
    case True
    with Digit assms recognised_Digit_snoc show ?thesis by blast
  next
    case False
    with Digit assms show ?thesis by (auto simp: announces_def)
  qed
next
  case (Plus len)
  with assms show ?thesis by (auto simp: announces_def)
qed (use assms in auto)

lemma recognised_scan: "lf \<notin> set s \<Longrightarrow> recognised (scan Other s) s"
proof (induction s rule: rev_induct)
  case (snoc b s)
  then show ?case using recognised_next [of "scan Other s" s b] by (auto simp: scan_simps)
qed (simp add: scan_simps)

lemma scan_digits: "u32_digits ds len \<Longrightarrow> scan OpeningBracket ds = Digit len"
proof (induction ds arbitrary: len rule: rev_induct)
  case Nil
  then show ?case by (simp add: u32_digits_def digits_def)
next
  case (snoc b ds)
  then have b: "is_digit b" and len: "unat len = dec_value (ds @ [b])"
    and fits: "dec_value (ds @ [b]) < 2 ^ 32" and all: "list_all is_digit ds"
    by (auto simp: u32_digits_def digits_def)
  have nb: "b \<noteq> cr" "b \<noteq> lf" "b \<noteq> CHR ''{''" using b by (auto simp: is_digit_def)
  have len_word: "len = of_nat (dec_value (ds @ [b]))"
    by (simp flip: len del: dec_value_snoc)
  show ?case
  proof (cases "ds = []")
    case True
    then have "len = of_nat (digit_val b)"
      using len_word dec_value_snoc [of "[]" b] by simp
    with True b nb show ?thesis by (simp add: scan_simps)
  next
    case False
    let ?v = "dec_value ds"
    have "?v < 2 ^ 32" using fits by simp
    then have "unat (of_nat ?v :: u32) = ?v" by (rule unat_of_nat_u32)
    with False all \<open>?v < 2 ^ 32\<close> have ds: "u32_digits ds (of_nat ?v)"
      by (simp add: u32_digits_def digits_def)
    then have "scan OpeningBracket ds = Digit (of_nat ?v)" by (rule snoc.IH)
    moreover have "Option.bind (checked_mul_u32 (of_nat ?v) 10)
        (\<lambda>x. checked_add_u32 x (of_nat (digit_val b))) = Some len"
      by (simp only: u32_digits_snoc [OF ds b] fits len_word if_True)
    ultimately show ?thesis using b nb by (simp add: scan_simps)
  qed
qed

lemma scan_announces: "announces s a \<Longrightarrow> scan q s = ClosingBracket a"
  by (cases "ann_mode a")
     (auto simp: announces_def scan_simps next_latest_open scan_digits is_digit_def)

lemma scan_closing_iff: "lf \<notin> set s \<Longrightarrow> scan Other s = ClosingBracket a \<longleftrightarrow> announces s a"
  using recognised_scan [of s] scan_announces [of s a Other] by auto

lemma announces_unique: "announces s a \<Longrightarrow> announces s b \<Longrightarrow> a = b"
  using scan_announces [of s a Other] scan_announces [of s b Other] by simp

fun line_result :: "LatestByte \<Rightarrow> LiteralAnnouncement option \<times> LineEnding" where
  "line_result (ClosingBracket a) = (Some a, Lf)"
| "line_result (Cr a) = (a, CrLf)"
| "line_result _ = (None, Lf)"

lemma next_latest_lf: "next_latest q lf = (Other, Some (line_result q))"
  by (cases q) (auto simp: is_digit_def)

lemma LineParser_parse_partial:
  "lf \<notin> set s \<Longrightarrow> LineParser_parse p s =
     (p\<lparr>line_end := line_end p + length s, latest_byte := scan (latest_byte p) s\<rparr>, length s, None)"
proof (induction s arbitrary: p)
  case (Cons b s)
  then have "snd (next_latest (latest_byte p) b) = None" by (auto simp: next_latest_line)
  then obtain q where "next_latest (latest_byte p) b = (q, None)" by (metis prod.collapse)
  with Cons show ?case by (auto simp: scan_simps)
qed (simp add: scan_simps)

lemma LineParser_parse_complete:
  assumes "lf \<notin> set s"
  shows "LineParser_parse p (s @ lf # rest) =
     (p\<lparr>line_end := line_end p + length s + 1, latest_byte := Other\<rparr>, length s + 1,
      Some (Line (line_start p) (line_end p + length s + 1)
        (fst (line_result (scan (latest_byte p) s))) (snd (line_result (scan (latest_byte p) s)))))"
  by (simp add: LineParser_parse_append LineParser_parse_partial [OF assms] next_latest_lf
      split: prod.splits)

definition strip_cr :: "bytes \<Rightarrow> bytes" where
  "strip_cr s = (if s \<noteq> [] \<and> last s = cr then butlast s else s)"

lemma announces_not_cr: "announces s a \<Longrightarrow> s \<noteq> [] \<and> last s \<noteq> cr"
  by (cases "ann_mode a") (auto simp: announces_def)

lemma scan_Cr_iff:
  assumes "lf \<notin> set s"
  shows "(\<exists>a. scan Other s = Cr a) \<longleftrightarrow> s \<noteq> [] \<and> last s = cr"
proof (cases s rule: rev_cases)
  case (snoc p b)
  have "b = cr" if "scan Other s = Cr a" for a
    using recognised_scan [OF assms] that snoc by auto
  moreover have "\<exists>a. scan Other s = Cr a" if "b = cr"
    using that snoc by (simp add: scan_simps next_latest_cr)
  ultimately show ?thesis using snoc by auto
qed (simp add: scan_simps)

lemma line_result_announcement:
  assumes "lf \<notin> set s"
  shows "fst (line_result (scan Other s)) = Some a \<longleftrightarrow> announces (strip_cr s) a"
proof (cases "s \<noteq> [] \<and> last s = cr")
  case True
  then obtain p where s: "s = p @ [cr]" by (metis append_butlast_last_id)
  then have "fst (line_result (scan Other s)) = Some a \<longleftrightarrow> scan Other p = ClosingBracket a"
    by (auto simp: scan_simps next_latest_cr split: LatestByte.splits)
  also have "\<dots> \<longleftrightarrow> announces p a" using assms s by (intro scan_closing_iff) simp
  finally show ?thesis by (simp add: s strip_cr_def)
next
  case False
  then have "\<nexists>b. scan Other s = Cr b" using scan_Cr_iff [OF assms] by blast
  then have "fst (line_result (scan Other s)) = Some a \<longleftrightarrow> scan Other s = ClosingBracket a"
    by (cases "scan Other s") auto
  with False show ?thesis by (auto simp: scan_closing_iff [OF assms] strip_cr_def)
qed

lemma line_result_ending:
  assumes "lf \<notin> set s"
  shows "snd (line_result (scan Other s)) = CrLf \<longleftrightarrow> s \<noteq> [] \<and> last s = cr"
  unfolding scan_Cr_iff [OF assms, symmetric] by (cases "scan Other s") auto

text \<open>C11: a fresh line parser that sees a line \<open>s\<close> followed by LF consumes exactly that line,
  whatever follows, and reports its range, whether it ends with CRLF, and a literal announcement
  if and only if the line (without its CR) ends with \<open>{digits}\<close> or \<open>{digits+}\<close> whose value fits
  into 32 bits, with that mode and length. Longer numbers, which overflow \<open>u32\<close>, never announce.\<close>

theorem LineParser_parse_spec:
  assumes "lf \<notin> set s"
  shows "\<exists>p announcement ending.
     LineParser_parse (LineParser_new st) (s @ lf # rest) =
       (p, length s + 1, Some (Line st (st + length s + 1) announcement ending)) \<and>
     (ending = CrLf \<longleftrightarrow> s \<noteq> [] \<and> last s = cr) \<and>
     (\<forall>a. announcement = Some a \<longleftrightarrow> announces (strip_cr s) a)"
  using line_result_announcement [OF assms] line_result_ending [OF assms]
  by (simp add: LineParser_parse_complete [OF assms] LineParser_new_def)

lemma LineParser_parse_spec_witness:
  "\<exists>p announcement ending.
     LineParser_parse (LineParser_new 7) (''A {12+}'' @ lf # ''xyz'') =
       (p, length ''A {12+}'' + 1, Some (Line 7 (7 + length ''A {12+}'' + 1) announcement ending)) \<and>
     (ending = CrLf \<longleftrightarrow> ''A {12+}'' \<noteq> [] \<and> last ''A {12+}'' = cr) \<and>
     (\<forall>a. announcement = Some a \<longleftrightarrow> announces (strip_cr ''A {12+}'') a)"
  by (rule LineParser_parse_spec) simp

section \<open>Storing parsed bytes\<close>

definition fits :: "Fragmentizer \<Rightarrow> bool" where
  "fits f \<longleftrightarrow> (\<forall>m. max_message_size f = Some m \<longrightarrow> length (message_buffer f) \<le> unat m)"

definition truncated :: "u32 option \<Rightarrow> bytes \<Rightarrow> bytes" where
  "truncated limit g = (case limit of None \<Rightarrow> g | Some m \<Rightarrow> take (unat m) g)"

definition too_long :: "u32 option \<Rightarrow> nat \<Rightarrow> bool" where
  "too_long limit n \<longleftrightarrow> (case limit of None \<Rightarrow> False | Some m \<Rightarrow> unat m < n)"

definition stored :: "bytes \<Rightarrow> Fragmentizer \<Rightarrow> Fragmentizer" where
  "stored bs f =
     f\<lparr>message_buffer := truncated (max_message_size f) (message_buffer f @ bs),
       max_message_size_exceeded := max_message_size_exceeded f \<or>
         too_long (max_message_size f) (length (message_buffer f) + length bs)\<rparr>"

lemma dequeue_stored:
  "dequeue_parsed_bytes n f =
     (if n \<le> length (unparsed_buffer f) \<and> fits f
      then Some ((stored (take n (unparsed_buffer f)) f)\<lparr>
        unparsed_buffer := drop n (unparsed_buffer f)\<rparr>)
      else None)"
  by (cases f; cases "max_message_size f")
     (auto simp: dequeue_parsed_bytes_def stored_def truncated_def too_long_def fits_def Let_def)

lemma stored_simps [simp]:
  "unparsed_buffer (stored bs f) = unparsed_buffer f"
  "max_message_size (stored bs f) = max_message_size f"
  "message_poisoned (stored bs f) = message_poisoned f"
  "parser (stored bs f) = parser f"
  by (simp_all add: stored_def)

lemma fits_stored: "fits (stored bs f)"
  by (simp add: fits_def stored_def truncated_def del: take_append)

lemma stored_append:
  "fits f \<Longrightarrow> stored bs' (stored bs f) = stored (bs @ bs') f"
  by (cases f; cases "max_message_size f")
     (auto simp: stored_def truncated_def too_long_def fits_def min_def add.assoc)

text \<open>One call of \<open>progress\<close>, with the state it starts from made explicit.\<close>

definition begun :: "Fragmentizer \<Rightarrow> Fragmentizer" where
  "begun f = (if parser f = None then start_next_message f else f)"

lemma begun_simps [simp]:
  "parser (begun f) \<noteq> None" "unparsed_buffer (begun f) = unparsed_buffer f"
  "max_message_size (begun f) = max_message_size f" "fits f \<Longrightarrow> fits (begun f)"
  "parser f \<noteq> None \<Longrightarrow> begun f = f"
  by (auto simp: begun_def start_next_message_def fits_def)

lemma begun_begun: "begun (begun f) = begun f"
  by simp

definition advanced :: "nat \<Rightarrow> Parser option \<Rightarrow> Fragmentizer \<Rightarrow> Fragmentizer" where
  "advanced n q f = (stored (take n (unparsed_buffer f)) f)\<lparr>
     unparsed_buffer := drop n (unparsed_buffer f), parser := q\<rparr>"

definition parser_after :: "Parser \<Rightarrow> FragmentInfo option \<Rightarrow> Parser option" where
  "parser_after p r = (case r of None \<Rightarrow> Some p | Some fr \<Rightarrow> next_parser fr)"

lemma advanced_simps [simp]:
  "unparsed_buffer (advanced n q f) = drop n (unparsed_buffer f)"
  "parser (advanced n q f) = q"
  "max_message_size (advanced n q f) = max_message_size f"
  "message_buffer (advanced n q f) =
     truncated (max_message_size f) (message_buffer f @ take n (unparsed_buffer f))"
  "max_message_size_exceeded (advanced n q f) \<longleftrightarrow> max_message_size_exceeded f \<or>
     too_long (max_message_size f)
       (length (message_buffer f) + min (length (unparsed_buffer f)) n)"
  by (simp_all add: advanced_def stored_def)

lemma fits_advanced: "fits (advanced n q f)"
  using fits_stored [of "take n (unparsed_buffer f)" f] by (simp add: advanced_def fits_def)

lemma progress_eq:
  assumes "parser (begun f) = Some p" "Parser_parse p (unparsed_buffer f) = (p', n, r)"
  shows "progress f =
    (if fits (begun f) then Some (advanced n (parser_after p' r) (begun f), r) else None)"
proof -
  have n: "n \<le> length (unparsed_buffer f)" by (rule parsers.count_le) fact
  have fits_parser: "fits (g\<lparr>parser := q\<rparr>) \<longleftrightarrow> fits g" for g q by (simp add: fits_def)
  have start: "(case parser f of Some p \<Rightarrow> (f, p)
      | None \<Rightarrow> (start_next_message f, Parser_Line (LineParser_new 0))) = (begun f, p)"
    using assms(1) by (cases "parser f") (auto simp: begun_def start_next_message_def)
  show ?thesis
    unfolding progress_def start
    using n assms(2)
    by (cases r)
       (auto simp: dequeue_stored fits_parser stored_def advanced_def parser_after_def)
qed

section \<open>Draining the buffer\<close>

text \<open>The client loop of the module documentation: call \<open>progress\<close> until it returns \<open>None\<close>,
  and read the bytes of each fragment. It ends because a line consumes a byte and an empty
  literal is followed by a line.\<close>

definition rank :: "Fragmentizer \<Rightarrow> nat" where
  "rank f = 2 * length (unparsed_buffer f) +
     (case parser f of Some (Parser_Literal _) \<Rightarrow> 1 | _ \<Rightarrow> 0)"

lemma LineParser_parse_Some_pos: "LineParser_parse p bs = (p', n, Some fr) \<Longrightarrow>
    0 < n \<and> (\<exists>s e a d. fr = Line s e a d)"
  by (induction p bs arbitrary: p' n rule: LineParser_parse.induct)
     (fastforce simp: Let_def split: prod.splits option.splits)+

lemma LiteralParser_parse_Some: "LiteralParser_parse p bs = (p', n, Some fr) \<Longrightarrow>
    n = unat (remaining p) \<and> fr = Lit (lit_start p) (lit_end p + n)"
  by (auto simp: LiteralParser_parse_def Let_def split: if_splits)

lemma progress_rank:
  assumes "progress f = Some (f', Some fr)"
  shows "rank f' < rank f"
proof -
  obtain p where p: "parser (begun f) = Some p" using begun_simps(1) by blast
  obtain p' n r where parse: "Parser_parse p (unparsed_buffer f) = (p', n, r)"
    by (metis prod_cases3)
  note eq = progress_eq [OF p parse]
  from assms eq have r: "r = Some fr" by (simp split: if_splits)
  from assms eq have f': "unparsed_buffer f' = drop n (unparsed_buffer f)"
    "parser f' = next_parser fr"
    by (auto simp: r parser_after_def split: if_splits)
  have n: "n \<le> length (unparsed_buffer f)" by (rule parsers.count_le) fact
  show ?thesis
  proof (cases p)
    case (Parser_Line lp)
    then have "0 < n" using parse r LineParser_parse_Some_pos
      by (fastforce simp: apfst_def map_prod_def split: prod.splits)
    then show ?thesis using n by (auto simp: rank_def f' split: option.splits Parser.splits)
  next
    case (Parser_Literal lp)
    then have "fr = Lit (lit_start lp) (lit_end lp + n)" using parse r LiteralParser_parse_Some
      by (fastforce simp: apfst_def map_prod_def split: prod.splits)
    moreover have "parser f = Some p"
      using p Parser_Literal
      by (auto simp: begun_def start_next_message_def split: if_splits)
    ultimately show ?thesis
      using n Parser_Literal by (auto simp: rank_def f' next_parser_def)
  qed
qed

function drain :: "Fragmentizer \<Rightarrow> ((FragmentInfo \<times> bytes) list \<times> Fragmentizer) option" where
  "drain f =
     (case progress f of
        None \<Rightarrow> None
      | Some (f', None) \<Rightarrow> Some ([], f')
      | Some (f', Some fr) \<Rightarrow>
          (case drain f' of
             None \<Rightarrow> None
           | Some (xs, f'') \<Rightarrow> Some ((fr, fragment_bytes f' fr) # xs, f'')))"
  by pat_completeness auto
termination
  by (relation "measure rank") (auto simp: progress_rank)

declare drain.simps [simp del]

lemma drain_None: "progress f = Some (f', None) \<Longrightarrow> drain f = Some ([], f')"
  by (subst drain.simps) simp

lemma drain_Some:
  "progress f = Some (f', Some fr) \<Longrightarrow> drain f =
     map_option (\<lambda>(xs, f''). ((fr, fragment_bytes f' fr) # xs, f'')) (drain f')"
  by (subst drain.simps) (auto split: option.splits)

lemma enqueue_simps [simp]:
  "unparsed_buffer (enqueue_bytes bs f) = unparsed_buffer f @ bs"
  "parser (enqueue_bytes bs f) = parser f"
  "max_message_size (enqueue_bytes bs f) = max_message_size f"
  "message_buffer (enqueue_bytes bs f) = message_buffer f"
  "fits (enqueue_bytes bs f) = fits f"
  "begun (enqueue_bytes bs f) = enqueue_bytes bs (begun f)"
  "stored cs (enqueue_bytes bs f) = enqueue_bytes bs (stored cs f)"
  "fragment_bytes (enqueue_bytes bs f) = fragment_bytes f"
  by (auto simp: enqueue_bytes_def fits_def begun_def start_next_message_def stored_def
      fragment_bytes_def fun_eq_iff Let_def)

lemma enqueue_advanced:
  "n \<le> length (unparsed_buffer f) \<Longrightarrow>
     advanced n q (enqueue_bytes bs f) = enqueue_bytes bs (advanced n q f)"
  by (simp add: advanced_def enqueue_bytes_def stored_def)

lemma advanced_twice:
  assumes "fits f" "n = length (unparsed_buffer f)"
  shows "advanced m q' (enqueue_bytes bs (advanced n q f)) = advanced (n + m) q' (enqueue_bytes bs f)"
proof -
  have "stored (take m bs) (stored (unparsed_buffer f) f) = stored (unparsed_buffer f @ take m bs) f"
    by (rule stored_append) fact
  then show ?thesis
    by (cases f) (simp add: assms(2) advanced_def enqueue_bytes_def stored_def)
qed

lemma enqueue_append: "enqueue_bytes bs (enqueue_bytes cs f) = enqueue_bytes (cs @ bs) f"
  by (simp add: enqueue_bytes_def)

text \<open>A fragment that was found does not depend on the bytes that follow it.\<close>

lemma progress_settled:
  assumes "progress f = Some (f', Some fr)"
  shows "progress (enqueue_bytes bs f) = Some (enqueue_bytes bs f', Some fr)"
proof -
  obtain p where p: "parser (begun f) = Some p" using begun_simps(1) by blast
  obtain p' n r where parse: "Parser_parse p (unparsed_buffer f) = (p', n, r)"
    by (metis prod_cases3)
  note eq = progress_eq [OF p parse]
  from assms eq have r: "r = Some fr" and fits: "fits (begun f)" by (auto split: if_splits)
  have n: "n \<le> length (unparsed_buffer f)" by (rule parsers.count_le) fact
  have "Parser_parse p (unparsed_buffer (enqueue_bytes bs f)) = (p', n, Some fr)"
    using parsers.settled parse r by simp
  from progress_eq [OF _ this] p fits n assms eq r
  show ?thesis by (auto simp: enqueue_advanced)
qed

text \<open>A call that finds no fragment can be undone by a later call with more bytes.\<close>

lemma progress_resume:
  assumes "progress f = Some (f', None)"
  shows "progress (enqueue_bytes bs f) = progress (enqueue_bytes bs f')"
proof -
  obtain p where p: "parser (begun f) = Some p" using begun_simps(1) by blast
  obtain p' n r where parse: "Parser_parse p (unparsed_buffer f) = (p', n, r)"
    by (metis prod_cases3)
  note eq = progress_eq [OF p parse]
  from assms eq have r: "r = None" and fits: "fits (begun f)" by (auto split: if_splits)
  have n: "n = length (unparsed_buffer f)" using parsers.unfinished parse r by blast
  have f': "f' = advanced n (Some p') (begun f)"
    using assms eq fits r by (simp add: parser_after_def)
  obtain p'' m r' where later: "Parser_parse p' bs = (p'', m, r')" by (metis prod_cases3)
  have whole: "Parser_parse p (unparsed_buffer f @ bs) = (p'', n + m, r')"
    using parsers.resume [of p "unparsed_buffer f" p' n] parse r later by simp
  show ?thesis
    using progress_eq [of "enqueue_bytes bs f'" p' p'' m r'] later
      progress_eq [of "enqueue_bytes bs f" p p'' "n + m" r'] p whole fits n
    by (simp add: f' fits_advanced advanced_twice)
qed

lemma progress_panic: "progress f = None \<Longrightarrow> progress (enqueue_bytes bs f) = None"
proof -
  assume panic: "progress f = None"
  obtain p where p: "parser (begun f) = Some p" using begun_simps(1) by blast
  obtain p' n r where parse: "Parser_parse p (unparsed_buffer f) = (p', n, r)"
    by (metis prod_cases3)
  obtain p'' n' r' where "Parser_parse p (unparsed_buffer f @ bs) = (p'', n', r')"
    by (metis prod_cases3)
  then show ?thesis
    using panic progress_eq [OF p parse] progress_eq [of "enqueue_bytes bs f" p p'' n' r'] p
    by (simp split: if_splits)
qed

lemma drain_enqueue:
  "drain (enqueue_bytes v g) =
     (case drain g of
        None \<Rightarrow> None
      | Some (xs, f') \<Rightarrow> map_option (\<lambda>(ys, f''). (xs @ ys, f'')) (drain (enqueue_bytes v f')))"
proof (induction g rule: drain.induct)
  case (1 g)
  consider "progress g = None" | f' where "progress g = Some (f', None)"
    | f' fr where "progress g = Some (f', Some fr)" by (metis not_None_eq prod.collapse)
  then show ?case
  proof cases
    case 1
    with progress_panic [OF this] show ?thesis by (simp add: drain.simps [of g]
          drain.simps [of "enqueue_bytes v g"])
  next
    case (2 f')
    have "drain (enqueue_bytes v g) = drain (enqueue_bytes v f')"
      using progress_resume [OF 2] by (simp add: drain.simps [of "enqueue_bytes v g"]
          drain.simps [of "enqueue_bytes v f'"])
    then show ?thesis
      by (cases "drain (enqueue_bytes v f')") (auto simp: drain_None [OF 2])
  next
    case (3 f' fr)
    note "1.IH" [OF 3 refl refl]
    then show ?thesis
      unfolding drain_Some [OF 3] drain_Some [OF progress_settled [OF 3]]
      by (auto simp: option.map_comp o_def split_def split: option.splits)
  qed
qed

text \<open>C5: fragmentation does not depend on how the bytes arrive. Enqueuing \<open>u\<close>, draining all
  fragments, then enqueuing \<open>v\<close> and draining again gives the same fragments, the same fragment
  bytes and the same final state as enqueuing \<open>u @ v\<close> at once, in every state.\<close>

theorem drain_chunks:
  "drain (enqueue_bytes (u @ v) f) =
     (case drain (enqueue_bytes u f) of
        None \<Rightarrow> None
      | Some (xs, f') \<Rightarrow> map_option (\<lambda>(ys, f''). (xs @ ys, f'')) (drain (enqueue_bytes v f')))"
  using drain_enqueue [of v "enqueue_bytes u f"] by (simp add: enqueue_append)

text \<open>The client loop over any number of chunks.\<close>

primrec deliver ::
  "bytes list \<Rightarrow> Fragmentizer \<Rightarrow> ((FragmentInfo \<times> bytes) list \<times> Fragmentizer) option" where
  "deliver [] f = Some ([], f)"
| "deliver (u # us) f =
     (case drain (enqueue_bytes u f) of
        None \<Rightarrow> None
      | Some (xs, f') \<Rightarrow> map_option (\<lambda>(ys, f''). (xs @ ys, f'')) (deliver us f'))"

lemma deliver_concat: "us \<noteq> [] \<Longrightarrow> deliver us f = drain (enqueue_bytes (concat us) f)"
proof (induction us arbitrary: f)
  case (Cons u us)
  show ?case
  proof (cases us)
    case Nil
    then show ?thesis by (auto split: option.split)
  next
    case (Cons v vs)
    then have "deliver us g = drain (enqueue_bytes (concat us) g)" for g by (intro Cons.IH) simp
    then show ?thesis
      using drain_enqueue [of "concat us" "enqueue_bytes u f"]
      by (simp add: enqueue_append split: option.splits)
  qed
qed simp

section \<open>Reachable states\<close>

text \<open>
  The abstract protocol: a message is a sequence of lines and literals, every line but the last
  announcing the literal that follows it. \<open>framed fs g e\<close> says that the fragments \<open>fs\<close> tile the
  bytes \<open>g\<close> and that the protocol then expects \<open>e\<close>.
\<close>

datatype Expect = Expect_Line | Expect_Literal u32 | Expect_Nothing

definition is_line :: "bytes \<Rightarrow> LiteralAnnouncement option \<Rightarrow> LineEnding \<Rightarrow> bool" where
  "is_line l announcement ending \<longleftrightarrow> (\<exists>s. l = s @ [lf] \<and> lf \<notin> set s \<and>
     (ending = CrLf \<longleftrightarrow> s \<noteq> [] \<and> last s = cr) \<and>
     (\<forall>a. announcement = Some a \<longleftrightarrow> announces (strip_cr s) a))"

inductive framed :: "FragmentInfo list \<Rightarrow> bytes \<Rightarrow> Expect \<Rightarrow> bool" where
  framed_start: "framed [] [] Expect_Line"
| framed_line: "framed fs g Expect_Line \<Longrightarrow> is_line l announcement ending \<Longrightarrow>
    framed (fs @ [Line (length g) (length g + length l) announcement ending]) (g @ l)
      (case announcement of None \<Rightarrow> Expect_Nothing | Some a \<Rightarrow> Expect_Literal (ann_length a))"
| framed_literal: "framed fs g (Expect_Literal len) \<Longrightarrow> length d = unat len \<Longrightarrow>
    framed (fs @ [Lit (length g) (length g + length d)]) (g @ d) Expect_Line"

text \<open>
  The states that any sequence of calls reaches, with two ghosts: all bytes consumed for the
  current message, stored or not, and the fragments reported for it.
\<close>

inductive reachable :: "Fragmentizer \<Rightarrow> bytes \<Rightarrow> FragmentInfo list \<Rightarrow> bool" where
  reachable_new: "reachable (Fragmentizer_new m) [] []"
| reachable_without_max: "reachable without_max_message_size [] []"
| reachable_enqueue: "reachable f g fs \<Longrightarrow> reachable (enqueue_bytes bs f) g fs"
| reachable_skip: "reachable f g fs \<Longrightarrow> reachable (skip_message f) [] []"
| reachable_poison: "reachable f g fs \<Longrightarrow> reachable (poison_message f) g fs"
| reachable_progress: "reachable f g fs \<Longrightarrow> progress f = Some (f', r) \<Longrightarrow>
    n = length (unparsed_buffer f) - length (unparsed_buffer f') \<Longrightarrow>
    reachable f' ((if parser f = None then [] else g) @ take n (unparsed_buffer f))
      ((if parser f = None then [] else fs) @ (case r of None \<Rightarrow> [] | Some fr \<Rightarrow> [fr]))"

text \<open>The parser of the state refines the expectation of the protocol.\<close>

fun parser_refines :: "Parser option \<Rightarrow> bytes \<Rightarrow> bytes \<Rightarrow> Expect \<Rightarrow> bool" where
  "parser_refines None whole part e \<longleftrightarrow> e = Expect_Nothing \<and> part = []"
| "parser_refines (Some (Parser_Line p)) whole part e \<longleftrightarrow> e = Expect_Line \<and> lf \<notin> set part \<and>
     p = \<lparr>line_start = length whole, line_end = length whole + length part,
          latest_byte = scan Other part\<rparr>"
| "parser_refines (Some (Parser_Literal p)) whole part e \<longleftrightarrow>
     (\<exists>len. e = Expect_Literal len \<and> lit_start p = length whole \<and>
        lit_end p = length whole + length part \<and> unat len = length part + unat (remaining p))"

definition frag_inv :: "Fragmentizer \<Rightarrow> bytes \<Rightarrow> FragmentInfo list \<Rightarrow> bool" where
  "frag_inv f g fs \<longleftrightarrow>
     message_buffer f = truncated (max_message_size f) g \<and>
     (max_message_size_exceeded f \<longleftrightarrow> too_long (max_message_size f) (length g)) \<and>
     (\<exists>whole part e. g = whole @ part \<and> framed fs whole e \<and>
        parser_refines (parser f) whole part e)"

lemma frag_inv_fits: "frag_inv f g fs \<Longrightarrow> fits f"
  by (auto simp: frag_inv_def fits_def truncated_def)

lemma parser_refines_new: "parser_refines (Some (Parser_Line (LineParser_new n))) whole [] e \<longleftrightarrow>
    e = Expect_Line \<and> n = length whole"
  by (auto simp: LineParser_new_def scan_simps)

lemma frag_inv_fresh:
  assumes "message_buffer f = []" "\<not> max_message_size_exceeded f"
    "parser f = Some (Parser_Line (LineParser_new 0))"
  shows "frag_inv f [] []"
proof -
  have "framed [] [] Expect_Line" by (rule framed_start)
  moreover have "parser_refines (parser f) [] [] Expect_Line"
    unfolding assms parser_refines_new by simp
  ultimately show ?thesis
    using assms by (auto simp: frag_inv_def truncated_def too_long_def split: option.splits)
qed

lemma frag_inv_begun:
  "frag_inv f g fs \<Longrightarrow>
     frag_inv (begun f) (if parser f = None then [] else g) (if parser f = None then [] else fs)"
  by (auto simp: begun_def start_next_message_def intro!: frag_inv_fresh)

text \<open>A step of the line parser on a partial line, found or not.\<close>

lemma line_step:
  assumes "lf \<notin> set part" "LineParser_parse \<lparr>line_start = w, line_end = w + length part,
      latest_byte = scan Other part\<rparr> bs = (p', n, r)"
  shows "case r of
      None \<Rightarrow> n = length bs \<and> lf \<notin> set bs \<and> p' = \<lparr>line_start = w,
        line_end = w + length (part @ bs), latest_byte = scan Other (part @ bs)\<rparr>
    | Some fr \<Rightarrow> \<exists>announcement ending. is_line (part @ take n bs) announcement ending \<and>
        fr = Line w (w + length (part @ take n bs)) announcement ending"
proof (cases "lf \<in> set bs")
  case False
  with assms LineParser_parse_partial [OF False] show ?thesis by (auto simp: scan_simps)
next
  case True
  then obtain s rest where bs: "bs = s @ lf # rest" and s: "lf \<notin> set s"
    by (meson split_list_first)
  let ?q = "line_result (scan Other (part @ s))"
  have line: "lf \<notin> set (part @ s)" using s assms(1) by simp
  have "is_line (part @ take (length s + 1) bs) (fst ?q) (snd ?q)"
    unfolding is_line_def
    using line line_result_announcement [OF line] line_result_ending [OF line]
    by (intro exI [of _ "part @ s"]) (simp add: bs)
  moreover have "n = length s + 1" "r = Some (Line w (w + length (part @ take n bs)) (fst ?q) (snd ?q))"
    using assms(2) unfolding bs LineParser_parse_complete [OF s]
    by (auto simp: scan_simps)
  ultimately show ?thesis by auto
qed

lemma literal_step:
  assumes "unat len = length part + unat (remaining p)" "lit_end p = lit_start p + length part"
    "LiteralParser_parse p bs = (p', n, r)"
  shows "case r of
      None \<Rightarrow> n = length bs \<and> lit_start p' = lit_start p \<and>
        lit_end p' = lit_start p + length (part @ bs) \<and>
        unat len = length (part @ bs) + unat (remaining p')
    | Some fr \<Rightarrow> length (part @ take n bs) = unat len \<and>
        fr = Lit (lit_start p) (lit_start p + length (part @ take n bs))"
  using assms by (auto simp: LiteralParser_parse_def Let_def unat_remaining split: if_splits)

lemma truncated_again:
  "truncated limit (truncated limit g @ bs) = truncated limit (g @ bs)"
  by (cases limit) (auto simp: truncated_def min_def)

lemma too_long_again:
  "too_long limit (length g) \<or> too_long limit (length (truncated limit g) + n) \<longleftrightarrow>
     too_long limit (length g + n)"
  by (cases limit) (auto simp: truncated_def too_long_def)

lemma parser_step:
  assumes framed: "framed fs whole e" and refines: "parser_refines (Some p) whole part e"
    and parse: "Parser_parse p bs = (p', n, r)"
  shows "\<exists>whole' part' e'. whole @ part @ take n bs = whole' @ part' \<and>
      framed (fs @ (case r of None \<Rightarrow> [] | Some fr \<Rightarrow> [fr])) whole' e' \<and>
      parser_refines (parser_after p' r) whole' part' e'"
proof (cases p)
  case (Parser_Line lp)
  with refines have e: "e = Expect_Line" and part: "lf \<notin> set part"
    and lp: "lp = \<lparr>line_start = length whole, line_end = length whole + length part,
        latest_byte = scan Other part\<rparr>" by simp_all
  from parse Parser_Line obtain lp' where p': "p' = Parser_Line lp'"
    and lparse: "LineParser_parse lp bs = (lp', n, r)"
    by (auto simp: apfst_def map_prod_def split: prod.splits)
  note step = line_step [OF part, where w = "length whole", folded lp, OF lparse]
  show ?thesis
  proof (cases r)
    case None
    with step framed part e show ?thesis
      by (intro exI [of _ whole] exI [of _ "part @ bs"] exI [of _ Expect_Line])
         (simp add: p' parser_after_def)
  next
    case (Some fr)
    with step obtain a d where l: "is_line (part @ take n bs) a d"
      and fr: "fr = Line (length whole) (length whole + length (part @ take n bs)) a d" by auto
    show ?thesis
      using framed_line [OF framed [unfolded e] l]
      by (intro exI [of _ "whole @ part @ take n bs"] exI [of _ "[]"]
          exI [of _ "case a of None \<Rightarrow> Expect_Nothing | Some a \<Rightarrow> Expect_Literal (ann_length a)"])
         (auto simp: Some fr parser_after_def next_parser_def LiteralParser_new_def
           split: option.splits)
  qed
next
  case (Parser_Literal lp)
  with refines obtain len where e: "e = Expect_Literal len"
    and lp: "lit_start lp = length whole" "lit_end lp = lit_start lp + length part"
    and len: "unat len = length part + unat (remaining lp)" by auto
  from parse Parser_Literal obtain lp' where p': "p' = Parser_Literal lp'"
    and lparse: "LiteralParser_parse lp bs = (lp', n, r)"
    by (auto simp: apfst_def map_prod_def split: prod.splits)
  note step = literal_step [OF len lp(2) lparse]
  show ?thesis
  proof (cases r)
    case None
    with step framed e lp show ?thesis
      by (intro exI [of _ whole] exI [of _ "part @ bs"] exI [of _ e])
         (simp add: p' parser_after_def)
  next
    case (Some fr)
    with step lp have l: "length (part @ take n bs) = unat len"
      and fr: "fr = Lit (length whole) (length whole + length (part @ take n bs))" by auto
    show ?thesis
      using framed_literal [OF framed [unfolded e] l]
      by (intro exI [of _ "whole @ part @ take n bs"] exI [of _ "[]"] exI [of _ Expect_Line])
         (simp add: Some fr parser_after_def next_parser_def LineParser_new_def scan_simps)
  qed
qed

lemma frag_inv_progress:
  assumes inv: "frag_inv f g fs" and step: "progress f = Some (f', r)"
  shows "frag_inv f' ((if parser f = None then [] else g) @
      take (length (unparsed_buffer f) - length (unparsed_buffer f')) (unparsed_buffer f))
    ((if parser f = None then [] else fs) @ (case r of None \<Rightarrow> [] | Some fr \<Rightarrow> [fr]))"
proof -
  let ?g = "if parser f = None then [] else g" and ?fs = "if parser f = None then [] else fs"
  obtain p where p: "parser (begun f) = Some p" using begun_simps(1) by blast
  obtain p' n r' where parse: "Parser_parse p (unparsed_buffer f) = (p', n, r')"
    by (metis prod_cases3)
  note eq = progress_eq [OF p parse]
  with step have r: "r' = r" and f': "f' = advanced n (parser_after p' r) (begun f)"
    by (auto split: if_splits)
  have n: "n \<le> length (unparsed_buffer f)" by (rule parsers.count_le) fact
  have begun: "frag_inv (begun f) ?g ?fs" by (rule frag_inv_begun) fact
  then obtain whole part e where g: "?g = whole @ part" and framed: "framed ?fs whole e"
    and refines: "parser_refines (Some p) whole part e"
    unfolding frag_inv_def p by blast
  let ?g' = "?g @ take n (unparsed_buffer f)"
    and ?fs' = "?fs @ (case r of None \<Rightarrow> [] | Some fr \<Rightarrow> [fr])"
  from parser_step [OF framed refines parse] obtain whole' part' e' where
    g': "?g' = whole' @ part'" and fs': "framed ?fs' whole' e'"
    and refines': "parser_refines (parser_after p' r) whole' part' e'"
    unfolding g r by auto
  have count: "length (unparsed_buffer f) - length (unparsed_buffer f') = n"
    using n by (simp add: f')
  have stored: "message_buffer f' = truncated (max_message_size f') ?g'"
    "max_message_size_exceeded f' \<longleftrightarrow> too_long (max_message_size f') (length ?g')"
    using begun n unfolding frag_inv_def f' by (simp_all add: truncated_again too_long_again)
  have refines'': "parser_refines (parser f') whole' part' e'" using refines' by (simp add: f')
  show ?thesis
    unfolding frag_inv_def count
    using stored g' fs' refines'' by blast
qed

lemma reachable_inv: "reachable f g fs \<Longrightarrow> frag_inv f g fs"
proof (induction rule: reachable.induct)
  case (reachable_new m)
  show ?case by (rule frag_inv_fresh) (simp_all add: Fragmentizer_new_def)
next
  case reachable_without_max
  show ?case by (rule frag_inv_fresh) (simp_all add: without_max_message_size_def)
next
  case (reachable_enqueue f g fs bs)
  then show ?case by (simp add: frag_inv_def enqueue_bytes_def)
next
  case (reachable_skip f g fs)
  show ?case by (rule frag_inv_fresh) (simp_all add: skip_message_def)
next
  case (reachable_poison f g fs)
  then show ?case by (simp add: frag_inv_def poison_message_def)
next
  case (reachable_progress f g fs f' r n)
  then show ?case using frag_inv_progress by blast
qed

section \<open>What holds in every reachable state\<close>

lemma progress_total:
  assumes "frag_inv f g fs"
  shows "\<exists>f' r. progress f = Some (f', r)"
proof -
  obtain p where p: "parser (begun f) = Some p" using begun_simps(1) by blast
  obtain p' n r where parse: "Parser_parse p (unparsed_buffer f) = (p', n, r)"
    by (metis prod_cases3)
  from frag_inv_fits [OF assms] have "fits (begun f)" by simp
  with progress_eq [OF p parse] show ?thesis by simp
qed

lemma progress_None_empty:
  assumes "progress f = Some (f', None)"
  shows "unparsed_buffer f' = [] \<and> parser f' \<noteq> None"
proof -
  obtain p where p: "parser (begun f) = Some p" using begun_simps(1) by blast
  obtain p' n r where parse: "Parser_parse p (unparsed_buffer f) = (p', n, r)"
    by (metis prod_cases3)
  from assms progress_eq [OF p parse] have r: "r = None"
    and f': "f' = advanced n (parser_after p' None) (begun f)" by (auto split: if_splits)
  have "n = length (unparsed_buffer f)" using parsers.unfinished parse r by blast
  then show ?thesis by (simp add: f' parser_after_def)
qed

lemma drain_total:
  "frag_inv f g fs \<Longrightarrow> \<exists>xs f'. drain f = Some (xs, f') \<and> unparsed_buffer f' = []"
proof (induction f arbitrary: g fs rule: drain.induct)
  case (1 f)
  from progress_total [OF "1.prems"] obtain f' r where step: "progress f = Some (f', r)" by blast
  show ?case
  proof (cases r)
    case None
    with step show ?thesis using drain_None progress_None_empty by blast
  next
    case (Some fr)
    with "1.IH" step frag_inv_progress [OF "1.prems" step] obtain xs f'' where
      "drain f' = Some (xs, f'')" "unparsed_buffer f'' = []" by blast
    with drain_Some step Some show ?thesis by fastforce
  qed
qed

text \<open>C8: no sequence of calls makes the fragmentizer panic: in every reachable state \<open>progress\<close>
  returns, and draining the buffer terminates with all bytes consumed.\<close>

theorem progress_never_panics:
  assumes "reachable f g fs"
  shows "progress f \<noteq> None \<and> (\<exists>xs f'. drain f = Some (xs, f') \<and> unparsed_buffer f' = [])"
  using progress_total drain_total reachable_inv [OF assms] by fastforce

text \<open>C9: the memory limit. The message buffer holds exactly the first \<open>max_message_size\<close> bytes
  consumed for the current message, and \<open>is_max_message_size_exceeded\<close> holds if and only if
  bytes were dropped.\<close>

theorem message_size_limit:
  assumes "reachable f g fs"
  shows "message_bytes f = (case max_message_size f of None \<Rightarrow> g | Some m \<Rightarrow> take (unat m) g) \<and>
    (max_message_size_exceeded f \<longleftrightarrow> message_bytes f \<noteq> g)"
proof -
  from reachable_inv [OF assms] have "message_buffer f = truncated (max_message_size f) g"
    "max_message_size_exceeded f \<longleftrightarrow> too_long (max_message_size f) (length g)"
    by (simp_all add: frag_inv_def)
  then show ?thesis
    by (auto simp: message_bytes_def truncated_def too_long_def not_less split: option.splits)
qed

lemma framed_ends: "framed fs g e \<Longrightarrow> fr \<in> set fs \<Longrightarrow> frag_start fr \<le> frag_end fr \<and> frag_end fr \<le> length g"
  by (induction rule: framed.induct) fastforce+

lemma slice_of_take:
  "take (min (length g + length l) (min M (length (g @ l @ x))) - min (length g) (min M (length (g @ l @ x))))
     (drop (min (length g) (min M (length (g @ l @ x)))) (take M (g @ l @ x))) = take (M - length g) l"
proof (cases "M \<le> length g")
  case True
  then show ?thesis by (simp add: min_def)
next
  case False
  then have "drop (length g) (take M (g @ l @ x)) = take (M - length g) (l @ x)" by simp
  moreover have "min (length g) (min M (length (g @ l @ x))) = length g" using False by simp
  moreover have "min (length g + length l) (min M (length (g @ l @ x))) - length g =
      min (length l) (M - length g)" using False by auto
  ultimately show ?thesis by (simp add: min_def)
qed

lemma fragment_bytes_eq:
  "fragment_bytes f fr =
     take (min (frag_end fr) (length (message_buffer f)) - min (frag_start fr) (length (message_buffer f)))
       (drop (min (frag_start fr) (length (message_buffer f))) (message_buffer f))"
  by (cases fr) (simp_all add: fragment_bytes_def Let_def)

lemma fragment_bytes_slice:
  assumes "message_buffer f = truncated lim (g @ l @ x)"
    "frag_start fr = length g" "frag_end fr = length g + length l"
  shows "truncated lim g @ fragment_bytes f fr = truncated lim (g @ l)"
proof -
  define M where "M = (case lim of None \<Rightarrow> length (g @ l @ x) | Some m \<Rightarrow> unat m)"
  have lim: "truncated lim g = take M g" "truncated lim (g @ l) = take M (g @ l)"
    and buf: "message_buffer f = take M (g @ l @ x)"
    using assms(1) by (auto simp: truncated_def M_def split: option.splits)
  have "fragment_bytes f fr = take (M - length g) l"
    using slice_of_take [of g l M x]
    by (simp only: fragment_bytes_eq assms(2,3) buf length_take min.commute [of _ M])
  then show ?thesis by (simp add: lim)
qed

lemma framed_bytes:
  "framed fs g e \<Longrightarrow> message_buffer f = truncated lim (g @ x) \<Longrightarrow>
     concat (map (fragment_bytes f) fs) = truncated lim g"
proof (induction arbitrary: x rule: framed.induct)
  case framed_start
  then show ?case by (simp add: truncated_def split: option.splits)
next
  case (framed_line fs g l announcement ending)
  then show ?case by (simp add: fragment_bytes_slice)
next
  case (framed_literal fs g len d)
  then show ?case by (simp add: fragment_bytes_slice)
qed

text \<open>C10: the fragments reported for a message tile it. The message is a sequence of lines, each
  ending with its only LF, and literals; a line announces a literal if and only if a literal of
  exactly that length follows; the message is complete after the first line without an
  announcement; and the bytes of the fragments, concatenated, are the stored message.\<close>

theorem fragments_tile_message:
  assumes "reachable f g fs" "is_message_complete f"
  shows "framed fs g Expect_Nothing \<and> concat (map (fragment_bytes f) fs) = message_bytes f"
proof -
  from reachable_inv [OF assms(1)] assms(2) have framed: "framed fs g Expect_Nothing"
    and buf: "message_buffer f = truncated (max_message_size f) g"
    by (auto simp: frag_inv_def is_message_complete_def)
  with framed_bytes [of fs g Expect_Nothing f _ "[]"] show ?thesis
    by (simp add: message_bytes_def)
qed

section \<open>Reading back a framed stream\<close>

definition awaiting :: "Expect \<Rightarrow> bytes \<Rightarrow> bytes \<Rightarrow> Fragmentizer" where
  "awaiting e g rest =
     without_max_message_size\<lparr>unparsed_buffer := rest, message_buffer := g,
       parser := (case e of
           Expect_Line \<Rightarrow> Some (Parser_Line (LineParser_new (length g)))
         | Expect_Literal len \<Rightarrow> Some (Parser_Literal (LiteralParser_new (length g) len))
         | Expect_Nothing \<Rightarrow> None)\<rparr>"

definition frag_slice :: "bytes \<Rightarrow> FragmentInfo \<Rightarrow> bytes" where
  "frag_slice g fr = take (frag_end fr - frag_start fr) (drop (frag_start fr) g)"

lemma awaiting_simps [simp]:
  "unparsed_buffer (awaiting e g rest) = rest"
  "message_buffer (awaiting e g rest) = g"
  "max_message_size (awaiting e g rest) = None"
  "fits (awaiting e g rest)"
  by (simp_all add: awaiting_def without_max_message_size_def fits_def)

lemma advanced_awaiting:
  assumes "q = (case e' of
      Expect_Line \<Rightarrow> Some (Parser_Line (LineParser_new (length (g @ l))))
    | Expect_Literal len \<Rightarrow> Some (Parser_Literal (LiteralParser_new (length (g @ l)) len))
    | Expect_Nothing \<Rightarrow> None)"
  shows "advanced (length l) q (awaiting e g (l @ rest)) = awaiting e' (g @ l) rest"
  by (simp add: assms advanced_def awaiting_def stored_def truncated_def too_long_def
      without_max_message_size_def)

lemma progress_line:
  assumes "is_line l a d"
  shows "progress (awaiting Expect_Line g (l @ rest)) =
    Some (awaiting (case a of None \<Rightarrow> Expect_Nothing | Some x \<Rightarrow> Expect_Literal (ann_length x))
        (g @ l) rest, Some (Line (length g) (length g + length l) a d))"
proof -
  from assms obtain s where l: "l = s @ [lf]" and s: "lf \<notin> set s"
    and ending: "d = CrLf \<longleftrightarrow> s \<noteq> [] \<and> last s = cr"
    and ann: "\<And>x. a = Some x \<longleftrightarrow> announces (strip_cr s) x"
    by (auto simp: is_line_def)
  let ?r = "line_result (scan Other s)"
  have "fst ?r = Some x \<longleftrightarrow> a = Some x" for x
    using line_result_announcement [OF s] ann by simp
  then have "fst ?r = a" by (metis not_None_eq)
  moreover have "snd ?r = d"
    using line_result_ending [OF s] ending by (cases d; cases "snd ?r") auto
  ultimately obtain p' where parse: "Parser_parse (Parser_Line (LineParser_new (length g))) (l @ rest) =
      (p', length l, Some (Line (length g) (length g + length l) a d))"
    using LineParser_parse_complete [OF s, of "LineParser_new (length g)" rest]
    by (simp add: l LineParser_new_def)
  have p: "begun (awaiting Expect_Line g (l @ rest)) = awaiting Expect_Line g (l @ rest)"
    "parser (awaiting Expect_Line g (l @ rest)) = Some (Parser_Line (LineParser_new (length g)))"
    by (simp_all add: awaiting_def)
  have "parser_after p' (Some (Line (length g) (length g + length l) a d)) =
      (case (case a of None \<Rightarrow> Expect_Nothing | Some x \<Rightarrow> Expect_Literal (ann_length x)) of
        Expect_Line \<Rightarrow> Some (Parser_Line (LineParser_new (length (g @ l))))
      | Expect_Literal len \<Rightarrow> Some (Parser_Literal (LiteralParser_new (length (g @ l)) len))
      | Expect_Nothing \<Rightarrow> None)"
    by (simp add: parser_after_def next_parser_def split: option.splits)
  note adv = advanced_awaiting [OF this]
  show ?thesis
    using progress_eq [of "awaiting Expect_Line g (l @ rest)"] parse
    by (simp add: p adv)
qed

lemma progress_literal:
  assumes "length d = unat len"
  shows "progress (awaiting (Expect_Literal len) g (d @ rest)) =
    Some (awaiting Expect_Line (g @ d) rest, Some (Lit (length g) (length g + length d)))"
proof -
  let ?f = "awaiting (Expect_Literal len) g (d @ rest)"
  obtain p' where parse: "Parser_parse (Parser_Literal (LiteralParser_new (length g) len)) (d @ rest) =
      (p', length d, Some (Lit (length g) (length g + length d)))"
    using assms by (simp add: LiteralParser_parse_def LiteralParser_new_def Let_def)
  have p: "begun ?f = ?f"
    "parser ?f = Some (Parser_Literal (LiteralParser_new (length g) len))"
    by (simp_all add: awaiting_def)
  have "parser_after p' (Some (Lit (length g) (length g + length d))) =
      (case Expect_Line of
        Expect_Line \<Rightarrow> Some (Parser_Line (LineParser_new (length (g @ d))))
      | Expect_Literal len \<Rightarrow> Some (Parser_Literal (LiteralParser_new (length (g @ d)) len))
      | Expect_Nothing \<Rightarrow> None)"
    by (simp add: parser_after_def next_parser_def)
  note adv = advanced_awaiting [OF this]
  show ?thesis
    using progress_eq [of ?f] parse by (simp add: p adv)
qed

lemma fragment_bytes_awaiting:
  "frag_start fr = length g \<Longrightarrow> frag_end fr = length g + length l \<Longrightarrow>
     fragment_bytes (awaiting e (g @ l) rest) fr = l"
  by (simp add: fragment_bytes_eq)

lemma frag_slice_append:
  "frag_start fr \<le> frag_end fr \<Longrightarrow> frag_end fr \<le> length g \<Longrightarrow> frag_slice (g @ l) fr = frag_slice g fr"
  by (simp add: frag_slice_def)

lemma frag_slice_last:
  "frag_start fr = length g \<Longrightarrow> frag_end fr = length g + length l \<Longrightarrow> frag_slice (g @ l) fr = l"
  by (simp add: frag_slice_def)

definition sliced :: "bytes \<Rightarrow> FragmentInfo list \<Rightarrow> (FragmentInfo \<times> bytes) list" where
  "sliced g fs = map (\<lambda>fr. (fr, frag_slice g fr)) fs"

lemma sliced_snoc:
  assumes "framed fs g e" "frag_start fr = length g" "frag_end fr = length g + length l"
  shows "sliced (g @ l) (fs @ [fr]) = sliced g fs @ [(fr, l)]"
  using framed_ends [OF assms(1)]
  by (auto simp: sliced_def frag_slice_append frag_slice_last [OF assms(2,3)])

lemma drain_framed:
  "framed fs g e \<Longrightarrow> drain (awaiting Expect_Line [] (g @ rest)) =
     map_option (\<lambda>(ys, f'). (sliced g fs @ ys, f')) (drain (awaiting e g rest))"
proof (induction arbitrary: rest rule: framed.induct)
  case framed_start
  then show ?case by (simp add: sliced_def option.map_ident case_prod_unfold)
next
  case (framed_line fs g l a d)
  note progress = progress_line [OF framed_line.hyps(2), of g rest]
  show ?case
    using framed_line.IH [of "l @ rest"]
    by (simp add: drain_Some [OF progress] sliced_snoc [OF framed_line.hyps(1)]
        fragment_bytes_awaiting option.map_comp o_def case_prod_unfold)
next
  case (framed_literal fs g len d)
  note progress = progress_literal [OF framed_literal.hyps(2), of g rest]
  show ?case
    using framed_literal.IH [of "d @ rest"]
    by (simp add: drain_Some [OF progress] sliced_snoc [OF framed_literal.hyps(1)]
        fragment_bytes_awaiting option.map_comp o_def case_prod_unfold)
qed

lemma begun_Nothing: "begun (awaiting Expect_Nothing g rest) = awaiting Expect_Line [] rest"
  by (simp add: begun_def awaiting_def start_next_message_def without_max_message_size_def)

lemma progress_begun: "progress (begun f) = progress f"
  by (auto simp: begun_def progress_def start_next_message_def Let_def split: option.splits)

lemma drain_Nothing:
  "drain (awaiting Expect_Nothing g rest) = drain (awaiting Expect_Line [] rest)"
  using progress_begun [of "awaiting Expect_Nothing g rest"]
  by (simp add: begun_Nothing drain.simps)

lemma drain_empty: "drain (awaiting Expect_Line [] []) = Some ([], awaiting Expect_Line [] [])"
proof -
  have "progress (awaiting Expect_Line [] []) = Some (awaiting Expect_Line [] [], None)"
    by (simp add: progress_def awaiting_def dequeue_parsed_bytes_def without_max_message_size_def)
  then show ?thesis by (rule drain_None)
qed

lemma without_max_awaiting: "without_max_message_size = awaiting Expect_Line [] []"
  by (simp add: awaiting_def without_max_message_size_def)

lemma enqueue_awaiting: "enqueue_bytes bs (awaiting e g rest) = awaiting e g (rest @ bs)"
  by (simp add: enqueue_bytes_def awaiting_def without_max_message_size_def)

text \<open>One framed message at the head of the stream, between two messages.\<close>

lemma drain_message:
  assumes "framed fs g Expect_Nothing"
  shows "drain (enqueue_bytes (g @ rest) without_max_message_size) =
    map_option (\<lambda>(ys, f'). (sliced g fs @ ys, f')) (drain (enqueue_bytes rest without_max_message_size))"
  using drain_framed [OF assms, of rest]
  by (simp add: without_max_awaiting enqueue_awaiting drain_Nothing)

lemma drain_nothing:
  "drain (enqueue_bytes [] without_max_message_size) = Some ([], without_max_message_size)"
  by (simp add: without_max_awaiting enqueue_awaiting drain_empty)

text \<open>C4: the other direction, for any number of pipelined messages. A stream that is the
  concatenation of framed messages is read back by the client loop as exactly those fragments with
  exactly their bytes, message after message, and ends between two messages with nothing left.\<close>

theorem drain_stream:
  assumes "list_all2 (\<lambda>fs g. framed fs g Expect_Nothing) fss gs"
  shows "drain (enqueue_bytes (concat gs) without_max_message_size) =
    Some (concat (map2 (\<lambda>g fs. map (\<lambda>fr. (fr, frag_slice g fr)) fs) gs fss),
          without_max_message_size)"
  using assms
proof (induction rule: list_all2_induct)
  case (Cons fs fss g gs)
  then show ?case
    using drain_message [OF Cons.hyps(1), of "concat gs"] by (simp add: sliced_def)
qed (simp add: drain_nothing)

section \<open>Tags and decoding\<close>

lemma parse_tag_loop_prefix:
  "sp \<notin> set p \<Longrightarrow> lf \<notin> set p \<Longrightarrow> parse_tag_loop i (p @ sp # rest) = Some (i + length p)"
  by (induction p arbitrary: i) auto

lemma parse_tag_loop_Some:
  "parse_tag_loop i bs = Some j \<Longrightarrow>
     \<exists>p rest. bs = p @ sp # rest \<and> sp \<notin> set p \<and> lf \<notin> set p \<and> j = i + length p"
proof (induction bs arbitrary: i)
  case (Cons b bs)
  show ?case
  proof (cases "b = sp")
    case True
    with Cons.prems show ?thesis by (auto intro: exI [of _ "[]"])
  next
    case False
    with Cons.prems have lf: "b \<noteq> lf" and "parse_tag_loop (i + 1) bs = Some j"
      by (simp_all split: if_splits)
    with Cons.IH obtain p rest where "bs = p @ sp # rest" "sp \<notin> set p" "lf \<notin> set p"
      "j = i + 1 + length p" by blast
    with False lf show ?thesis by (auto intro: exI [of _ "b # p"])
  qed
qed simp

lemma tag_char_bland:
  assumes "is_tag_char c"
  shows "c \<noteq> sp \<and> c \<noteq> lf"
proof -
  have "is_astring_char c" using assms by (simp add: is_tag_char_def)
  moreover have "\<not> is_astring_char sp"
    by (simp add: is_astring_char_def is_atom_char_def is_atom_specials_iff is_resp_specials_def)
  ultimately show ?thesis using astring_char_range [of c] by auto
qed

lemma parse_tag_valid:
  assumes "wf_tag t"
  shows "parse_tag (tag_inner t @ sp # rest) = Some t"
proof -
  have "sp \<notin> set (tag_inner t)" "lf \<notin> set (tag_inner t)"
    using assms by (auto simp: valid_defs list_all_iff dest: tag_char_bland)
  then show ?thesis
    using assms by (simp add: parse_tag_def parse_tag_loop_prefix tag.try_from_ok)
qed

text \<open>\<open>decode_tag\<close> finds a tag if and only if the message buffer starts with a valid tag
  followed by a space; it then returns exactly that tag. It never looks past the first line.\<close>

theorem decode_tag_spec:
  "decode_tag f = Some t \<longleftrightarrow> wf_tag t \<and> (\<exists>rest. message_bytes f = tag_inner t @ sp # rest)"
proof
  assume "decode_tag f = Some t"
  then obtain at where at: "parse_tag_loop 0 (message_buffer f) = Some at"
    and t: "Tag_try_from (take at (message_buffer f)) = Inr t"
    by (auto simp: decode_tag_def parse_tag_def split: option.splits sum.splits)
  from at obtain p rest where "message_buffer f = p @ sp # rest" "at = length p"
    by (auto dest!: parse_tag_loop_Some)
  with t show "wf_tag t \<and> (\<exists>rest. message_bytes f = tag_inner t @ sp # rest)"
    using tag.try_from_inner by (force simp: message_bytes_def)
next
  assume "wf_tag t \<and> (\<exists>rest. message_bytes f = tag_inner t @ sp # rest)"
  then show "decode_tag f = Some t"
    by (auto simp: decode_tag_def message_bytes_def parse_tag_valid)
qed


section \<open>Concrete runs\<close>

text \<open>The line \<open>a b\<close> with CRLF under a limit of three bytes.\<close>

lemma demo_progress:
  "progress (enqueue_bytes (''a b'' @ crlf) (Fragmentizer_new 3)) = Some
     (\<lparr>unparsed_buffer = [], max_message_size = Some 3, max_message_size_exceeded = True,
        message_poisoned = False, message_buffer = ''a b'', parser = None\<rparr>,
      Some (Line 0 5 None CrLf))"
  by code_simp

lemma demo_reachable:
  "reachable \<lparr>unparsed_buffer = [], max_message_size = Some 3, max_message_size_exceeded = True,
       message_poisoned = False, message_buffer = ''a b'', parser = None\<rparr>
     (''a b'' @ crlf) [Line 0 5 None CrLf]"
  using reachable_progress [OF reachable_enqueue [OF reachable_new] demo_progress refl]
  by (simp add: enqueue_bytes_def Fragmentizer_new_def)

lemma progress_never_panics_witness:
  "progress \<lparr>unparsed_buffer = [], max_message_size = Some 3, max_message_size_exceeded = True,
       message_poisoned = False, message_buffer = ''a b'', parser = None\<rparr> \<noteq> None"
  using progress_never_panics [OF demo_reachable] by blast

lemma message_size_limit_witness:
  "message_bytes \<lparr>unparsed_buffer = [], max_message_size = Some 3, max_message_size_exceeded = True,
       message_poisoned = False, message_buffer = ''a b'', parser = None\<rparr> = take 3 (''a b'' @ crlf)"
  using message_size_limit [OF demo_reachable] by simp

lemma fragments_tile_message_witness:
  "framed [Line 0 5 None CrLf] (''a b'' @ crlf) Expect_Nothing"
  using fragments_tile_message [OF demo_reachable] by (simp add: is_message_complete_def)


text \<open>A line that announces a literal, the literal, and the line that ends the message.\<close>

lemma demo_announces:
  "announces ''a {2}'' x \<longleftrightarrow> x = \<lparr>ann_mode = Sync, ann_length = 2\<rparr>"
proof -
  have "u32_digits ''2'' 2"
    using dec_value_snoc [of "[]" "CHR ''2''"]
    by (simp add: u32_digits_def digits_def is_digit_def digit_val_def)
  then have "announces ''a {2}'' \<lparr>ann_mode = Sync, ann_length = 2\<rparr>"
    unfolding announces_def by (intro exI [of _ "''a ''"] exI [of _ "''2''"]) simp
  then show ?thesis using announces_unique by blast
qed

lemma demo_framed:
  "framed [Line 0 7 (Some \<lparr>ann_mode = Sync, ann_length = 2\<rparr>) CrLf, Lit 7 9, Line 9 10 None Lf]
     (''a {2}'' @ crlf @ ''xy'' @ [lf]) Expect_Nothing"
proof -
  have "is_line (''a {2}'' @ crlf) (Some \<lparr>ann_mode = Sync, ann_length = 2\<rparr>) CrLf"
    unfolding is_line_def
    by (intro exI [of _ "''a {2}'' @ [cr]"]) (auto simp: strip_cr_def demo_announces)
  from framed_line [OF framed_start this]
  have line: "framed [Line 0 7 (Some \<lparr>ann_mode = Sync, ann_length = 2\<rparr>) CrLf] (''a {2}'' @ crlf)
      (Expect_Literal 2)" by (simp add: eval_nat_numeral)
  have "length ''xy'' = unat (2 :: u32)" by simp
  from framed_literal [OF line this]
  have lit: "framed [Line 0 7 (Some \<lparr>ann_mode = Sync, ann_length = 2\<rparr>) CrLf, Lit 7 9]
      (''a {2}'' @ crlf @ ''xy'') Expect_Line" by (simp add: eval_nat_numeral)
  have "is_line [lf] None Lf"
    by (auto simp: is_line_def strip_cr_def announces_def)
  from framed_line [OF lit this] show ?thesis by (simp add: eval_nat_numeral)
qed

lemma drain_stream_witness:
  "drain (enqueue_bytes (''a {2}'' @ crlf @ ''xy'' @ [lf]) without_max_message_size) =
    Some ([(Line 0 7 (Some \<lparr>ann_mode = Sync, ann_length = 2\<rparr>) CrLf, ''a {2}'' @ crlf),
           (Lit 7 9, ''xy''), (Line 9 10 None Lf, [lf])], without_max_message_size)"
proof -
  have "list_all2 (\<lambda>fs g. framed fs g Expect_Nothing)
      [[Line 0 7 (Some \<lparr>ann_mode = Sync, ann_length = 2\<rparr>) CrLf, Lit 7 9, Line 9 10 None Lf]]
      [''a {2}'' @ crlf @ ''xy'' @ [lf]]"
    using demo_framed by simp
  from drain_stream [OF this] show ?thesis by (simp add: frag_slice_def)
qed

end
