(* ===== verification/Imap_Sequence.thy ===== *)
theory Imap_Sequence
  imports Imap_Core "HOL-Library.Multiset"
begin

text \<open>
  \<open>imap-types/src/sequence.rs\<close>: sequence sets, their normalization, ordering, parsing from strings
  and numbers, and their expansion to message numbers. A \<open>NonZeroU32\<close> is a \<open>u32\<close> that the
  well-formedness predicates keep different from 0; an \<open>unwrap\<close> that fails is \<open>None\<close>.

  A \<open>HashSet\<close> is a list without duplicates and its iteration order is the argument
  \<open>hash_order\<close>, of which only the documented fact is used that an iteration visits every element
  exactly once, in some order (\<open>visits_all\<close>).
\<close>

section \<open>Data\<close>

datatype SeqOrUid = Value u32 | Asterisk

datatype Sequence = Single SeqOrUid | Range SeqOrUid SeqOrUid

datatype SequenceSet = SequenceSet (sequences: "Sequence VecN")

definition U32_MAX :: u32 where
  "U32_MAX = - 1"

definition to_non_zero_u32 :: "SeqOrUid \<Rightarrow> u32" where
  "to_non_zero_u32 s = (case s of Value n \<Rightarrow> n | Asterisk \<Rightarrow> U32_MAX)"

definition SeqOrUid_from :: "u32 \<Rightarrow> SeqOrUid" where
  "SeqOrUid_from value = (if value = U32_MAX then Asterisk else Value value)"

text \<open>\<open>Ord for SeqOrUid\<close>: the asterisk is above every number.\<close>

instantiation SeqOrUid :: linorder
begin

fun less_eq_SeqOrUid :: "SeqOrUid \<Rightarrow> SeqOrUid \<Rightarrow> bool" where
  "less_eq_SeqOrUid (Value a) (Value b) = (a \<le> b)"
| "less_eq_SeqOrUid Asterisk Asterisk = True"
| "less_eq_SeqOrUid (Value a) Asterisk = True"
| "less_eq_SeqOrUid Asterisk (Value b) = False"

definition less_SeqOrUid :: "SeqOrUid \<Rightarrow> SeqOrUid \<Rightarrow> bool" where
  "less_SeqOrUid a b \<longleftrightarrow> a \<le> b \<and> \<not> b \<le> a"

instance
proof
  fix a b c :: SeqOrUid
  show "a < b \<longleftrightarrow> a \<le> b \<and> \<not> b \<le> a" by (rule less_SeqOrUid_def)
  show "a \<le> a" by (cases a) simp_all
  show "a \<le> b \<Longrightarrow> b \<le> c \<Longrightarrow> a \<le> c" by (cases a; cases b; cases c) simp_all
  show "a \<le> b \<Longrightarrow> b \<le> a \<Longrightarrow> a = b" by (cases a; cases b) simp_all
  show "a \<le> b \<or> b \<le> a" by (cases a; cases b) auto
qed

end

section \<open>Sequences\<close>

definition Sequence_normalize :: "Sequence \<Rightarrow> Sequence" where
  "Sequence_normalize s =
     (case s of
        Range a b \<Rightarrow> if a = b then Single a else if a > b then Range b a else Range a b
      | _ \<Rightarrow> s)"

datatype Ordering = Less | Equal | Greater

definition SeqOrUid_cmp :: "SeqOrUid \<Rightarrow> SeqOrUid \<Rightarrow> Ordering" where
  "SeqOrUid_cmp a b =
     (case (a, b) of
        (Value a, Value b) \<Rightarrow> if a < b then Less else if a = b then Equal else Greater
      | (Asterisk, Asterisk) \<Rightarrow> Equal
      | (_, Asterisk) \<Rightarrow> Less
      | (Asterisk, _) \<Rightarrow> Greater)"

fun Sequence_partial_cmp :: "Sequence \<Rightarrow> Sequence \<Rightarrow> Ordering option" where
  "Sequence_partial_cmp (Single a) (Single b) = Some (SeqOrUid_cmp a b)"
| "Sequence_partial_cmp (Single a) (Range b1 b2) =
     (if a < min b1 b2 then Some Less else if a > max b1 b2 then Some Greater else None)"
| "Sequence_partial_cmp (Range a1 a2) (Single b) =
     (if b < min a1 a2 then Some Greater else if b > max a1 a2 then Some Less else None)"
| "Sequence_partial_cmp (Range a1 a2) (Range b1 b2) =
     (if max a1 a2 < b1 \<and> max a1 a2 < b2 then Some Less
      else if min a1 a2 > b1 \<and> min a1 a2 > b2 then Some Greater else None)"

text \<open>The smallest and the greatest end of a sequence.\<close>

definition seq_lo :: "Sequence \<Rightarrow> SeqOrUid" where
  "seq_lo s = (case s of Single a \<Rightarrow> a | Range a b \<Rightarrow> min a b)"

definition seq_hi :: "Sequence \<Rightarrow> SeqOrUid" where
  "seq_hi s = (case s of Single a \<Rightarrow> a | Range a b \<Rightarrow> max a b)"

lemma SeqOrUid_cmp_iff:
  "SeqOrUid_cmp a b = Less \<longleftrightarrow> a < b" "SeqOrUid_cmp a b = Equal \<longleftrightarrow> a = b"
  "SeqOrUid_cmp a b = Greater \<longleftrightarrow> b < a"
  by (cases a; cases b; auto simp: SeqOrUid_cmp_def less_SeqOrUid_def)+

text \<open>The partial order of sequences compares them as intervals: one is less than the other
  if and only if it ends before the other begins, with \<open>*\<close> above every number; two sequences are
  equal only if both are the same single number; all other pairs are incomparable.\<close>

theorem Sequence_partial_cmp_spec:
  "Sequence_partial_cmp s t =
     (if seq_hi s < seq_lo t then Some Less
      else if seq_hi t < seq_lo s then Some Greater
      else if \<exists>a. s = Single a \<and> t = Single a then Some Equal
      else None)"
proof (cases s)
  case (Single a)
  show ?thesis
  proof (cases t)
    case (Single b)
    with \<open>s = Single a\<close> show ?thesis
      using SeqOrUid_cmp_iff [of a b] by (cases "SeqOrUid_cmp a b") (auto simp: seq_lo_def seq_hi_def)
  next
    case (Range b1 b2)
    with \<open>s = Single a\<close> show ?thesis by (auto simp: seq_lo_def seq_hi_def)
  qed
next
  case (Range a1 a2)
  then show ?thesis by (cases t) (auto simp: seq_lo_def seq_hi_def)
qed

section \<open>Conversions\<close>

text \<open>\<open>str::split\<close> at a one-byte separator: one piece more than there are separators.\<close>

fun split_on :: "char \<Rightarrow> bytes \<Rightarrow> bytes list" where
  "split_on sep [] = [[]]"
| "split_on sep (c # cs) =
     (if c = sep then [] # split_on sep cs
      else (case split_on sep cs of p # ps \<Rightarrow> (c # p) # ps | [] \<Rightarrow> [[c]]))"

definition NonZeroU32_from_str :: "bytes \<Rightarrow> u32 option" where
  "NonZeroU32_from_str s =
     (case parse_unsigned (2 ^ 32) s of
        Some n \<Rightarrow> if n = 0 then None else Some (of_nat n)
      | None \<Rightarrow> None)"

definition SeqOrUid_from_str :: "bytes \<Rightarrow> (ValidationError, SeqOrUid) result" where
  "SeqOrUid_from_str value =
     (if value = ''*'' then Inr Asterisk
      else if starts_with ''0'' value then Inl (ValidationError Invalid)
      else case NonZeroU32_from_str value of
        Some n \<Rightarrow> Inr (Value n)
      | None \<Rightarrow> Inl (ValidationError Invalid))"

definition Sequence_from_str :: "bytes \<Rightarrow> (ValidationError, Sequence) result" where
  "Sequence_from_str value =
     (case split_on CHR '':'' value of
        [] \<Rightarrow> Inl (ValidationError Empty)
      | [_] \<Rightarrow> map_ok Single (SeqOrUid_from_str value)
      | [start, fin] \<Rightarrow>
          res_bind (SeqOrUid_from_str start) (\<lambda>a.
          res_bind (SeqOrUid_from_str fin) (\<lambda>b. Inr (Range a b)))
      | _ \<Rightarrow> Inl (ValidationError Invalid))"

fun collect_ok :: "('e, 'a) result list \<Rightarrow> ('e, 'a list) result" where
  "collect_ok [] = Inr []"
| "collect_ok (r # rs) = res_bind r (\<lambda>x. res_bind (collect_ok rs) (\<lambda>xs. Inr (x # xs)))"

definition SequenceSet_try_from :: "Sequence list \<Rightarrow> (ValidationError, SequenceSet) result" where
  "SequenceSet_try_from seqs =
     map_ok SequenceSet (map_err (\<lambda>_. ValidationError Empty) (VecN_try_from 1 seqs))"

definition SequenceSet_from_str :: "bytes \<Rightarrow> (ValidationError, SequenceSet) result" where
  "SequenceSet_from_str value =
     res_bind (collect_ok (map Sequence_from_str (split_on CHR '','' value))) SequenceSet_try_from"

text \<open>The \<open>TryFrom\<close> instances that the macros generate for the integer types; a value of such a
  type is an integer here, and \<open>lowest\<close> is the smallest value of the type, where
  \<open>saturating_sub\<close> stops.\<close>

definition SeqOrUid_try_from_num :: "int \<Rightarrow> (ValidationError, SeqOrUid) result" where
  "SeqOrUid_try_from_num v =
     (if 0 \<le> v \<and> v < 2 ^ 32 \<and> v \<noteq> 0 then Inr (Value (of_int v))
      else Inl (ValidationError Invalid))"

definition Sequence_try_from_num :: "int \<Rightarrow> (ValidationError, Sequence) result" where
  "Sequence_try_from_num v = map_ok Single (SeqOrUid_try_from_num v)"

definition SequenceSet_try_from_nums :: "int list \<Rightarrow> (ValidationError, SequenceSet) result" where
  "SequenceSet_try_from_nums vs =
     res_bind (collect_ok (map Sequence_try_from_num vs)) SequenceSet_try_from"

definition Sequence_try_from_RangeFrom :: "int \<Rightarrow> (ValidationError, Sequence) result" where
  "Sequence_try_from_RangeFrom start =
     res_bind (SeqOrUid_try_from_num start) (\<lambda>a. Inr (Range a Asterisk))"

definition Sequence_try_from_Range :: "int \<Rightarrow> int \<Rightarrow> int \<Rightarrow> (ValidationError, Sequence) result" where
  "Sequence_try_from_Range lowest start fin =
     res_bind (SeqOrUid_try_from_num start) (\<lambda>a.
     res_bind (SeqOrUid_try_from_num (max lowest (fin - 1))) (\<lambda>b. Inr (Range a b)))"

definition Sequence_try_from_RangeInclusive ::
  "int \<Rightarrow> int \<Rightarrow> (ValidationError, Sequence) result" where
  "Sequence_try_from_RangeInclusive start fin =
     res_bind (SeqOrUid_try_from_num start) (\<lambda>a.
     res_bind (SeqOrUid_try_from_num fin) (\<lambda>b. Inr (Range a b)))"

text \<open>\<open>TryFrom<Range<NonZeroU32>>\<close>: the start of the range is not used.\<close>

definition Sequence_try_from_Range_NonZeroU32 ::
  "u32 \<Rightarrow> u32 \<Rightarrow> (ValidationError, Sequence) result" where
  "Sequence_try_from_Range_NonZeroU32 range_start range_end =
     res_bind (SeqOrUid_try_from_num (uint (saturating_sub range_end 1))) (\<lambda>b.
       Inr (Range (SeqOrUid_from 1) b))"

definition Sequence_from_RangeInclusive_NonZeroU32 :: "u32 \<Rightarrow> u32 \<Rightarrow> Sequence" where
  "Sequence_from_RangeInclusive_NonZeroU32 range_start range_end =
     Range (SeqOrUid_from range_start) (SeqOrUid_from range_end)"

section \<open>Normalization of sets\<close>

text \<open>A half-open range of \<open>NonZeroU32\<close>.\<close>

type_synonym range = "u32 \<times> u32"

definition range_contains :: "range \<Rightarrow> u32 \<Rightarrow> bool" where
  "range_contains r x \<longleftrightarrow> fst r \<le> x \<and> x < snd r"

definition hash_insert :: "'a \<Rightarrow> 'a list \<Rightarrow> 'a list" where
  "hash_insert x xs = (if x \<in> set xs then xs else xs @ [x])"

fun collect_ranges :: "Sequence list \<Rightarrow> u32 list \<times> range list \<Rightarrow> u32 list \<times> range list" where
  "collect_ranges [] (singles, ranges) = (singles, ranges)"
| "collect_ranges (seq # seqs) (singles, ranges) =
     (case Sequence_normalize seq of
        Single i \<Rightarrow>
          collect_ranges seqs
            (hash_insert (to_non_zero_u32 i) singles,
             ranges @ [(to_non_zero_u32 i, saturating_add (to_non_zero_u32 i) 1)])
      | Range a b \<Rightarrow>
          collect_ranges seqs
            (singles, ranges @ [(to_non_zero_u32 a, saturating_add (to_non_zero_u32 b) 1)]))"

text \<open>The loop over the clone of \<open>singles\<close>, with its inner loop over the ranges.\<close>

fun absorb_single :: "u32 \<Rightarrow> range list \<Rightarrow> u32 list \<Rightarrow> range list \<times> u32 list" where
  "absorb_single single [] singles = ([], singles)"
| "absorb_single single (r # ranges) singles =
     (let (r, singles) =
            (if single = max (fst r) 2 - 1 then ((single, snd r), removeAll single singles)
             else if single = snd r then ((fst r, single), removeAll single singles)
             else if range_contains r single then (r, removeAll single singles)
             else (r, singles));
          (ranges, singles) = absorb_single single ranges singles
      in (r # ranges, singles))"

fun absorb_singles :: "u32 list \<Rightarrow> range list \<Rightarrow> u32 list \<Rightarrow> range list \<times> u32 list" where
  "absorb_singles [] ranges singles = (ranges, singles)"
| "absorb_singles (single # rest) ranges singles =
     (let (ranges, singles) = absorb_single single ranges singles
      in absorb_singles rest ranges singles)"

text \<open>\<open>merge_ranges\<close>. The unstable sort of the source is a stable one here; by
  \<open>merge_ranges_unstable\<close> below the result is the same for every order of ranges with equal
  starts.\<close>

fun merge_into :: "range list \<Rightarrow> range list \<Rightarrow> range list" where
  "merge_into merged [] = merged"
| "merge_into merged (r # ranges) =
     (let l = last merged
      in if fst r \<le> snd l
         then merge_into (butlast merged @ [(fst l, max (snd l) (snd r))]) ranges
         else merge_into (merged @ [r]) ranges)"

definition merge_ranges :: "range list \<Rightarrow> range list" where
  "merge_ranges ranges =
     (case sort_key fst ranges of
        [] \<Rightarrow> []
      | r # rs \<Rightarrow> merge_into [r] rs)"

definition rebuild :: "range \<Rightarrow> Sequence" where
  "rebuild r =
     (case r of (a, b) \<Rightarrow>
        if a = b \<or> saturating_add a 1 = b then Single (SeqOrUid_from a)
        else if b = U32_MAX then Range (SeqOrUid_from a) Asterisk
        else Range (SeqOrUid_from a) (SeqOrUid_from (max b 2 - 1)))"

fun rebuild_loop :: "range list \<Rightarrow> u32 list \<Rightarrow> Sequence list \<times> u32 list" where
  "rebuild_loop [] singles = ([], singles)"
| "rebuild_loop (r # ranges) singles =
     (let (seqs, singles) = rebuild_loop ranges (filter (\<lambda>s. \<not> range_contains r s) singles)
      in (rebuild r # seqs, singles))"

definition sort_key_of :: "Sequence \<Rightarrow> u32" where
  "sort_key_of seq = (case seq of Single a \<Rightarrow> to_non_zero_u32 a | Range a _ \<Rightarrow> to_non_zero_u32 a)"

definition SequenceSet_normalize :: "(u32 list \<Rightarrow> u32 list) \<Rightarrow> SequenceSet \<Rightarrow> SequenceSet" where
  "SequenceSet_normalize hash_order s =
     (let (singles, ranges) = collect_ranges (sequences s) ([], []);
          (ranges, singles) = absorb_singles (hash_order singles) ranges singles;
          (seqs, singles) = rebuild_loop (merge_ranges ranges) singles;
          seqs = seqs @ map (\<lambda>single. Single (SeqOrUid_from single)) (hash_order singles)
      in SequenceSet (sort_key sort_key_of seqs))"

definition visits_all :: "(u32 list \<Rightarrow> u32 list) \<Rightarrow> bool" where
  "visits_all hash_order \<longleftrightarrow> (\<forall>xs. distinct xs \<longrightarrow> mset (hash_order xs) = mset xs)"

lemma visits_allD: "visits_all h \<Longrightarrow> distinct xs \<Longrightarrow> mset (h xs) = mset xs"
  by (simp add: visits_all_def)

section \<open>Expansion to message numbers\<close>

definition expand :: "u32 \<Rightarrow> SeqOrUid \<Rightarrow> u32" where
  "expand largest s = (case s of Value value \<Rightarrow> value | Asterisk \<Rightarrow> largest)"

definition simplify :: "SequenceSet \<Rightarrow> u32 \<Rightarrow> bool \<Rightarrow> (u32 \<times> u32) list" where
  "simplify s largest sort_ends =
     map (\<lambda>seq. case seq of
         Single a \<Rightarrow> (expand largest a, expand largest a)
       | Range a b \<Rightarrow>
           (let a = expand largest a; b = expand largest b
            in if sort_ends then if a \<le> b then (a, b) else (b, a) else (a, b)))
       (sequences s)"

text \<open>The tuples are sorted lexicographically; \<open>pop_front().unwrap()\<close> on an empty set is the
  panic.\<close>

fun stack_ranges :: "(u32 \<times> u32) list \<Rightarrow> (u32 \<times> u32) list \<Rightarrow> (u32 \<times> u32) list" where
  "stack_ranges stack [] = stack"
| "stack_ranges stack ((x, y) # remaining) =
     (let (l0, l1) = last stack
      in if l0 \<le> x \<and> x \<le> saturating_add l1 1
         then stack_ranges (butlast stack @ [(l0, max l1 y)]) remaining
         else stack_ranges (stack @ [(x, y)]) remaining)"

definition cleanup :: "(u32 \<times> u32) list \<Rightarrow> (u32 \<times> u32) list option" where
  "cleanup remaining =
     (case sort_key fst (sort_key snd remaining) of
        [] \<Rightarrow> None
      | r # rs \<Rightarrow> Some (stack_ranges [r] rs))"

text \<open>The iterators. \<open>RangeInclusive\<close> is the standard library's, with the flag that lets it end at
  the greatest value.\<close>

record RangeInclusive =
  ri_start :: u32
  ri_end :: u32
  ri_exhausted :: bool

definition inclusive :: "u32 \<Rightarrow> u32 \<Rightarrow> RangeInclusive" where
  "inclusive a b = \<lparr>ri_start = a, ri_end = b, ri_exhausted = False\<rparr>"

definition ri_next :: "RangeInclusive \<Rightarrow> u32 option \<times> RangeInclusive" where
  "ri_next r =
     (if ri_exhausted r \<or> \<not> ri_start r \<le> ri_end r then (None, r)
      else if ri_start r < ri_end r then (Some (ri_start r), r\<lparr>ri_start := ri_start r + 1\<rparr>)
      else (Some (ri_start r), r\<lparr>ri_exhausted := True\<rparr>))"

definition ri_next_back :: "RangeInclusive \<Rightarrow> u32 option \<times> RangeInclusive" where
  "ri_next_back r =
     (if ri_exhausted r \<or> \<not> ri_start r \<le> ri_end r then (None, r)
      else if ri_start r < ri_end r then (Some (ri_end r), r\<lparr>ri_end := ri_end r - 1\<rparr>)
      else (Some (ri_end r), r\<lparr>ri_exhausted := True\<rparr>))"

datatype Sorting = Ascending RangeInclusive | Descending RangeInclusive

fun Sorting_next :: "Sorting \<Rightarrow> u32 option \<times> Sorting" where
  "Sorting_next (Ascending iter) = apsnd Ascending (ri_next iter)"
| "Sorting_next (Descending iter) = apsnd Descending (ri_next_back iter)"

record SequenceSetIter =
  iter_ranges :: "(u32 \<times> u32) list"
  active_range :: "Sorting option"

text \<open>The loop of \<open>SequenceSetIter::next\<close>; \<open>None\<close> is the panic of \<open>NonZeroU32::new(0).unwrap()\<close>.\<close>

function SequenceSetIter_next :: "SequenceSetIter \<Rightarrow> (u32 option \<times> SequenceSetIter) option" where
  "SequenceSetIter_next it =
     (case active_range it of
        Some active \<Rightarrow>
          (case Sorting_next active of
             (Some nxt, active) \<Rightarrow>
               if nxt = 0 then None else Some (Some nxt, it\<lparr>active_range := Some active\<rparr>)
           | (None, _) \<Rightarrow> SequenceSetIter_next (it\<lparr>active_range := None\<rparr>))
      | None \<Rightarrow>
          (case iter_ranges it of
             (a, b) # rest \<Rightarrow>
               if a \<le> b
               then SequenceSetIter_next
                 (it\<lparr>iter_ranges := rest, active_range := Some (Ascending (inclusive a b))\<rparr>)
               else SequenceSetIter_next
                 (it\<lparr>iter_ranges := rest, active_range := Some (Descending (inclusive b a))\<rparr>)
           | [] \<Rightarrow> Some (None, it)))"
  by pat_completeness auto
termination
  by (relation "measure (\<lambda>it. 2 * length (iter_ranges it) +
        (if active_range it = None then 0 else 1))") auto

declare SequenceSetIter_next.simps [simp del]

definition iter :: "SequenceSet \<Rightarrow> u32 \<Rightarrow> SequenceSetIter option" where
  "iter s largest =
     map_option (\<lambda>ranges. \<lparr>iter_ranges = ranges, active_range = None\<rparr>)
       (cleanup (simplify s largest True))"

definition iter_naive :: "SequenceSet \<Rightarrow> u32 \<Rightarrow> SequenceSetIter" where
  "iter_naive s largest = \<lparr>iter_ranges = simplify s largest False, active_range = None\<rparr>"

section \<open>What the iterators yield\<close>

definition range_items :: "u32 \<Rightarrow> u32 \<Rightarrow> u32 list" where
  "range_items a b = map of_nat [unat a ..< Suc (unat b)]"

lemma of_nat_bounded:
  "n \<le> unat (b :: u32) \<Longrightarrow> unat (of_nat n :: u32) = n"
  by (rule unat_of_nat_u32) (use unat_u32_bound [of b] in linarith)

lemma set_range_items [simp]: "set (range_items a b) = {a..b}"
proof
  show "set (range_items a b) \<subseteq> {a..b}"
    by (auto simp: range_items_def word_le_nat_alt of_nat_bounded [of _ b] less_Suc_eq_le
        simp del: upt_Suc)
  show "{a..b} \<subseteq> set (range_items a b)"
  proof
    fix v assume "v \<in> {a..b}"
    then have "unat v \<in> set [unat a ..< Suc (unat b)]" by (auto simp: word_le_nat_alt)
    then have "of_nat (unat v) \<in> set (range_items a b)" unfolding range_items_def set_map by blast
    then show "v \<in> set (range_items a b)" by simp
  qed
qed

lemma sorted_range_items: "sorted_wrt (<) (range_items a b)"
proof -
  have "sorted_wrt (\<lambda>m n. (of_nat m :: u32) < of_nat n) [unat a ..< Suc (unat b)]"
    by (rule sorted_wrt_mono_rel [OF _ sorted_wrt_upt])
       (auto simp: word_less_nat_alt of_nat_bounded [of _ b] less_Suc_eq_le simp del: upt_Suc)
  then show ?thesis by (simp add: range_items_def sorted_wrt_map del: upt_Suc)
qed

lemma range_items_Nil: "range_items a b = [] \<longleftrightarrow> b < a"
  by (simp add: range_items_def word_less_nat_alt less_Suc_eq_le not_le)

lemma unat_pred: "(a :: u32) < b \<Longrightarrow> unat (b - 1) = unat b - 1"
  using unat_remaining_one [of b] by (simp add: word_less_nat_alt)

lemma range_items_Cons: "a < b \<Longrightarrow> range_items a b = a # range_items (a + 1) b"
  by (simp add: range_items_def unat_succ word_less_nat_alt upt_conv_Cons)

lemma range_items_snoc: "a < b \<Longrightarrow> range_items a b = range_items a (b - 1) @ [b]"
proof -
  assume ab: "a < b"
  then have "unat b = Suc (unat (b - 1))" by (simp add: unat_pred word_less_nat_alt)
  with ab show ?thesis by (simp add: range_items_def word_less_nat_alt)
qed

lemma range_items_single: "range_items a a = [a]"
  by (simp add: range_items_def)

definition ri_items :: "RangeInclusive \<Rightarrow> u32 list" where
  "ri_items r = (if ri_exhausted r then [] else range_items (ri_start r) (ri_end r))"

lemma ri_next_items:
  "case ri_next r of (None, r') \<Rightarrow> ri_items r = [] | (Some x, r') \<Rightarrow> ri_items r = x # ri_items r'"
proof (cases "ri_exhausted r \<or> \<not> ri_start r \<le> ri_end r")
  case True
  then show ?thesis by (auto simp: ri_next_def ri_items_def range_items_Nil)
next
  case False
  then have "\<not> ri_exhausted r" "ri_start r \<le> ri_end r" by auto
  then show ?thesis
    by (cases "ri_start r < ri_end r")
       (auto simp: ri_next_def ri_items_def range_items_Cons range_items_single)
qed

lemma ri_next_back_items:
  "case ri_next_back r of (None, r') \<Rightarrow> ri_items r = [] | (Some x, r') \<Rightarrow> ri_items r = ri_items r' @ [x]"
proof (cases "ri_exhausted r \<or> \<not> ri_start r \<le> ri_end r")
  case True
  then show ?thesis by (auto simp: ri_next_back_def ri_items_def range_items_Nil)
next
  case False
  then have "\<not> ri_exhausted r" "ri_start r \<le> ri_end r" by auto
  then show ?thesis
    by (cases "ri_start r < ri_end r")
       (auto simp: ri_next_back_def ri_items_def range_items_snoc range_items_single)
qed

fun sorting_items :: "Sorting \<Rightarrow> u32 list" where
  "sorting_items (Ascending r) = ri_items r"
| "sorting_items (Descending r) = rev (ri_items r)"

definition pair_items :: "u32 \<times> u32 \<Rightarrow> u32 list" where
  "pair_items r = (case r of (a, b) \<Rightarrow> if a \<le> b then range_items a b else rev (range_items b a))"

definition pending :: "SequenceSetIter \<Rightarrow> u32 list" where
  "pending it = (case active_range it of None \<Rightarrow> [] | Some s \<Rightarrow> sorting_items s) @
     concat (map pair_items (iter_ranges it))"

lemma Sorting_next_items:
  "case Sorting_next s of (None, s') \<Rightarrow> sorting_items s = []
   | (Some x, s') \<Rightarrow> sorting_items s = x # sorting_items s'"
  using ri_next_items ri_next_back_items
  by (cases s) (fastforce simp: apsnd_def map_prod_def split: prod.splits option.splits)+

lemma pending_start:
  "pending (it\<lparr>iter_ranges := rest, active_range := Some (Ascending (inclusive a b))\<rparr>) =
     range_items a b @ concat (map pair_items rest)"
  "pending (it\<lparr>iter_ranges := rest, active_range := Some (Descending (inclusive b a))\<rparr>) =
     rev (range_items b a) @ concat (map pair_items rest)"
  by (simp_all add: pending_def inclusive_def ri_items_def)

lemma SequenceSetIter_next_pending:
  "case SequenceSetIter_next it of
     None \<Rightarrow> \<exists>xs. pending it = 0 # xs
   | Some (None, it') \<Rightarrow> pending it = []
   | Some (Some x, it') \<Rightarrow> x \<noteq> 0 \<and> pending it = x # pending it'"
proof (induction it rule: SequenceSetIter_next.induct)
  case (1 it)
  show ?case
  proof (cases "active_range it")
    case None
    show ?thesis
    proof (cases "iter_ranges it")
      case Nil
      with None show ?thesis by (simp add: SequenceSetIter_next.simps [of it] pending_def)
    next
      case (Cons r rest)
      obtain a b where r: "r = (a, b)" by (cases r)
      let ?it = "if a \<le> b
        then it\<lparr>iter_ranges := rest, active_range := Some (Ascending (inclusive a b))\<rparr>
        else it\<lparr>iter_ranges := rest, active_range := Some (Descending (inclusive b a))\<rparr>"
      have "SequenceSetIter_next it = SequenceSetIter_next ?it"
        using None Cons r by (simp add: SequenceSetIter_next.simps [of it])
      moreover have "pending it = pending ?it"
        using None Cons r by (simp add: pending_start pending_def [of it] pair_items_def)
      moreover have "case SequenceSetIter_next ?it of
          None \<Rightarrow> \<exists>xs. pending ?it = 0 # xs
        | Some (None, it') \<Rightarrow> pending ?it = []
        | Some (Some x, it') \<Rightarrow> x \<noteq> 0 \<and> pending ?it = x # pending it'"
        using "1.IH" None Cons r by (cases "a \<le> b") auto
      ultimately show ?thesis by (simp only:)
    qed
  next
    case (Some s)
    obtain r s' where next_s: "Sorting_next s = (r, s')" by (cases "Sorting_next s")
    show ?thesis
    proof (cases r)
      case None
      let ?it = "it\<lparr>active_range := None\<rparr>"
      have "sorting_items s = []" using Sorting_next_items [of s] next_s None by simp
      then have "pending it = pending ?it" using Some by (simp add: pending_def)
      moreover have "SequenceSetIter_next it = SequenceSetIter_next ?it"
        using Some next_s None by (simp add: SequenceSetIter_next.simps [of it])
      ultimately show ?thesis using "1.IH" Some next_s None by (simp only:)
    next
      case r: (Some x)
      then have "sorting_items s = x # sorting_items s'"
        using Sorting_next_items [of s] next_s by simp
      then show ?thesis
        using Some next_s r by (simp add: SequenceSetIter_next.simps [of it] pending_def)
    qed
  qed
qed

text \<open>\<open>Iterator::collect\<close>.\<close>

function collect :: "SequenceSetIter \<Rightarrow> u32 list option" where
  "collect it =
     (case SequenceSetIter_next it of
        None \<Rightarrow> None
      | Some (None, _) \<Rightarrow> Some []
      | Some (Some x, it') \<Rightarrow> map_option (Cons x) (collect it'))"
  by pat_completeness auto
termination
proof (relation "measure (\<lambda>it. length (pending it))", goal_cases)
  case (2 it r n it' x)
  then show ?case using SequenceSetIter_next_pending [of it] by auto
qed simp

declare collect.simps [simp del]

lemma collect_pending: "0 \<notin> set (pending it) \<Longrightarrow> collect it = Some (pending it)"
proof (induction it rule: collect.induct)
  case (1 it)
  show ?case
  proof (cases "SequenceSetIter_next it")
    case None
    with "1.prems" SequenceSetIter_next_pending [of it] show ?thesis by auto
  next
    case (Some p)
    obtain r it' where p: "p = (r, it')" by (cases p)
    show ?thesis
      using "1.IH" "1.prems" SequenceSetIter_next_pending [of it] Some p
      by (cases r) (simp_all add: collect.simps [of it])
  qed
qed

section \<open>The meaning of a sequence set\<close>

fun wf_seq_or_uid :: "SeqOrUid \<Rightarrow> bool" where
  "wf_seq_or_uid (Value n) \<longleftrightarrow> n \<noteq> 0"
| "wf_seq_or_uid Asterisk \<longleftrightarrow> True"

fun wf_sequence :: "Sequence \<Rightarrow> bool" where
  "wf_sequence (Single a) \<longleftrightarrow> wf_seq_or_uid a"
| "wf_sequence (Range a b) \<longleftrightarrow> wf_seq_or_uid a \<and> wf_seq_or_uid b"

definition wf_sequence_set :: "SequenceSet \<Rightarrow> bool" where
  "wf_sequence_set s \<longleftrightarrow> sequences s \<noteq> [] \<and> list_all wf_sequence (sequences s)"

text \<open>The numbers a sequence stands for in a mailbox with the greatest number \<open>largest\<close>.\<close>

definition seq_denote :: "u32 \<Rightarrow> Sequence \<Rightarrow> u32 set" where
  "seq_denote largest seq =
     (case seq of
        Single a \<Rightarrow> {expand largest a}
      | Range a b \<Rightarrow>
          {min (expand largest a) (expand largest b) .. max (expand largest a) (expand largest b)})"

definition denote :: "u32 \<Rightarrow> SequenceSet \<Rightarrow> u32 set" where
  "denote largest s = (\<Union>seq \<in> set (sequences s). seq_denote largest seq)"

lemma expand_pos: "wf_seq_or_uid a \<Longrightarrow> largest \<noteq> 0 \<Longrightarrow> expand largest a \<noteq> 0"
  by (cases a) (simp_all add: expand_def)

lemma seq_denote_pos: "wf_sequence seq \<Longrightarrow> largest \<noteq> 0 \<Longrightarrow> 0 \<notin> seq_denote largest seq"
  using expand_pos [of _ largest]
  by (cases seq) (auto simp: seq_denote_def min_def split: if_splits)

lemma denote_pos: "wf_sequence_set s \<Longrightarrow> largest \<noteq> 0 \<Longrightarrow> 0 \<notin> denote largest s"
  using seq_denote_pos by (auto simp: denote_def wf_sequence_set_def list_all_iff)

lemma set_pair_items: "set (pair_items (a, b)) = {min a b .. max a b}"
  by (auto simp: pair_items_def)

lemma simplify_denote:
  "(\<Union>r \<in> set (simplify s largest sort_ends). set (pair_items r)) = denote largest s"
proof -
  have "set (pair_items (case seq of
         Single a \<Rightarrow> (expand largest a, expand largest a)
       | Range a b \<Rightarrow>
           (let a = expand largest a; b = expand largest b
            in if sort_ends then if a \<le> b then (a, b) else (b, a) else (a, b)))) =
      seq_denote largest seq" for seq
    by (cases seq) (auto simp: set_pair_items seq_denote_def Let_def)
  then show ?thesis by (simp add: simplify_def denote_def)
qed

lemma stack_ranges_append:
  "l \<noteq> [] \<Longrightarrow> stack_ranges (st @ l) rs = st @ stack_ranges l rs"
  by (induction l rs arbitrary: st rule: stack_ranges.induct)
     (auto simp: Let_def butlast_append split: prod.splits simp flip: append_assoc)

lemma stack_ranges_step:
  "stack_ranges [(l0, l1)] ((x, y) # rs) =
     (if l0 \<le> x \<and> x \<le> saturating_add l1 1 then stack_ranges [(l0, max l1 y)] rs
      else (l0, l1) # stack_ranges [(x, y)] rs)"
  using stack_ranges_append [of "[(x, y)]" "[(l0, l1)]" rs] by simp

definition separated :: "(u32 \<times> u32) list \<Rightarrow> bool" where
  "separated rs \<longleftrightarrow> (\<forall>r \<in> set rs. fst r \<le> snd r) \<and> sorted_wrt (\<lambda>r q. snd r < fst q) rs"

lemma stack_ranges_fst: "r \<in> set (stack_ranges [l] rs) \<Longrightarrow> fst r \<in> fst ` set (l # rs)"
proof (induction rs arbitrary: l)
  case (Cons q rs)
  obtain l0 l1 x y where [simp]: "l = (l0, l1)" "q = (x, y)" by (cases l, cases q)
  show ?case
    using Cons.prems Cons.IH [of "(l0, max l1 y)"] Cons.IH [of "(x, y)"]
    by (auto simp: stack_ranges_step simp del: stack_ranges.simps(2) split: if_splits)
qed simp

lemma merge_interval:
  fixes l0 :: u32
  assumes "l0 \<le> x" "x \<le> saturating_add l1 1" "x \<le> y" "l0 \<le> l1"
  shows "{l0..l1} \<union> {x..y} = {l0..max l1 y}"
proof
  show "{l0..max l1 y} \<subseteq> {l0..l1} \<union> {x..y}"
  proof
    fix v assume v: "v \<in> {l0..max l1 y}"
    show "v \<in> {l0..l1} \<union> {x..y}"
    proof (cases "v \<le> l1")
      case False
      then have "saturating_add l1 1 \<le> v" by (intro saturating_succ_le) simp
      with assms(2) have "x \<le> v" by (rule order.trans)
      with False v show ?thesis by (auto simp: max_def split: if_splits)
    qed (use v in auto)
  qed
qed (use assms in \<open>auto simp: max_def\<close>)

lemma stack_ranges_spec:
  "sorted (map fst (l # rs)) \<Longrightarrow> \<forall>r \<in> set (l # rs). fst r \<le> snd r \<Longrightarrow>
     separated (stack_ranges [l] rs) \<and>
     (\<Union>r \<in> set (stack_ranges [l] rs). {fst r..snd r}) = (\<Union>r \<in> set (l # rs). {fst r..snd r})"
proof (induction rs arbitrary: l)
  case (Cons q rs)
  obtain l0 l1 x y where lq [simp]: "l = (l0, l1)" "q = (x, y)" by (cases l, cases q)
  have ends: "l0 \<le> l1" "x \<le> y" "l0 \<le> x" using Cons.prems by auto
  show ?case
  proof (cases "x \<le> saturating_add l1 1")
    case True
    have "l0 \<le> max l1 y" using ends by (simp add: le_max_iff_disj)
    with Cons.prems Cons.IH [of "(l0, max l1 y)"] True ends show ?thesis
      by (simp add: stack_ranges_step Un_assoc [symmetric] merge_interval
          del: stack_ranges.simps(2))
  next
    case False
    then have gap: "l1 < x" using saturating_succ_ge [of l1] by simp
    have "\<forall>r \<in> set (stack_ranges [(x, y)] rs). l1 < fst r"
    proof
      fix r assume "r \<in> set (stack_ranges [(x, y)] rs)"
      then have "fst r \<in> fst ` set ((x, y) # rs)" by (rule stack_ranges_fst)
      with Cons.prems(1) have "x \<le> fst r" by auto
      with gap show "l1 < fst r" by simp
    qed
    with Cons.prems Cons.IH [of "(x, y)"] False ends show ?thesis
      by (auto simp: stack_ranges_step separated_def simp del: stack_ranges.simps(2))
  qed
qed (simp add: separated_def)

lemma separated_items:
  "separated rs \<Longrightarrow> sorted_wrt (<) (concat (map pair_items rs))"
proof (induction rs)
  case (Cons r rs)
  obtain a b where r: "r = (a, b)" by (cases r)
  have "x < y" if "x \<in> set (pair_items r)" "q \<in> set rs" "y \<in> set (pair_items q)" for x y q
  proof -
    from Cons.prems that(2) have "b < fst q" "fst q \<le> snd q" "a \<le> b"
      by (auto simp: separated_def r)
    moreover from this that have "x \<le> b" "fst q \<le> y"
      by (cases q; simp add: r set_pair_items)+
    ultimately show ?thesis by (meson le_less_trans less_le_trans)
  qed
  moreover have "sorted_wrt (<) (pair_items r)"
    using Cons.prems sorted_range_items by (simp add: r pair_items_def separated_def)
  ultimately show ?case
    using Cons by (auto simp: sorted_wrt_append separated_def)
qed simp

lemma simplify_sorted: "r \<in> set (simplify s largest True) \<Longrightarrow> fst r \<le> snd r"
  by (auto simp: simplify_def Let_def split: Sequence.splits if_splits)

lemma pair_items_interval: "fst r \<le> snd r \<Longrightarrow> set (pair_items r) = {fst r..snd r}"
  by (cases r) (simp add: set_pair_items)

lemma cleanup_spec:
  assumes "rs \<noteq> []" "\<forall>r \<in> set rs. fst r \<le> snd r"
  shows "\<exists>out. cleanup rs = Some out \<and> separated out \<and>
     (\<Union>r \<in> set out. set (pair_items r)) = (\<Union>r \<in> set rs. set (pair_items r))"
proof -
  let ?sorted = "sort_key fst (sort_key snd rs)"
  have set: "set ?sorted = set rs" by simp
  with assms(1) have "?sorted \<noteq> []" by (metis set_empty)
  then obtain q qs where qs: "?sorted = q # qs" by (meson list.exhaust)
  have "sorted (map fst ?sorted)" by (rule sorted_sort_key)
  then have sorted: "sorted (map fst (q # qs))" by (simp only: qs)
  have elems: "set (q # qs) = set rs" using set by (simp only: qs)
  have "\<forall>r \<in> set (q # qs). fst r \<le> snd r" unfolding elems by (rule assms(2))
  note out = stack_ranges_spec [OF sorted this, THEN conjunct1]
    stack_ranges_spec [OF sorted this, THEN conjunct2]
  have "(\<Union>r \<in> set (stack_ranges [q] qs). set (pair_items r)) =
      (\<Union>r \<in> set (stack_ranges [q] qs). {fst r..snd r})"
    using out(1) by (auto simp: separated_def pair_items_interval)
  also have "\<dots> = (\<Union>r \<in> set rs. {fst r..snd r})"
    unfolding out(2) elems ..
  also have "\<dots> = (\<Union>r \<in> set rs. set (pair_items r))"
    using assms(2) by (auto simp: pair_items_interval)
  finally show ?thesis using qs out(1) by (simp add: cleanup_def)
qed

text \<open>C28: \<open>SequenceSet::iter\<close> on any well-formed set and any non-zero largest number returns,
  without panicking, exactly the numbers the set denotes, each once and in increasing order,
  with \<open>*\<close> standing for the largest number and reversed ranges read as if they were sorted.\<close>

theorem iter_spec:
  assumes "wf_sequence_set s" "largest \<noteq> 0"
  shows "\<exists>xs. Option.bind (iter s largest) collect = Some xs \<and>
     sorted_wrt (<) xs \<and> set xs = denote largest s"
proof -
  have "simplify s largest True \<noteq> []"
    using assms(1) by (simp add: simplify_def wf_sequence_set_def)
  with cleanup_spec [of "simplify s largest True"] simplify_sorted obtain out where
    out: "cleanup (simplify s largest True) = Some out" "separated out"
    and set: "(\<Union>r \<in> set out. set (pair_items r)) = denote largest s"
    unfolding simplify_denote by blast
  let ?it = "\<lparr>iter_ranges = out, active_range = None\<rparr>"
  have pending: "pending ?it = concat (map pair_items out)" by (simp add: pending_def)
  with set have items: "set (pending ?it) = denote largest s" by simp
  with denote_pos [OF assms] have "collect ?it = Some (pending ?it)"
    by (intro collect_pending) simp
  with out items separated_items [OF out(2)] show ?thesis
    by (simp add: iter_def pending)
qed

lemma iter_spec_witness:
  "\<exists>xs. Option.bind (iter (SequenceSet [Range Asterisk (Value 3), Single (Value 4)]) 5) collect =
      Some xs \<and> sorted_wrt (<) xs \<and>
      set xs = denote 5 (SequenceSet [Range Asterisk (Value 3), Single (Value 4)])"
  by (rule iter_spec) (simp_all add: wf_sequence_set_def)

text \<open>C29: \<open>SequenceSet::iter_naive\<close> follows the set literally: sequence by sequence, upwards or
  downwards as written, with repetitions.\<close>

theorem iter_naive_spec:
  assumes "wf_sequence_set s" "largest \<noteq> 0"
  shows "collect (iter_naive s largest) = Some (concat (map (\<lambda>seq. case seq of
      Single a \<Rightarrow> [expand largest a]
    | Range a b \<Rightarrow>
        if expand largest a \<le> expand largest b then range_items (expand largest a) (expand largest b)
        else rev (range_items (expand largest b) (expand largest a))) (sequences s)))"
proof -
  have pending: "pending (iter_naive s largest) =
      concat (map pair_items (simplify s largest False))"
    by (simp add: pending_def iter_naive_def)
  then have "set (pending (iter_naive s largest)) = denote largest s"
    using simplify_denote [of s largest False] by simp
  with denote_pos [OF assms] have "collect (iter_naive s largest) =
      Some (pending (iter_naive s largest))"
    by (intro collect_pending) simp
  moreover have "map pair_items (simplify s largest False) = map (\<lambda>seq. case seq of
      Single a \<Rightarrow> [expand largest a]
    | Range a b \<Rightarrow>
        if expand largest a \<le> expand largest b then range_items (expand largest a) (expand largest b)
        else rev (range_items (expand largest b) (expand largest a))) (sequences s)"
    unfolding simplify_def map_map
    by (rule map_cong [OF refl])
       (simp add: pair_items_def range_items_single Let_def split: Sequence.splits)
  ultimately show ?thesis by (simp only: pending)
qed

lemma iter_naive_spec_witness:
  "collect (iter_naive (SequenceSet [Range Asterisk (Value 3), Single (Value 4)]) 4) = Some [4, 3, 4]"
  using iter_naive_spec [of "SequenceSet [Range Asterisk (Value 3), Single (Value 4)]" 4]
  by (simp add: wf_sequence_set_def expand_def range_items_def)

section \<open>What normalization keeps\<close>

text \<open>The numbers covered by half-open ranges, and whether one of them is open ended.\<close>

definition cover :: "range list \<Rightarrow> u32 set" where
  "cover rs = (\<Union>r \<in> set rs. {fst r..<snd r})"

definition starred :: "range list \<Rightarrow> bool" where
  "starred rs \<longleftrightarrow> (\<exists>r \<in> set rs. snd r = U32_MAX)"

text \<open>The ranges that occur: not empty, except the one of \<open>*\<close> alone.\<close>

definition range_ok :: "range \<Rightarrow> bool" where
  "range_ok r \<longleftrightarrow> fst r \<noteq> 0 \<and> fst r \<noteq> U32_MAX - 1 \<and>
     (fst r < snd r \<or> fst r = U32_MAX \<and> snd r = U32_MAX)"

definition seq_range :: "Sequence \<Rightarrow> range" where
  "seq_range seq = (case seq of
       Single i \<Rightarrow> (to_non_zero_u32 i, saturating_add (to_non_zero_u32 i) 1)
     | Range a b \<Rightarrow> (to_non_zero_u32 a, saturating_add (to_non_zero_u32 b) 1))"

fun small :: "SeqOrUid \<Rightarrow> bool" where
  "small (Value n) \<longleftrightarrow> n < U32_MAX - 1"
| "small Asterisk \<longleftrightarrow> True"

fun small_sequence :: "Sequence \<Rightarrow> bool" where
  "small_sequence (Single a) \<longleftrightarrow> small a"
| "small_sequence (Range a b) \<longleftrightarrow> small a \<and> small b"

lemma Sequence_normalize_cases:
  obtains (single) a where "Sequence_normalize seq = Single a"
  | (range) a b where "Sequence_normalize seq = Range a b" "a < b"
proof (cases "Sequence_normalize seq")
  case (Single a)
  then show ?thesis by (rule single)
next
  case (Range a b)
  then have "a < b" by (cases seq) (auto simp: Sequence_normalize_def split: if_splits)
  with Range show ?thesis by (rule range)
qed

lemma normalize_wf: "wf_sequence seq \<Longrightarrow> wf_sequence (Sequence_normalize seq)"
  by (cases seq) (auto simp: Sequence_normalize_def)

lemma normalize_small: "small_sequence seq \<Longrightarrow> small_sequence (Sequence_normalize seq)"
  by (cases seq) (auto simp: Sequence_normalize_def)

lemma normalize_denote: "seq_denote largest (Sequence_normalize seq) = seq_denote largest seq"
  by (cases seq) (auto simp: Sequence_normalize_def seq_denote_def min.commute max.commute)

lemma to_non_zero_small:
  "small a \<Longrightarrow> wf_seq_or_uid a \<Longrightarrow> to_non_zero_u32 a \<noteq> 0 \<and> to_non_zero_u32 a \<noteq> U32_MAX - 1 \<and>
     (to_non_zero_u32 a = U32_MAX \<longleftrightarrow> a = Asterisk)"
proof (cases a)
  case (Value n)
  assume "small a" "wf_seq_or_uid a"
  then show ?thesis
    using Value by (auto simp: to_non_zero_u32_def U32_MAX_def)
qed (simp add: to_non_zero_u32_def U32_MAX_def)

lemma to_non_zero_mono:
  "small a \<Longrightarrow> wf_seq_or_uid a \<Longrightarrow> a < b \<Longrightarrow> to_non_zero_u32 a < U32_MAX \<and> to_non_zero_u32 a \<le> to_non_zero_u32 b"
proof (cases a)
  case (Value n)
  assume "small a" "wf_seq_or_uid a" "a < b"
  then show ?thesis using Value to_non_zero_small [of a] u32_le_max [of n]
    by (cases b) (auto simp: to_non_zero_u32_def U32_MAX_def less_SeqOrUid_def order.strict_iff_order)
qed (cases b; simp add: less_SeqOrUid_def)

lemma lt_max_iff: "x < U32_MAX \<longleftrightarrow> x \<noteq> U32_MAX"
  by (simp add: U32_MAX_def word_order.not_eq_extremum)

lemma le_max: "x \<le> U32_MAX"
  by (simp add: U32_MAX_def)

lemma saturating_succ_max: "saturating_add a 1 = (if a = U32_MAX then U32_MAX else a + 1)"
  by (simp add: saturating_succ U32_MAX_def)

lemma less_succ: "(a :: u32) \<noteq> U32_MAX \<Longrightarrow> x < saturating_add a 1 \<longleftrightarrow> x \<le> a"
  using saturating_succ_le [of a x] unat_max_iff [of a] unat_add_u32 [of a 1]
  by (auto simp: saturating_succ U32_MAX_def word_less_nat_alt word_le_nat_alt)

lemma succ_eq_max: "saturating_add (a :: u32) 1 = U32_MAX \<longleftrightarrow> a = U32_MAX \<or> a = U32_MAX - 1"
  using eq_diff_eq [of a U32_MAX 1] by (auto simp: saturating_succ_max)

lemma le_succ: "(x :: u32) \<le> a \<Longrightarrow> x \<noteq> U32_MAX \<Longrightarrow> x < saturating_add a 1"
  using less_succ [of a x] by (cases "a = U32_MAX") (simp_all add: saturating_succ_max lt_max_iff)

lemma seq_range_ok:
  assumes "wf_sequence seq" "small_sequence seq"
  shows "range_ok (seq_range (Sequence_normalize seq))"
proof (cases rule: Sequence_normalize_cases [of seq])
  case (single a)
  with normalize_wf [OF assms(1)] normalize_small [OF assms(2)] have a: "small a" "wf_seq_or_uid a" by auto
  then show ?thesis
    using single to_non_zero_small [OF a] le_succ [of "to_non_zero_u32 a" "to_non_zero_u32 a"]
    by (cases "to_non_zero_u32 a = U32_MAX")
       (simp_all add: seq_range_def range_ok_def saturating_succ_max)
next
  case (range a b)
  with normalize_wf [OF assms(1)] normalize_small [OF assms(2)] have a: "small a" "wf_seq_or_uid a" by auto
  then show ?thesis
    using range to_non_zero_small [OF a] to_non_zero_mono [OF a range(2)]
      le_succ [of "to_non_zero_u32 a" "to_non_zero_u32 b"]
    by (auto simp: seq_range_def range_ok_def)
qed

text \<open>What a range means in a mailbox with \<open>largest\<close> messages.\<close>

definition visible :: "u32 \<Rightarrow> range \<Rightarrow> u32 set" where
  "visible largest r = {fst r..<snd r} \<inter> {..largest} \<union> (if snd r = U32_MAX then {largest} else {})"

lemma visible_max: "{a..<U32_MAX} \<inter> {..largest} \<union> {largest} =
    {min a largest..max a largest} \<inter> {..largest}"
proof -
  have "x < U32_MAX" if "x \<le> largest" "x \<noteq> largest" for x
    using that le_max [of largest] by (simp add: order.strict_iff_order) auto
  then show ?thesis by (auto simp: min_def max_def split: if_splits)
qed

lemma seq_range_visible:
  assumes "wf_sequence seq" "small_sequence seq"
  shows "visible largest (seq_range (Sequence_normalize seq)) = seq_denote largest seq \<inter> {..largest}"
proof (cases rule: Sequence_normalize_cases [of seq])
  case (single a)
  with normalize_wf [OF assms(1)] normalize_small [OF assms(2)] have a: "small a" "wf_seq_or_uid a" by auto
  have "visible largest (seq_range (Single a)) = seq_denote largest (Single a) \<inter> {..largest}"
  proof (cases a)
    case (Value n)
    with to_non_zero_small [OF a] have n: "n \<noteq> U32_MAX" "n \<noteq> U32_MAX - 1"
      by (auto simp: to_non_zero_u32_def)
    then have "{n..<saturating_add n 1} = {n}" by (auto simp: less_succ)
    with n Value show ?thesis
      by (simp add: visible_def seq_range_def seq_denote_def to_non_zero_u32_def expand_def
          succ_eq_max)
  next
    case Asterisk
    then show ?thesis
      by (simp add: visible_def seq_range_def seq_denote_def to_non_zero_u32_def expand_def
          saturating_succ U32_MAX_def)
  qed
  with single normalize_denote [of largest seq] show ?thesis by simp
next
  case (range a b)
  with normalize_wf [OF assms(1)] normalize_small [OF assms(2)] have a: "small a" "wf_seq_or_uid a"
    and b: "small b" "wf_seq_or_uid b" by auto
  from range(2) obtain m where m: "a = Value m" by (cases a; cases b) (auto simp: less_SeqOrUid_def)
  have "visible largest (seq_range (Range a b)) = seq_denote largest (Range a b) \<inter> {..largest}"
  proof (cases b)
    case (Value n)
    with to_non_zero_small [OF b] have n: "n \<noteq> U32_MAX" "n \<noteq> U32_MAX - 1"
      by (auto simp: to_non_zero_u32_def)
    have "m \<le> n" using range(2) by (simp add: m Value less_SeqOrUid_def)
    moreover have "{m..<saturating_add n 1} = {m..n}" using n by (auto simp: less_succ)
    ultimately show ?thesis using n
      by (simp add: visible_def seq_range_def seq_denote_def to_non_zero_u32_def expand_def
          succ_eq_max m Value)
  next
    case Asterisk
    have "saturating_add U32_MAX 1 = U32_MAX" by (simp add: saturating_succ U32_MAX_def)
    then show ?thesis using visible_max [of m largest]
      by (simp add: visible_def seq_range_def seq_denote_def to_non_zero_u32_def expand_def m
          Asterisk)
  qed
  with range normalize_denote [of largest seq] show ?thesis by simp
qed

lemma rebuild_visible:
  assumes "range_ok r"
  shows "seq_denote largest (rebuild r) \<inter> {..largest} = visible largest r"
    and "wf_sequence (rebuild r)"
proof -
  obtain a b where r: "r = (a, b)" by (cases r)
  from assms have a: "a \<noteq> 0" "a \<noteq> U32_MAX - 1" and ab: "a < b \<or> a = U32_MAX \<and> b = U32_MAX"
    by (auto simp: range_ok_def r)
  have "seq_denote largest (rebuild r) \<inter> {..largest} = visible largest r \<and> wf_sequence (rebuild r)"
  proof (cases "a = U32_MAX")
    case True
    with ab u32_le_max [of b] have "b = U32_MAX" by (auto simp: U32_MAX_def)
    with True show ?thesis
      by (simp add: r rebuild_def SeqOrUid_from_def seq_denote_def expand_def visible_def)
  next
    case False
    with ab have less: "a < b" by simp
    show ?thesis
    proof (cases "saturating_add a 1 = b")
      case True
      with succ_eq_max [of a] a False have "b \<noteq> U32_MAX" by auto
      moreover have "x < b \<longleftrightarrow> x \<le> a" for x using less_succ [OF False] by (simp flip: True)
      then have "{a..<b} = {a..a}"
        by (simp only: atLeastLessThan_def atLeastAtMost_def lessThan_def atMost_def)
      moreover have "rebuild r = Single (Value a)"
        using True False by (simp add: r rebuild_def SeqOrUid_from_def)
      ultimately show ?thesis using a
        by (simp add: r seq_denote_def expand_def visible_def)
    next
      case two: False
      show ?thesis
      proof (cases "b = U32_MAX")
        case True
        have "rebuild r = Range (Value a) Asterisk"
          using True two False less by (simp add: r rebuild_def SeqOrUid_from_def)
        with a True show ?thesis
          using visible_max [of a largest] by (simp add: r seq_denote_def expand_def visible_def)
      next
        case open_end: False
        have pos: "0 < unat a" using a by (simp add: unat_gt_0)
        then have "unat b \<ge> 2" using less by (simp add: word_less_nat_alt)
        then have "2 \<le> b" by (simp add: word_le_nat_alt)
        then have max: "max b 2 = b" by (rule max.absorb1)
        have pred: "unat (b - 1) = unat b - 1" using less by (rule unat_pred)
        then have "b - 1 \<noteq> U32_MAX" "b - 1 \<noteq> 0"
          using \<open>unat b \<ge> 2\<close> unat_u32_bound [of b]
          by (auto simp: U32_MAX_def word_unat_eq_iff unat_minus_one_u32)
        then have "rebuild r = Range (Value a) (Value (b - 1))"
          using two False less open_end max by (simp add: r rebuild_def SeqOrUid_from_def)
        moreover have "{a..b - 1} = {a..<b}" "a \<le> b - 1"
          using pred less by (auto simp: word_less_nat_alt word_le_nat_alt)
        ultimately show ?thesis using open_end a \<open>b - 1 \<noteq> 0\<close>
          by (simp add: r seq_denote_def expand_def visible_def)
      qed
    qed
  qed
  then show "seq_denote largest (rebuild r) \<inter> {..largest} = visible largest r"
    "wf_sequence (rebuild r)" by simp_all
qed

definition seen :: "u32 \<Rightarrow> range list \<Rightarrow> u32 set" where
  "seen largest rs = (\<Union>r \<in> set rs. visible largest r)"

subsection \<open>Collecting\<close>

fun singles_of :: "Sequence list \<Rightarrow> u32 list \<Rightarrow> u32 list" where
  "singles_of [] ss = ss"
| "singles_of (seq # seqs) ss =
     singles_of seqs (case Sequence_normalize seq of
         Single i \<Rightarrow> hash_insert (to_non_zero_u32 i) ss | _ \<Rightarrow> ss)"

lemma collect_ranges_eq:
  "collect_ranges seqs (ss, rs) =
     (singles_of seqs ss, rs @ map (\<lambda>seq. seq_range (Sequence_normalize seq)) seqs)"
  by (induction seqs arbitrary: ss rs) (auto simp: seq_range_def split: Sequence.splits)

lemma singles_of_distinct: "distinct ss \<Longrightarrow> distinct (singles_of seqs ss)"
  by (induction seqs arbitrary: ss) (auto simp: hash_insert_def split: Sequence.splits)

text \<open>Every single has a range of its own: it starts at or below the single and ends right
  above it.\<close>

definition has_range :: "u32 \<Rightarrow> range list \<Rightarrow> bool" where
  "has_range s rs \<longleftrightarrow> (\<exists>r \<in> set rs. fst r \<le> s \<and> snd r = saturating_add s 1)"

lemma singles_of_range:
  "s \<in> set (singles_of seqs ss) \<Longrightarrow>
     s \<in> set ss \<or> has_range s (map (\<lambda>seq. seq_range (Sequence_normalize seq)) seqs)"
proof (induction seqs arbitrary: ss)
  case (Cons seq seqs)
  then show ?case
    by (cases "Sequence_normalize seq")
       (fastforce simp: has_range_def hash_insert_def seq_range_def split: if_splits)+
qed simp

subsection \<open>Absorbing the singles\<close>

definition extend_to :: "u32 \<Rightarrow> range \<Rightarrow> range" where
  "extend_to s r = (if s = max (fst r) 2 - 1 then (s, snd r) else r)"

definition touches :: "u32 \<Rightarrow> range \<Rightarrow> bool" where
  "touches s r \<longleftrightarrow> s = max (fst r) 2 - 1 \<or> s = snd r \<or> range_contains r s"

lemma absorb_head:
  "(if s = max (fst r) 2 - 1 then ((s, snd r), removeAll s ss)
    else if s = snd r then ((fst r, s), removeAll s ss)
    else if range_contains r s then (r, removeAll s ss) else (r, ss)) =
   (extend_to s r, if touches s r then removeAll s ss else ss)"
  by (cases r) (simp add: extend_to_def touches_def)

lemma absorb_single_eq:
  "absorb_single s rs ss =
     (map (extend_to s) rs, if \<exists>r \<in> set rs. touches s r then removeAll s ss else ss)"
proof (induction rs arbitrary: ss)
  case (Cons r rs)
  have "absorb_single s (r # rs) ss = (case absorb_single s rs (if touches s r then removeAll s ss else ss)
      of (rs', ss') \<Rightarrow> (extend_to s r # rs', ss'))"
    unfolding absorb_single.simps absorb_head Let_def by simp
  then show ?case by (simp add: Cons.IH)
qed simp

lemma has_range_touches:
  assumes "has_range s rs"
  shows "\<exists>r \<in> set rs. touches s r"
proof -
  from assms obtain r where r: "r \<in> set rs" "fst r \<le> s" "snd r = saturating_add s 1"
    by (auto simp: has_range_def)
  have "touches s r"
  proof (cases "s = U32_MAX")
    case True
    then have "s = snd r" by (simp add: r(3) saturating_succ_max)
    then show ?thesis by (simp add: touches_def)
  next
    case False
    then have "s < snd r" unfolding r(3) by (intro le_succ) simp_all
    with r(2) show ?thesis by (simp add: touches_def range_contains_def)
  qed
  with r(1) show ?thesis by blast
qed

lemma max_two_pred:
  assumes "(a :: u32) \<noteq> 0"
  shows "max a 2 - 1 = (if a = 1 then 1 else a - 1)"
proof (cases "a = 1")
  case False
  have "0 < unat a" using assms by (simp add: unat_gt_0)
  moreover have "unat a \<noteq> unat (1 :: u32)" using False by (simp only: word_unat_eq_iff) simp
  ultimately have "2 \<le> a" by (simp add: word_le_nat_alt)
  with False show ?thesis by (simp add: max.absorb1)
qed (simp add: max_def)

lemma pred_less: "(a :: u32) \<noteq> 0 \<Longrightarrow> a - 1 < a"
  using unat_remaining_one [of a] by (auto simp: word_less_nat_alt unat_gt_0)

lemma pred_unique:
  assumes "(a :: u32) \<noteq> 0" "a - 1 \<le> x" "x < a"
  shows "x = a - 1"
proof -
  have "0 < unat a" using assms(1) by (simp add: unat_gt_0)
  with unat_remaining_one [of a] assms(2,3) have "unat x = unat (a - 1)"
    by (simp add: word_less_nat_alt word_le_nat_alt)
  then show ?thesis by (simp only: word_unat_eq_iff)
qed

lemma extend_to_fst: "fst r \<noteq> 0 \<Longrightarrow> fst (extend_to s r) \<le> fst r \<and> snd (extend_to s r) = snd r"
  using pred_less [of "fst r"] by (auto simp: extend_to_def max_two_pred less_imp_le)

lemma extend_to_ok:
  assumes "range_ok r" "s \<noteq> 0" "s \<noteq> U32_MAX - 1"
  shows "range_ok (extend_to s r)"
proof (cases "s = max (fst r) 2 - 1")
  case True
  then have s: "s = (if fst r = 1 then 1 else fst r - 1)"
    using assms(1) by (simp add: max_two_pred range_ok_def)
  show ?thesis
  proof (cases "fst r = 1")
    case True
    with s assms(1) show ?thesis by (simp add: extend_to_def range_ok_def)
  next
    case False
    with s have less: "s < fst r" using pred_less [of "fst r"] assms(1) by (simp add: range_ok_def)
    moreover from assms(1) have "fst r \<le> snd r" by (auto simp: range_ok_def)
    ultimately have "s < snd r" by (rule less_le_trans)
    with True assms show ?thesis by (simp add: extend_to_def range_ok_def)
  qed
qed (use assms in \<open>simp add: extend_to_def\<close>)

lemma extend_to_visible:
  assumes "range_ok r"
  shows "visible largest r \<subseteq> visible largest (extend_to s r)"
    "visible largest (extend_to s r) \<subseteq> visible largest r \<union> ({s} - {U32_MAX}) \<inter> {..largest}"
proof -
  have le: "fst (extend_to s r) \<le> fst r" "snd (extend_to s r) = snd r"
    using extend_to_fst assms by (auto simp: range_ok_def)
  then show "visible largest r \<subseteq> visible largest (extend_to s r)"
    by (auto simp: visible_def intro: order.trans)
  have "x = s \<and> x \<noteq> U32_MAX" if "fst (extend_to s r) \<le> x" "x < snd r" "\<not> fst r \<le> x" for x
  proof -
    from that have ext: "extend_to s r = (s, snd r)" "s = max (fst r) 2 - 1"
      by (auto simp: extend_to_def split: if_splits)
    with that have "s \<noteq> fst r" by auto
    with ext assms have "s = fst r - 1" by (auto simp: max_two_pred range_ok_def split: if_splits)
    with that ext(1) pred_unique [of "fst r" x] assms have "x = s"
      by (simp add: range_ok_def not_le)
    moreover have "x \<noteq> U32_MAX" using that(2) le_max [of "snd r"] by auto
    ultimately show ?thesis by simp
  qed
  note new = this
  show "visible largest (extend_to s r) \<subseteq> visible largest r \<union> ({s} - {U32_MAX}) \<inter> {..largest}"
  proof
    fix x assume "x \<in> visible largest (extend_to s r)"
    then show "x \<in> visible largest r \<union> ({s} - {U32_MAX}) \<inter> {..largest}"
      using new [of x] le(2) by (cases "fst r \<le> x") (auto simp: visible_def split: if_splits)
  qed
qed

lemma has_range_visible:
  "has_range s rs \<Longrightarrow> ({s} - {U32_MAX}) \<inter> {..largest} \<subseteq> seen largest rs"
  using le_succ [of s s] by (auto simp: has_range_def seen_def visible_def)

definition absorbed :: "range list \<Rightarrow> range list \<Rightarrow> bool" where
  "absorbed rs rs' \<longleftrightarrow> list_all range_ok rs' \<and> (\<forall>largest. seen largest rs' = seen largest rs) \<and>
     (\<forall>s. has_range s rs \<longrightarrow> has_range s rs') \<and> length rs' = length rs"

lemma absorbed_step:
  assumes "absorbed rs rs'" "has_range s rs" "s \<noteq> 0" "s \<noteq> U32_MAX - 1"
  shows "absorbed rs (map (extend_to s) rs')"
proof -
  from assms(1) have ok: "list_all range_ok rs'" by (simp add: absorbed_def)
  have "list_all range_ok (map (extend_to s) rs')"
    using ok assms(3,4) by (auto simp: list_all_iff extend_to_ok)
  moreover have "seen largest (map (extend_to s) rs') = seen largest rs'" for largest
  proof
    show "seen largest (map (extend_to s) rs') \<subseteq> seen largest rs'"
      using ok extend_to_visible(2) [of _ largest s] has_range_visible [of s rs' largest] assms(1,2)
      by (fastforce simp: seen_def list_all_iff absorbed_def)
    show "seen largest rs' \<subseteq> seen largest (map (extend_to s) rs')"
      using ok extend_to_visible(1) by (fastforce simp: seen_def list_all_iff)
  qed
  moreover have "has_range t (map (extend_to s) rs')" if "has_range t rs'" for t
    using that ok extend_to_fst [of _ s] order.trans
    by (fastforce simp: has_range_def list_all_iff range_ok_def)
  ultimately show ?thesis using assms(1) by (simp add: absorbed_def)
qed

lemma absorb_singles_spec:
  assumes "absorbed rs rs'"
    "\<forall>s \<in> set order. has_range s rs \<and> s \<noteq> 0 \<and> s \<noteq> U32_MAX - 1"
  shows "\<exists>rs''. absorb_singles order rs' ss = (rs'', filter (\<lambda>s. s \<notin> set order) ss) \<and>
     absorbed rs rs''"
  using assms
proof (induction order arbitrary: rs' ss)
  case (Cons s order)
  then have s: "has_range s rs" "s \<noteq> 0" "s \<noteq> U32_MAX - 1" by simp_all
  from Cons.prems(1) s have "has_range s rs'" by (simp add: absorbed_def)
  then have "absorb_single s rs' ss = (map (extend_to s) rs', removeAll s ss)"
    by (simp add: absorb_single_eq has_range_touches)
  moreover have "filter (\<lambda>t. t \<notin> set order) (removeAll s ss) = filter (\<lambda>t. t \<notin> set (s # order)) ss"
    by (induction ss) auto
  ultimately show ?case
    using Cons.IH [OF absorbed_step [OF Cons.prems(1) s], of "removeAll s ss"] Cons.prems(2)
    by simp
qed simp

subsection \<open>Merging\<close>

lemma merge_into_append: "l \<noteq> [] \<Longrightarrow> merge_into (st @ l) rs = st @ merge_into l rs"
  by (induction l rs arbitrary: st rule: merge_into.induct)
     (auto simp: Let_def butlast_append simp flip: append_assoc)

lemma merge_into_step:
  "merge_into [l] (r # rs) =
     (if fst r \<le> snd l then merge_into [(fst l, max (snd l) (snd r))] rs
      else l # merge_into [r] rs)"
  using merge_into_append [of "[r]" "[l]" rs] by simp

lemma merge_into_fst: "q \<in> set (merge_into [l] rs) \<Longrightarrow> fst q \<in> fst ` set (l # rs)"
proof (induction rs arbitrary: l)
  case (Cons r rs)
  then show ?case
    using Cons.IH [of "(fst l, max (snd l) (snd r))"] Cons.IH [of r]
    by (cases l; cases r)
       (auto simp: merge_into_step simp del: merge_into.simps(2) split: if_splits)
qed simp

lemma merge_ok:
  "range_ok l \<Longrightarrow> range_ok (fst l, max (snd l) y)"
  using le_max [of y] by (auto simp: range_ok_def less_max_iff_disj max_def)

lemma merge_visible:
  assumes "range_ok l" "range_ok r" "fst l \<le> fst r" "fst r \<le> snd l"
  shows "visible largest (fst l, max (snd l) (snd r)) = visible largest l \<union> visible largest r"
proof -
  have max: "max (snd l) (snd r) = U32_MAX \<longleftrightarrow> snd l = U32_MAX \<or> snd r = U32_MAX"
    using le_max [of "snd l"] le_max [of "snd r"] by (auto simp: max_def)
  have "x \<in> {fst l..<max (snd l) (snd r)} \<longleftrightarrow> x \<in> {fst l..<snd l} \<union> {fst r..<snd r}" for x
    using assms(3,4) by (auto simp: less_max_iff_disj not_less intro: order.trans)
  then have "{fst l..<max (snd l) (snd r)} = {fst l..<snd l} \<union> {fst r..<snd r}" by (rule set_eqI)
  then show ?thesis by (auto simp: visible_def max)
qed

definition gapped :: "range list \<Rightarrow> bool" where
  "gapped rs \<longleftrightarrow> sorted_wrt (\<lambda>r q. snd r < fst q) rs"

lemma seen_Cons: "seen largest (r # rs) = visible largest r \<union> seen largest rs"
  by (simp add: seen_def)

lemma merge_into_spec:
  "sorted (map fst (l # rs)) \<Longrightarrow> list_all range_ok (l # rs) \<Longrightarrow>
     list_all range_ok (merge_into [l] rs) \<and> gapped (merge_into [l] rs) \<and>
     seen largest (merge_into [l] rs) = seen largest (l # rs)"
proof (induction rs arbitrary: l)
  case Nil
  then show ?case by (simp add: gapped_def)
next
  case (Cons r rs)
  let ?m = "(fst l, max (snd l) (snd r))"
  show ?case
  proof (cases "fst r \<le> snd l")
    case True
    have "range_ok ?m" using Cons.prems(2) by (simp add: merge_ok)
    moreover have "visible largest ?m = visible largest l \<union> visible largest r"
      using Cons.prems True by (intro merge_visible) simp_all
    ultimately show ?thesis
      using Cons.prems Cons.IH [of ?m] True
      by (simp add: merge_into_step seen_Cons Un_assoc del: merge_into.simps(2))
  next
    case False
    have "\<forall>q \<in> set (merge_into [r] rs). snd l < fst q"
    proof
      fix q assume "q \<in> set (merge_into [r] rs)"
      then have "fst q \<in> fst ` set (r # rs)" by (rule merge_into_fst)
      with Cons.prems(1) have "fst r \<le> fst q" by auto
      with False show "snd l < fst q" by simp
    qed
    with Cons.prems Cons.IH [of r] False show ?thesis
      by (simp add: merge_into_step seen_Cons gapped_def del: merge_into.simps(2))
  qed
qed

lemma merge_ranges_spec:
  assumes "list_all range_ok rs" "rs \<noteq> []"
  shows "list_all range_ok (merge_ranges rs) \<and> gapped (merge_ranges rs) \<and> merge_ranges rs \<noteq> [] \<and>
     (\<forall>largest. seen largest (merge_ranges rs) = seen largest rs)"
proof -
  have set: "set (sort_key fst rs) = set rs" by simp
  with assms(2) have "sort_key fst rs \<noteq> []" by (metis set_empty)
  then obtain r qs where qs: "sort_key fst rs = r # qs" by (meson list.exhaust)
  have "sorted (map fst (sort_key fst rs))" by (rule sorted_sort_key)
  then have sorted: "sorted (map fst (r # qs))" by (simp only: qs)
  have elems: "set (r # qs) = set rs" using set by (simp only: qs)
  then have ok: "list_all range_ok (r # qs)" using assms(1) by (simp only: list_all_iff)
  have "seen largest (r # qs) = seen largest rs" for largest unfolding seen_def elems ..
  moreover have "merge_into [r] qs \<noteq> []"
  proof (induction qs arbitrary: r)
    case (Cons q qs)
    then show ?case by (simp add: merge_into_step del: merge_into.simps(2))
  qed simp
  moreover have "merge_ranges rs = merge_into [r] qs" by (simp add: merge_ranges_def qs)
  ultimately show ?thesis using merge_into_spec [OF sorted ok] by simp
qed

text \<open>The order in which the unstable sort leaves ranges with equal starts does not matter.\<close>

lemma merge_into_swap:
  assumes "range_ok q" "range_ok r" "fst q = fst r" "range_ok l" "fst l \<le> fst q"
  shows "merge_into [l] (q # r # rs) = merge_into [l] (r # q # rs)"
proof -
  have "fst r \<le> snd q" "fst q \<le> snd r" "fst q \<le> max (snd l) (snd r)" "fst r \<le> max (snd l) (snd q)"
    using assms by (auto simp: range_ok_def le_max_iff_disj)
  then show ?thesis
    using assms(3) by (simp add: merge_into_step max.assoc max.commute [of "snd q"]
        prod_eq_iff del: merge_into.simps(2))
qed

lemma merge_into_swap_head:
  assumes "range_ok q" "range_ok r" "fst q = fst r"
  shows "merge_into [q] (r # rs) = merge_into [r] (q # rs)"
proof -
  have "fst r \<le> snd q" "fst q \<le> snd r" using assms by (auto simp: range_ok_def)
  then show ?thesis
    using assms(3) by (simp add: merge_into_step max.commute del: merge_into.simps(2))
qed

subsection \<open>The result\<close>

lemma rebuild_loop_eq: "rebuild_loop rs [] = (map rebuild rs, [])"
  by (induction rs) simp_all

lemma rebuild_key: "sort_key_of (rebuild r) = fst r"
  by (cases r)
     (simp add: rebuild_def sort_key_of_def SeqOrUid_from_def to_non_zero_u32_def)

lemma SeqOrUid_from_less: "a < b \<Longrightarrow> SeqOrUid_from a < SeqOrUid_from b"
  using le_max [of b] by (auto simp: SeqOrUid_from_def less_SeqOrUid_def)

lemma SeqOrUid_from_mono: "a \<le> b \<Longrightarrow> SeqOrUid_from a \<le> SeqOrUid_from b"
  using SeqOrUid_from_less [of a b] by (cases "a = b") (auto simp: order.strict_iff_order)

lemma range_ok_pred:
  assumes "range_ok (a, b)" "b \<noteq> U32_MAX"
  shows "a \<le> max b 2 - 1 \<and> max b 2 - 1 < b"
proof -
  from assms have a: "a \<noteq> 0" "a < b" by (auto simp: range_ok_def)
  then have "b \<noteq> 0" "b \<noteq> 1"
    by (auto simp: word_less_nat_alt) (metis less_Suc0 unat_1 One_nat_def unat_eq_zero)
  then have "max b 2 - 1 = b - 1" "b - 1 < b" by (simp_all add: max_two_pred pred_less)
  moreover have "a \<le> b - 1"
    using a unat_pred [OF a(2)] by (simp add: word_less_nat_alt word_le_nat_alt)
  ultimately show ?thesis by simp
qed

lemma seq_lo_rebuild: "range_ok q \<Longrightarrow> seq_lo (rebuild q) = SeqOrUid_from (fst q)"
proof -
  obtain a b where q: "q = (a, b)" by (cases q)
  assume ok: "range_ok q"
  have "SeqOrUid_from a \<le> SeqOrUid_from (max b 2 - 1)" if "b \<noteq> U32_MAX"
    using range_ok_pred [of a b] ok that by (simp add: q SeqOrUid_from_mono)
  moreover have "SeqOrUid_from a \<le> Asterisk" by (cases "SeqOrUid_from a") simp_all
  ultimately show ?thesis by (auto simp: q rebuild_def seq_lo_def min_def)
qed

lemma seq_hi_rebuild:
  assumes "range_ok r" "snd r \<noteq> U32_MAX"
  shows "seq_hi (rebuild r) < SeqOrUid_from (snd r)"
proof -
  obtain a b where r: "r = (a, b)" by (cases r)
  with assms have "a < b" by (auto simp: range_ok_def)
  then have "SeqOrUid_from a < SeqOrUid_from b" by (rule SeqOrUid_from_less)
  moreover have "SeqOrUid_from (max b 2 - 1) < SeqOrUid_from b"
    using range_ok_pred [of a b] assms by (simp add: r SeqOrUid_from_less)
  ultimately show ?thesis using assms by (auto simp: r rebuild_def seq_hi_def)
qed

lemma rebuild_gap:
  assumes "range_ok r" "range_ok q" "snd r < fst q"
  shows "seq_hi (rebuild r) < seq_lo (rebuild q)"
proof -
  have "snd r \<noteq> U32_MAX" using assms(3) le_max [of "fst q"] by auto
  then have "seq_hi (rebuild r) < SeqOrUid_from (snd r)" using assms(1) by (intro seq_hi_rebuild)
  also have "\<dots> < SeqOrUid_from (fst q)" by (rule SeqOrUid_from_less) fact
  finally show ?thesis using assms(2) by (simp add: seq_lo_rebuild)
qed

definition small_set :: "SequenceSet \<Rightarrow> bool" where
  "small_set s \<longleftrightarrow> list_all small_sequence (sequences s)"

lemma collected:
  assumes "wf_sequence_set s" "small_set s"
  defines "rs \<equiv> map (\<lambda>seq. seq_range (Sequence_normalize seq)) (sequences s)"
  shows "absorbed rs rs" "seen largest rs = denote largest s \<inter> {..largest}"
    "\<forall>x \<in> set (singles_of (sequences s) []). has_range x rs \<and> x \<noteq> 0 \<and> x \<noteq> U32_MAX - 1"
proof -
  have wf: "wf_sequence seq" "small_sequence seq" if "seq \<in> set (sequences s)" for seq
    using assms(1,2) that by (auto simp: wf_sequence_set_def small_set_def list_all_iff)
  show "absorbed rs rs"
    using wf by (auto simp: absorbed_def rs_def list_all_iff seq_range_ok)
  show "seen largest rs = denote largest s \<inter> {..largest}"
    using wf by (auto simp: seen_def rs_def denote_def seq_range_visible)
  have "x \<noteq> 0 \<and> x \<noteq> U32_MAX - 1"
    if "x \<in> set (singles_of seqs ss)" "\<forall>x \<in> set ss. x \<noteq> 0 \<and> x \<noteq> U32_MAX - 1"
      "\<forall>seq \<in> set seqs. wf_sequence seq \<and> small_sequence seq" for x seqs ss
    using that
  proof (induction seqs arbitrary: ss)
    case (Cons seq seqs)
    have "to_non_zero_u32 i \<noteq> 0 \<and> to_non_zero_u32 i \<noteq> U32_MAX - 1"
      if "Sequence_normalize seq = Single i" for i
      using that Cons.prems(3) normalize_wf [of seq] normalize_small [of seq] to_non_zero_small [of i]
      by auto
    with Cons show ?case by (auto simp: hash_insert_def split: Sequence.splits)
  qed simp
  with wf singles_of_range [of _ "sequences s" "[]"]
  show "\<forall>x \<in> set (singles_of (sequences s) []). has_range x rs \<and> x \<noteq> 0 \<and> x \<noteq> U32_MAX - 1"
    unfolding rs_def by (metis empty_iff empty_set)
qed

lemma normalize_eq:
  assumes "wf_sequence_set s" "small_set s" "visits_all hash_order"
  shows "\<exists>rs. SequenceSet_normalize hash_order s = SequenceSet (map rebuild rs) \<and> rs \<noteq> [] \<and>
     list_all range_ok rs \<and> gapped rs \<and>
     (\<forall>largest. seen largest rs = denote largest s \<inter> {..largest})"
proof -
  let ?rs = "map (\<lambda>seq. seq_range (Sequence_normalize seq)) (sequences s)"
  let ?ss = "singles_of (sequences s) []"
  note collected = collected [OF assms(1,2)]
  have "distinct ?ss" by (rule singles_of_distinct) simp
  with assms(3) have "mset (hash_order ?ss) = mset ?ss" by (rule visits_allD)
  then have order: "set (hash_order ?ss) = set ?ss" by (metis set_mset_mset)
  from absorb_singles_spec [OF collected(1), of "hash_order ?ss" ?ss] collected(3) order
  obtain rs' where absorb: "absorb_singles (hash_order ?ss) ?rs ?ss = (rs', [])"
    and rs': "absorbed ?rs rs'" by (auto simp: filter_False)
  have "?rs \<noteq> []" using assms(1) by (simp add: wf_sequence_set_def)
  moreover have "length rs' = length ?rs" using rs' by (simp add: absorbed_def)
  ultimately have "rs' \<noteq> []" by auto
  with rs' merge_ranges_spec [of rs'] have merged: "list_all range_ok (merge_ranges rs')"
    "gapped (merge_ranges rs')" "merge_ranges rs' \<noteq> []"
    and seen: "seen largest (merge_ranges rs') = denote largest s \<inter> {..largest}" for largest
    using collected(2) by (simp_all add: absorbed_def)
  have "sorted (map sort_key_of (map rebuild (merge_ranges rs')))"
    using merged(1,2)
    by (auto simp: rebuild_key gapped_def sorted_wrt_map list_all_iff range_ok_def o_def
        intro!: sorted_wrt_mono_rel [of _ "\<lambda>r q. snd r < fst q"])
  then have "sort_key sort_key_of (map rebuild (merge_ranges rs')) = map rebuild (merge_ranges rs')"
    by (rule sort_key_id_if_sorted)
  moreover have "mset (hash_order []) = mset []"
    using assms(3) by (rule visits_allD) simp
  then have "hash_order [] = []" by simp
  ultimately have "SequenceSet_normalize hash_order s = SequenceSet (map rebuild (merge_ranges rs'))"
    by (simp add: SequenceSet_normalize_def collect_ranges_eq absorb rebuild_loop_eq)
  with merged seen show ?thesis by blast
qed

lemma rebuild_normal: "range_ok r \<Longrightarrow> Sequence_normalize (rebuild r) = rebuild r"
proof -
  assume ok: "range_ok r"
  obtain a b where r: "r = (a, b)" by (cases r)
  consider (single) "a = b \<or> saturating_add a 1 = b"
    | (star) "\<not> (a = b \<or> saturating_add a 1 = b)" "b = U32_MAX"
    | (range) "\<not> (a = b \<or> saturating_add a 1 = b \<or> b = U32_MAX)" by blast
  then show ?thesis
  proof cases
    case single
    then show ?thesis by (simp add: r rebuild_def Sequence_normalize_def)
  next
    case star
    with ok show ?thesis
      by (auto simp: r rebuild_def Sequence_normalize_def SeqOrUid_from_def less_SeqOrUid_def)
  next
    case range
    then have False: "\<not> (a = b \<or> saturating_add a 1 = b \<or> b = U32_MAX)" by blast
    then have "a \<le> max b 2 - 1" using ok range_ok_pred [of a b] by (simp add: r)
    then have "SeqOrUid_from a \<le> SeqOrUid_from (max b 2 - 1)" by (rule SeqOrUid_from_mono)
    moreover have "a \<noteq> max b 2 - 1"
    proof
      assume "a = max b 2 - 1"
      moreover have less: "0 < unat a" "unat a < unat b"
        using ok False by (auto simp: r range_ok_def word_less_nat_alt unat_gt_0)
      then have "2 \<le> b" by (simp add: word_le_nat_alt)
      moreover have "a \<noteq> U32_MAX"
        using less(2) le_max [of b] by (auto simp: word_le_nat_alt)
      moreover from \<open>2 \<le> b\<close> have "max b 2 = b" by (simp add: max_def)
      ultimately show False using False by (simp add: saturating_succ_max split: if_splits)
    qed
    ultimately have "\<not> SeqOrUid_from (max b 2 - 1) < SeqOrUid_from a"
      "SeqOrUid_from a \<noteq> SeqOrUid_from (max b 2 - 1)"
      using range_ok_pred [of a b] ok False
      by (auto simp: r SeqOrUid_from_def not_less split: if_splits)
    with False show ?thesis by (simp add: r rebuild_def Sequence_normalize_def)
  qed
qed

lemma normalize_result:
  assumes "wf_sequence_set s" "small_set s" "visits_all hash_order"
  defines "t \<equiv> SequenceSet_normalize hash_order s"
  shows "wf_sequence_set t" "denote largest t \<inter> {..largest} = denote largest s \<inter> {..largest}"
    "sorted_wrt (\<lambda>a b. seq_hi a < seq_lo b) (sequences t)"
    "\<forall>seq \<in> set (sequences t). Sequence_normalize seq = seq"
proof -
  from normalize_eq [OF assms(1-3), folded t_def] obtain rs where
    eq: "t = SequenceSet (map rebuild rs)" and rs: "rs \<noteq> []"
    and ok: "list_all range_ok rs" and gaps: "gapped rs"
    and seen: "seen largest rs = denote largest s \<inter> {..largest}" by blast
  have "denote largest (SequenceSet (map rebuild rs)) \<inter> {..largest} =
      (\<Union>r \<in> set rs. seq_denote largest (rebuild r) \<inter> {..largest})"
    by (auto simp: denote_def)
  also have "\<dots> = seen largest rs"
    unfolding seen_def
    by (rule SUP_cong [OF refl]) (use ok rebuild_visible(1) in \<open>auto simp: list_all_iff\<close>)
  finally have "denote largest (SequenceSet (map rebuild rs)) \<inter> {..largest} = seen largest rs" .
  then show "denote largest t \<inter> {..largest} = denote largest s \<inter> {..largest}"
    by (simp add: eq seen)
  show "wf_sequence_set t"
    unfolding eq using ok rs rebuild_visible(2) by (auto simp: wf_sequence_set_def list_all_iff)
  have "sorted_wrt (\<lambda>r q. seq_hi (rebuild r) < seq_lo (rebuild q)) rs"
    using gaps unfolding gapped_def
    by (rule sorted_wrt_mono_rel [rotated]) (use ok in \<open>auto simp: list_all_iff rebuild_gap\<close>)
  then show "sorted_wrt (\<lambda>a b. seq_hi a < seq_lo b) (sequences t)"
    by (simp add: eq sorted_wrt_map)
  show "\<forall>seq \<in> set (sequences t). Sequence_normalize seq = seq"
    using ok by (auto simp: eq list_all_iff rebuild_normal)
qed

text \<open>C7: normalization keeps the meaning of a well-formed set whose explicit numbers are below
  4294967294: for every mailbox, whatever its largest number, the set denotes the same existing
  messages before and after. The result is well-formed and in normal form: its sequences are
  sorted and pairwise disjoint, each ending strictly before the next begins. It does not matter in
  which order the hash set is visited.\<close>

theorem SequenceSet_normalize_spec:
  assumes "wf_sequence_set s" "small_set s" "visits_all hash_order"
  shows "wf_sequence_set (SequenceSet_normalize hash_order s) \<and>
    denote largest (SequenceSet_normalize hash_order s) \<inter> {..largest} =
      denote largest s \<inter> {..largest} \<and>
    sorted_wrt (\<lambda>a b. seq_hi a < seq_lo b) (sequences (SequenceSet_normalize hash_order s))"
  using normalize_result [OF assms] by blast

lemma SequenceSet_normalize_spec_witness:
  "denote 9 (SequenceSet_normalize (\<lambda>xs. xs)
      (SequenceSet [Range (Value 5) (Value 3), Single (Value 6), Single Asterisk])) \<inter> {..9} =
    denote 9 (SequenceSet [Range (Value 5) (Value 3), Single (Value 6), Single Asterisk]) \<inter> {..9}"
  using SequenceSet_normalize_spec
    [of "SequenceSet [Range (Value 5) (Value 3), Single (Value 6), Single Asterisk]" "\<lambda>xs. xs" 9]
  by (simp add: wf_sequence_set_def small_set_def visits_all_def U32_MAX_def)


text \<open>\<open>TryFrom<Range<NonZeroU32>>\<close> does not look at the start of the range.\<close>

lemma Range_NonZeroU32_start_ignored:
  "Sequence_try_from_Range_NonZeroU32 5 10 = Inr (Range (Value 1) (Value 9)) \<and>
   Sequence_try_from_Range 0 5 10 = Inr (Range (Value 5) (Value 9))"
  by code_simp

end
