(* ===== verification/Imap_Ranges.thy ===== *)
theory Imap_Ranges
  imports Imap_Sequence
begin

text \<open>
  Rust's ranges as sequence sets: the conversions of \<open>sequence.rs\<close> that \<open>Imap_Sequence\<close> does not
  need, and which messages a converted range denotes.
\<close>

section \<open>Conversions\<close>

text \<open>The instances for the integer types, with the smallest value of the type as in
  \<open>Sequence_try_from_Range\<close>.\<close>

definition Sequence_try_from_RangeTo :: "int \<Rightarrow> int \<Rightarrow> (ValidationError, Sequence) result" where
  "Sequence_try_from_RangeTo lowest fin =
     res_bind (SeqOrUid_try_from_num (max lowest (fin - 1))) (\<lambda>b. Inr (Range (SeqOrUid_from 1) b))"

definition Sequence_try_from_RangeToInclusive :: "int \<Rightarrow> (ValidationError, Sequence) result" where
  "Sequence_try_from_RangeToInclusive fin =
     res_bind (SeqOrUid_try_from_num fin) (\<lambda>b. Inr (Range (SeqOrUid_from 1) b))"

text \<open>The instances for \<open>NonZeroU32\<close>.\<close>

definition Sequence_from_SeqOrUid :: "SeqOrUid \<Rightarrow> Sequence" where
  "Sequence_from_SeqOrUid value = Single value"

definition Sequence_from_NonZeroU32 :: "u32 \<Rightarrow> Sequence" where
  "Sequence_from_NonZeroU32 value = Single (SeqOrUid_from value)"

definition Sequence_from_RangeFrom_NonZeroU32 :: "u32 \<Rightarrow> Sequence" where
  "Sequence_from_RangeFrom_NonZeroU32 range_start = Range (SeqOrUid_from range_start) Asterisk"

definition Sequence_from_RangeFull :: Sequence where
  "Sequence_from_RangeFull = Sequence_from_RangeFrom_NonZeroU32 1"

definition Sequence_try_from_RangeTo_NonZeroU32 :: "u32 \<Rightarrow> (ValidationError, Sequence) result" where
  "Sequence_try_from_RangeTo_NonZeroU32 range_end = Sequence_try_from_Range_NonZeroU32 1 range_end"

definition Sequence_from_RangeToInclusive_NonZeroU32 :: "u32 \<Rightarrow> Sequence" where
  "Sequence_from_RangeToInclusive_NonZeroU32 range_end =
     Sequence_from_RangeInclusive_NonZeroU32 1 range_end"

text \<open>Sets: of one sequence, of the sequence that something converts to, of a list of numbers.\<close>

definition SequenceSet_from :: "Sequence \<Rightarrow> SequenceSet" where
  "SequenceSet_from seq = SequenceSet [seq]"

definition SequenceSet_from_t :: "('t \<Rightarrow> Sequence) \<Rightarrow> 't \<Rightarrow> SequenceSet" where
  "SequenceSet_from_t sequence_from value = SequenceSet_from (sequence_from value)"

definition SequenceSet_try_from_t ::
  "('t \<Rightarrow> (ValidationError, Sequence) result) \<Rightarrow> 't \<Rightarrow> (ValidationError, SequenceSet) result" where
  "SequenceSet_try_from_t sequence_try_from value =
     res_bind (sequence_try_from value) (\<lambda>seq. Inr (SequenceSet_from seq))"

definition SequenceSet_try_from_NonZeroU32s :: "u32 list \<Rightarrow> (ValidationError, SequenceSet) result" where
  "SequenceSet_try_from_NonZeroU32s seqs =
     map_ok SequenceSet (map_err (\<lambda>_. ValidationError Empty) (VecN_try_from 1 (map Sequence_from_NonZeroU32 seqs)))"

section \<open>What they denote\<close>

lemma try_from_num_iff: "SeqOrUid_try_from_num v = Inr a \<longleftrightarrow> 0 < v \<and> v < 2 ^ 32 \<and> a = Value (of_int v)"
  by (auto simp: SeqOrUid_try_from_num_def)

lemma uint_of_num: "0 \<le> v \<Longrightarrow> v < 2 ^ 32 \<Longrightarrow> uint (of_int v :: u32) = v"
  by (simp add: uint_word_of_int)

lemma seq_denote_Range: "seq_denote largest (Range (Value a) (Value b)) =
    {n. min (uint a) (uint b) \<le> uint n \<and> uint n \<le> max (uint a) (uint b)}"
  by (auto simp: seq_denote_def expand_def word_le_def min_def max_def)

lemma seq_denote_Range_nums:
  assumes "0 \<le> a" "a < 2 ^ 32" "0 \<le> b" "b < 2 ^ 32"
  shows "seq_denote largest (Range (Value (of_int a)) (Value (of_int b))) =
    {n. min a b \<le> uint n \<and> uint n \<le> max a b}"
  using assms by (simp add: seq_denote_Range uint_of_num [simplified])

lemma range_denotes:
  assumes "lowest \<le> 0" "Sequence_try_from_Range lowest start fin = Inr s"
  shows "seq_denote largest s = {n. min start (fin - 1) \<le> uint n \<and> uint n \<le> max start (fin - 1)}"
proof -
  have "s = Range (Value (of_int start)) (Value (of_int (fin - 1)))" "0 < start" "start < 2 ^ 32"
    "0 < fin - 1" "fin - 1 < 2 ^ 32"
    using assms by (auto simp: Sequence_try_from_Range_def try_from_num_iff max_def split: if_splits)
  with seq_denote_Range_nums [of start "fin - 1" largest] show ?thesis by (simp only: less_imp_le)
qed

lemma Range_NonZeroU32_denotes:
  assumes "1 < e"
  shows "\<exists>s. Sequence_try_from_Range_NonZeroU32 a e = Inr s \<and>
    seq_denote largest s = {n. 1 \<le> uint n \<and> uint n < uint e}"
proof -
  have e: "1 < uint e" "uint e < 2 ^ 32"
    using assms uint_lt2p [of e] by (simp_all add: word_less_def)
  then have "uint (saturating_sub e 1) = uint e - 1"
    using assms by (simp add: saturating_sub_def uint_sub_if' word_le_def)
  moreover from e have "seq_denote largest (Range (Value (of_int 1)) (Value (of_int (uint e - 1)))) =
      {n. 1 \<le> uint n \<and> uint n < uint e}"
    by (subst seq_denote_Range_nums) (auto simp: min_def max_def)
  ultimately show ?thesis
    using e by (simp add: Sequence_try_from_Range_NonZeroU32_def SeqOrUid_try_from_num_def
        SeqOrUid_from_def U32_MAX_def)
qed



end
