(* ===== verification/Imap_Names.thy ===== *)
theory Imap_Names
  imports Imap_Core
begin

text \<open>
  The enumerations that are written as atoms on the wire and read back without regard to case:
  \<open>imap-types/src/flag.rs\<close>, \<open>auth.rs\<close>, \<open>response.rs\<close> (\<open>Capability\<close>) and the extensions
  \<open>quota.rs\<close> (\<open>Resource\<close>), \<open>compress.rs\<close>, \<open>enable.rs\<close>, \<open>utf8.rs\<close>, \<open>thread.rs\<close> and \<open>sort.rs\<close>
  (the algorithms) and \<open>condstore_qresync.rs\<close>. The locale \<open>named_enum\<close> is what a client of such a
  type relies on; each type discharges it from its own tables.
\<close>

section \<open>The contract\<close>

lemma code_char_of: "n < 256 \<Longrightarrow> code (char_of n) = n"
  by (simp add: take_bit_nat_eq_self)

lemma ascii_lower_upper [simp]: "ascii_lower (ascii_upper c) = ascii_lower c"
proof (cases "97 \<le> code c \<and> code c \<le> 122")
  case True
  then have *: "ascii_upper c = char_of (code c - 32)" "code (char_of (code c - 32) :: char) = code c - 32"
    by (auto simp only: ascii_upper_def code_char_of if_True simp_thms)
  with True have "ascii_lower (char_of (code c - 32)) = char_of (code c - 32 + 32)"
    by (simp only: ascii_lower_def) auto
  with True * show ?thesis by (simp add: ascii_lower_def)
qed (auto simp: ascii_upper_def)

lemma ascii_lower_lower [simp]: "ascii_lower (ascii_lower c) = ascii_lower c"
proof (cases "65 \<le> code c \<and> code c \<le> 90")
  case True
  then have *: "ascii_lower c = char_of (code c + 32)" "code (char_of (code c + 32) :: char) = code c + 32"
    by (auto simp only: ascii_lower_def code_char_of if_True simp_thms)
  with True show ?thesis by (simp only: * ascii_lower_def [of "char_of (code c + 32)"]) auto
qed (auto simp: ascii_lower_def)

lemma eq_ignore_case_upper: "to_ascii_uppercase s = t \<Longrightarrow> eq_ignore_ascii_case t s"
  by (auto simp: eq_ignore_ascii_case_def)

lemma eq_ignore_case_lower: "to_ascii_lowercase s = to_ascii_lowercase t \<Longrightarrow> eq_ignore_ascii_case t s"
  by (simp add: eq_ignore_ascii_case_def)

lemma from_upper: "to_ascii_uppercase s = t \<Longrightarrow> to_ascii_uppercase d = t \<Longrightarrow> eq_ignore_ascii_case d s"
  by (metis eq_ignore_case_upper eq_ignore_ascii_case_def)

lemma from_lower: "to_ascii_lowercase s = t \<Longrightarrow> to_ascii_lowercase d = t \<Longrightarrow> eq_ignore_ascii_case d s"
  by (simp add: eq_ignore_ascii_case_def)

text \<open>Evaluation of the case mappings on literal bytes.\<close>

lemmas case_simps = ascii_lower_def ascii_upper_def char_of_eq_iff

text \<open>One arm of a \<open>match\<close> on the upper-cased or lower-cased name.\<close>

lemma upper_arm:
  "to_ascii_uppercase (d x) = t \<Longrightarrow> eq_ignore_ascii_case (d y) s \<Longrightarrow>
     eq_ignore_ascii_case (d (if to_ascii_uppercase s = t then x else y)) s"
  using from_upper [of s t "d x"] by simp

lemma lower_arm:
  "to_ascii_lowercase (d x) = t \<Longrightarrow> eq_ignore_ascii_case (d y) s \<Longrightarrow>
     eq_ignore_ascii_case (d (if to_ascii_lowercase s = t then x else y)) s"
  using from_lower [of s t "d x"] by simp

text \<open>Evaluation of the byte classes on literal bytes.\<close>

lemmas atom_simps = atom.valid_def indicator_defs

lemma eq_ignore_case_refl [simp]: "eq_ignore_ascii_case s s"
  by (simp add: eq_ignore_ascii_case_def)

locale named_enum =
  fixes from_atom :: "Atom \<Rightarrow> 'a"
    and display :: "'a \<Rightarrow> bytes"
    and wf :: "'a \<Rightarrow> bool"
  assumes display_from: "wf_atom a \<Longrightarrow> eq_ignore_ascii_case (display (from_atom a)) (atom_inner a)"
    and from_wf: "wf_atom a \<Longrightarrow> wf (from_atom a)"
    and from_display: "wf x \<Longrightarrow> from_atom (Atom (display x)) = x"
    and display_valid: "wf x \<Longrightarrow> atom.valid (display x)"
begin

definition parse :: "bytes \<Rightarrow> (ValidationError, 'a) result" where
  "parse s = map_ok from_atom (Atom_try_from s)"

lemma parse_display: "wf x \<Longrightarrow> parse (display x) = Inr x"
  by (simp add: parse_def atom.try_from_ok display_valid from_display)

lemma parse_ok: "parse s = Inr x \<Longrightarrow> wf x \<and> eq_ignore_ascii_case (display x) s"
  using display_from [of "Atom s"] from_wf [of "Atom s"]
  by (auto simp: parse_def atom.try_from_iff)

lemma parse_stable: "parse s = Inr x \<Longrightarrow> parse (display x) = Inr x"
  using parse_ok parse_display by blast

lemma display_inj: "wf x \<Longrightarrow> wf y \<Longrightarrow> display x = display y \<longleftrightarrow> x = y"
  using from_display by metis

end

section \<open>Flags\<close>

datatype Flag =
    Flag_Answered | Flag_Deleted | Flag_Draft | Flag_Flagged | Flag_Seen
  | Flag_Extension Atom | Flag_Keyword Atom

definition Flag_system :: "Atom \<Rightarrow> Flag" where
  "Flag_system atom =
     (let s = to_ascii_lowercase (atom_inner atom)
      in if s = ''answered'' then Flag_Answered
      else if s = ''deleted'' then Flag_Deleted
      else if s = ''draft'' then Flag_Draft
      else if s = ''flagged'' then Flag_Flagged
      else if s = ''seen'' then Flag_Seen
      else Flag_Extension atom)"

definition Flag_keyword :: "Atom \<Rightarrow> Flag" where
  "Flag_keyword atom = Flag_Keyword atom"

fun strip_prefix :: "bytes \<Rightarrow> bytes \<Rightarrow> bytes option" where
  "strip_prefix p s = (if starts_with p s then Some (drop (length p) s) else None)"

definition Flag_try_from :: "bytes \<Rightarrow> (ValidationError, Flag) result" where
  "Flag_try_from value =
     (case strip_prefix [backslash] value of
        Some value \<Rightarrow> map_ok Flag_system (Atom_try_from value)
      | None \<Rightarrow> map_ok Flag_keyword (Atom_try_from value))"

fun Flag_display :: "Flag \<Rightarrow> bytes" where
  "Flag_display Flag_Answered = backslash # ''Answered''"
| "Flag_display Flag_Deleted = backslash # ''Deleted''"
| "Flag_display Flag_Draft = backslash # ''Draft''"
| "Flag_display Flag_Flagged = backslash # ''Flagged''"
| "Flag_display Flag_Seen = backslash # ''Seen''"
| "Flag_display (Flag_Extension other) = backslash # atom_inner other"
| "Flag_display (Flag_Keyword atom) = atom_inner atom"

datatype FlagFetch = FlagFetch_Flag Flag | FlagFetch_Recent

datatype FlagPerm = FlagPerm_Flag Flag | FlagPerm_Asterisk

datatype FlagNameAttribute =
    Noinferiors | Noselect | Marked | Unmarked | FlagNameAttribute_Extension Atom

definition is_selectability :: "FlagNameAttribute \<Rightarrow> bool" where
  "is_selectability a = (case a of Noselect \<Rightarrow> True | Marked \<Rightarrow> True | Unmarked \<Rightarrow> True | _ \<Rightarrow> False)"

definition FlagNameAttribute_from :: "Atom \<Rightarrow> FlagNameAttribute" where
  "FlagNameAttribute_from atom =
     (let s = to_ascii_lowercase (atom_inner atom)
      in if s = ''noinferiors'' then Noinferiors
      else if s = ''noselect'' then Noselect
      else if s = ''marked'' then Marked
      else if s = ''unmarked'' then Unmarked
      else FlagNameAttribute_Extension atom)"

fun FlagNameAttribute_display :: "FlagNameAttribute \<Rightarrow> bytes" where
  "FlagNameAttribute_display Noinferiors = backslash # ''Noinferiors''"
| "FlagNameAttribute_display Noselect = backslash # ''Noselect''"
| "FlagNameAttribute_display Marked = backslash # ''Marked''"
| "FlagNameAttribute_display Unmarked = backslash # ''Unmarked''"
| "FlagNameAttribute_display (FlagNameAttribute_Extension extension) =
     backslash # atom_inner extension"

text \<open>An extension is only built by \<open>system\<close> or \<open>from\<close>, its field being private: it is never one
  of the known names.\<close>

fun wf_flag :: "Flag \<Rightarrow> bool" where
  "wf_flag (Flag_Extension a) \<longleftrightarrow> wf_atom a \<and> Flag_system a = Flag_Extension a"
| "wf_flag (Flag_Keyword a) \<longleftrightarrow> wf_atom a"
| "wf_flag _ \<longleftrightarrow> True"

fun wf_name_attribute :: "FlagNameAttribute \<Rightarrow> bool" where
  "wf_name_attribute (FlagNameAttribute_Extension a) \<longleftrightarrow>
     wf_atom a \<and> FlagNameAttribute_from a = FlagNameAttribute_Extension a"
| "wf_name_attribute _ \<longleftrightarrow> True"

lemma atom_not_backslash: "atom.valid s \<Longrightarrow> \<not> starts_with [backslash] s"
proof
  assume "atom.valid s" "starts_with [backslash] s"
  then have "is_atom_char backslash"
    by (cases s) (auto simp: valid_defs starts_with_def)
  then show False
    by (simp add: is_atom_char_def is_atom_specials_iff is_quoted_specials_def)
qed

text \<open>Behind its backslash, a system flag obeys the contract; keywords are plain atoms.\<close>

definition system_flag :: "Flag \<Rightarrow> bool" where
  "system_flag f \<longleftrightarrow> wf_flag f \<and> (\<forall>a. f \<noteq> Flag_Keyword a)"

interpretation flag_names: named_enum Flag_system "\<lambda>f. tl (Flag_display f)" system_flag
proof
  fix a
  assume "wf_atom a"
  show "eq_ignore_ascii_case (tl (Flag_display (Flag_system a))) (atom_inner a)"
    unfolding Flag_system_def Let_def
    by (intro lower_arm [where d = "\<lambda>f. tl (Flag_display f)"]) (simp_all add: case_simps)
  show "system_flag (Flag_system a)"
    using \<open>wf_atom a\<close> by (auto simp: Flag_system_def Let_def system_flag_def)
next
  fix f
  assume wf: "system_flag f"
  then show "Flag_system (Atom (tl (Flag_display f))) = f"
    by (cases f) (simp_all add: Flag_system_def system_flag_def case_simps)
  show "atom.valid (tl (Flag_display f))"
    using wf by (cases f) (simp_all add: system_flag_def atom_simps)
qed

lemma system_flag_display: "system_flag f \<Longrightarrow> Flag_display f = backslash # tl (Flag_display f)"
  by (cases f) (simp_all add: system_flag_def)

lemma Flag_try_from_backslash:
  "Flag_try_from (backslash # s) = flag_names.parse s"
  by (simp add: Flag_try_from_def flag_names.parse_def starts_with_def)

lemma Flag_try_from_plain:
  "\<not> starts_with [backslash] s \<Longrightarrow> Flag_try_from s = map_ok Flag_keyword (Atom_try_from s)"
  by (simp add: Flag_try_from_def)

lemma Flag_display_parse: "wf_flag f \<Longrightarrow> Flag_try_from (Flag_display f) = Inr f"
proof (cases "system_flag f")
  case True
  then show ?thesis
    by (metis system_flag_display Flag_try_from_backslash flag_names.parse_display)
next
  case False
  moreover assume "wf_flag f"
  ultimately obtain a where "f = Flag_Keyword a" "wf_atom a"
    by (auto simp: system_flag_def)
  then show ?thesis
    by (simp add: Flag_try_from_plain atom_not_backslash atom.try_from_ok Flag_keyword_def)
qed

lemma Flag_parse_display:
  assumes "Flag_try_from s = Inr f"
  shows "wf_flag f \<and> eq_ignore_ascii_case (Flag_display f) s"
proof (cases "starts_with [backslash] s")
  case True
  then obtain t where s: "s = backslash # t" by (cases s) (auto simp: starts_with_def)
  with assms have f: "system_flag f" "eq_ignore_ascii_case (tl (Flag_display f)) t"
    using flag_names.parse_ok [of t f] by (auto simp: Flag_try_from_backslash)
  then have "eq_ignore_ascii_case (backslash # tl (Flag_display f)) s"
    by (simp add: s eq_ignore_ascii_case_def)
  with f show ?thesis by (simp add: system_flag_def flip: system_flag_display)
next
  case False
  with assms show ?thesis
    by (auto simp: Flag_try_from_plain Flag_keyword_def atom.try_from_iff)
qed

text \<open>C35: Printing a flag and reading it back gives the flag, for system flags, extensions and
  keywords; and whatever is read is well formed and prints as the bytes it was read from up to
  the case of letters.\<close>

theorem Flag_roundtrip:
  "(wf_flag f \<longrightarrow> Flag_try_from (Flag_display f) = Inr f) \<and>
   (Flag_try_from s = Inr g \<longrightarrow> wf_flag g \<and> eq_ignore_ascii_case (Flag_display g) s)"
  using Flag_display_parse Flag_parse_display by blast

theorem Flag_roundtrip_witness:
  "Flag_try_from ''$Forwarded'' = Inr (Flag_Keyword (Atom ''$Forwarded'')) \<and>
   eq_ignore_ascii_case (Flag_display Flag_Seen) (backslash # ''sEEn'')"
proof -
  have "wf_flag (Flag_Keyword (Atom ''$Forwarded''))" by (simp add: valid_defs indicator_defs)
  moreover have "Flag_try_from (backslash # ''sEEn'') = Inr Flag_Seen" by code_simp
  ultimately show ?thesis
    using Flag_roundtrip [of "Flag_Keyword (Atom ''$Forwarded'')" "backslash # ''sEEn''" Flag_Seen]
    by simp
qed

text \<open>The name attributes of a \<open>LIST\<close> response have no \<open>try_from\<close> of their own; behind the
  backslash they obey the same contract.\<close>

interpretation name_attributes:
  named_enum FlagNameAttribute_from "\<lambda>f. tl (FlagNameAttribute_display f)" wf_name_attribute
proof
  fix a
  assume "wf_atom a"
  show "eq_ignore_ascii_case (tl (FlagNameAttribute_display (FlagNameAttribute_from a))) (atom_inner a)"
    unfolding FlagNameAttribute_from_def Let_def
    by (intro lower_arm [where d = "\<lambda>f. tl (FlagNameAttribute_display f)"]) (simp_all add: case_simps)
  show "wf_name_attribute (FlagNameAttribute_from a)"
    using \<open>wf_atom a\<close> by (auto simp: FlagNameAttribute_from_def Let_def)
next
  fix f
  assume wf: "wf_name_attribute f"
  then show "FlagNameAttribute_from (Atom (tl (FlagNameAttribute_display f))) = f"
    by (cases f) (simp_all add: FlagNameAttribute_from_def case_simps)
  show "atom.valid (tl (FlagNameAttribute_display f))"
    using wf by (cases f) (simp_all add: atom_simps)
qed

section \<open>Authentication mechanisms\<close>

datatype AuthMechanism =
    Plain | Login | OAuthBearer | XOAuth2
  | ScramSha1 | ScramSha1Plus | ScramSha256 | ScramSha256Plus
  | ScramSha3_512 | ScramSha3_512Plus
  | AuthMechanism_Other Atom

definition AuthMechanism_from :: "Atom \<Rightarrow> AuthMechanism" where
  "AuthMechanism_from atom =
     (let s = to_ascii_uppercase (atom_inner atom)
      in if s = ''PLAIN'' then Plain
      else if s = ''LOGIN'' then Login
      else if s = ''OAUTHBEARER'' then OAuthBearer
      else if s = ''XOAUTH2'' then XOAuth2
      else if s = ''SCRAM-SHA-1'' then ScramSha1
      else if s = ''SCRAM-SHA-1-PLUS'' then ScramSha1Plus
      else if s = ''SCRAM-SHA-256'' then ScramSha256
      else if s = ''SCRAM-SHA-256-PLUS'' then ScramSha256Plus
      else AuthMechanism_Other atom)"

fun AuthMechanism_as_ref :: "AuthMechanism \<Rightarrow> bytes" where
  "AuthMechanism_as_ref Plain = ''PLAIN''"
| "AuthMechanism_as_ref Login = ''LOGIN''"
| "AuthMechanism_as_ref OAuthBearer = ''OAUTHBEARER''"
| "AuthMechanism_as_ref XOAuth2 = ''XOAUTH2''"
| "AuthMechanism_as_ref ScramSha1 = ''SCRAM-SHA-1''"
| "AuthMechanism_as_ref ScramSha1Plus = ''SCRAM-SHA-1-PLUS''"
| "AuthMechanism_as_ref ScramSha256 = ''SCRAM-SHA-256''"
| "AuthMechanism_as_ref ScramSha256Plus = ''SCRAM-SHA-256-PLUS''"
| "AuthMechanism_as_ref ScramSha3_512 = ''SCRAM-SHA3-512''"
| "AuthMechanism_as_ref ScramSha3_512Plus = ''SCRAM-SHA3-512-PLUS''"
| "AuthMechanism_as_ref (AuthMechanism_Other other) = atom_inner other"

definition AuthMechanism_try_from :: "bytes \<Rightarrow> (ValidationError, AuthMechanism) result" where
  "AuthMechanism_try_from value = map_ok AuthMechanism_from (Atom_try_from value)"

text \<open>The field of \<open>AuthMechanismOther\<close> is private and only filled by \<open>from\<close>. The two SHA-3
  mechanisms are well-formed values, but no byte string is read as one of them.\<close>

fun wf_auth :: "AuthMechanism \<Rightarrow> bool" where
  "wf_auth (AuthMechanism_Other a) \<longleftrightarrow> wf_atom a \<and> AuthMechanism_from a = AuthMechanism_Other a"
| "wf_auth _ \<longleftrightarrow> True"

definition readable_auth :: "AuthMechanism \<Rightarrow> bool" where
  "readable_auth m \<longleftrightarrow> wf_auth m \<and> m \<noteq> ScramSha3_512 \<and> m \<noteq> ScramSha3_512Plus"

lemma auth_display_valid: "wf_auth m \<Longrightarrow> atom.valid (AuthMechanism_as_ref m)"
  by (cases m) (simp_all add: atom_simps)

interpretation auth_names: named_enum AuthMechanism_from AuthMechanism_as_ref readable_auth
proof
  fix a
  assume "wf_atom a"
  show "eq_ignore_ascii_case (AuthMechanism_as_ref (AuthMechanism_from a)) (atom_inner a)"
    unfolding AuthMechanism_from_def Let_def
    by (intro upper_arm [where d = AuthMechanism_as_ref]) (simp_all add: case_simps)
  show "readable_auth (AuthMechanism_from a)"
    using \<open>wf_atom a\<close> by (auto simp: readable_auth_def AuthMechanism_from_def Let_def)
next
  fix m
  assume "readable_auth m"
  then show "AuthMechanism_from (Atom (AuthMechanism_as_ref m)) = m"
    by (cases m) (simp_all add: readable_auth_def AuthMechanism_from_def case_simps)
  show "atom.valid (AuthMechanism_as_ref m)"
    using \<open>readable_auth m\<close> by (simp add: readable_auth_def auth_display_valid)
qed

section \<open>Quota resources, compression, \<open>ENABLE\<close> names, algorithms\<close>

datatype Resource =
    Storage | Message | Resource_Mailbox | AnnotationStorage | Resource_Other Atom

definition Resource_from :: "Atom \<Rightarrow> Resource" where
  "Resource_from atom =
     (let s = to_ascii_uppercase (atom_inner atom)
      in if s = ''STORAGE'' then Storage
      else if s = ''MESSAGE'' then Message
      else if s = ''MAILBOX'' then Resource_Mailbox
      else if s = ''ANNOTATION-STORAGE'' then AnnotationStorage
      else Resource_Other atom)"

fun Resource_display :: "Resource \<Rightarrow> bytes" where
  "Resource_display Storage = ''STORAGE''"
| "Resource_display Message = ''MESSAGE''"
| "Resource_display Resource_Mailbox = ''MAILBOX''"
| "Resource_display AnnotationStorage = ''ANNOTATION-STORAGE''"
| "Resource_display (Resource_Other other) = atom_inner other"

definition Resource_try_from :: "bytes \<Rightarrow> (ValidationError, Resource) result" where
  "Resource_try_from value = map_ok Resource_from (Atom_try_from value)"

fun wf_resource :: "Resource \<Rightarrow> bool" where
  "wf_resource (Resource_Other a) \<longleftrightarrow> wf_atom a \<and> Resource_from a = Resource_Other a"
| "wf_resource _ \<longleftrightarrow> True"

interpretation resource_names: named_enum Resource_from Resource_display wf_resource
proof
  fix a
  assume "wf_atom a"
  show "eq_ignore_ascii_case (Resource_display (Resource_from a)) (atom_inner a)"
    unfolding Resource_from_def Let_def
    by (intro upper_arm [where d = Resource_display]) (simp_all add: case_simps)
  show "wf_resource (Resource_from a)"
    using \<open>wf_atom a\<close> by (auto simp: Resource_from_def Let_def)
next
  fix m
  assume "wf_resource m"
  then show "Resource_from (Atom (Resource_display m)) = m"
    by (cases m) (simp_all add: Resource_from_def case_simps)
  show "atom.valid (Resource_display m)"
    using \<open>wf_resource m\<close> by (cases m) (simp_all add: atom_simps)
qed

record QuotaGet =
  qg_resource :: Resource
  qg_usage :: u64
  qg_limit :: u64

record QuotaSet =
  qs_resource :: Resource
  qs_limit :: u64

datatype CompressionAlgorithm = Deflate

fun CompressionAlgorithm_display :: "CompressionAlgorithm \<Rightarrow> bytes" where
  "CompressionAlgorithm_display Deflate = ''DEFLATE''"

definition CompressionAlgorithm_try_from :: "Atom \<Rightarrow> (ValidationError, CompressionAlgorithm) result" where
  "CompressionAlgorithm_try_from atom =
     (if to_ascii_lowercase (atom_inner atom) = ''deflate'' then Inr Deflate
      else Inl (ValidationError Invalid))"

datatype Utf8Kind = Utf8Kind_Accept | Utf8Kind_Only

fun Utf8Kind_display :: "Utf8Kind \<Rightarrow> bytes" where
  "Utf8Kind_display Utf8Kind_Accept = ''ACCEPT''"
| "Utf8Kind_display Utf8Kind_Only = ''ONLY''"

lemma utf8_kind_atom [simp]: "list_all is_atom_char (Utf8Kind_display k)"
  by (cases k) (simp_all add: indicator_defs)

datatype CapabilityEnable =
    Enable_CondStore | Enable_Metadata | Enable_MetadataServer | Enable_Utf8 Utf8Kind
  | Enable_Other Atom

definition CapabilityEnable_from :: "Atom \<Rightarrow> CapabilityEnable" where
  "CapabilityEnable_from atom =
     (let s = to_ascii_lowercase (atom_inner atom)
      in if s = ''condstore'' then Enable_CondStore
      else if s = ''metadata'' then Enable_Metadata
      else if s = ''metadata-server'' then Enable_MetadataServer
      else if s = ''utf8=accept'' then Enable_Utf8 Utf8Kind_Accept
      else if s = ''utf8=only'' then Enable_Utf8 Utf8Kind_Only
      else Enable_Other atom)"

fun CapabilityEnable_display :: "CapabilityEnable \<Rightarrow> bytes" where
  "CapabilityEnable_display Enable_CondStore = ''CONDSTORE''"
| "CapabilityEnable_display Enable_Metadata = ''METADATA''"
| "CapabilityEnable_display Enable_MetadataServer = ''METADATA-SERVER''"
| "CapabilityEnable_display (Enable_Utf8 kind) = ''UTF8='' @ Utf8Kind_display kind"
| "CapabilityEnable_display (Enable_Other other) = atom_inner other"

fun wf_enable :: "CapabilityEnable \<Rightarrow> bool" where
  "wf_enable (Enable_Other a) \<longleftrightarrow> wf_atom a \<and> CapabilityEnable_from a = Enable_Other a"
| "wf_enable _ \<longleftrightarrow> True"

interpretation enable_names: named_enum CapabilityEnable_from CapabilityEnable_display wf_enable
proof
  fix a
  assume "wf_atom a"
  show "eq_ignore_ascii_case (CapabilityEnable_display (CapabilityEnable_from a)) (atom_inner a)"
    unfolding CapabilityEnable_from_def Let_def
    by (intro lower_arm [where d = CapabilityEnable_display]) (simp_all add: case_simps)
  show "wf_enable (CapabilityEnable_from a)"
    using \<open>wf_atom a\<close> by (auto simp: CapabilityEnable_from_def Let_def)
next
  fix m
  assume wf: "wf_enable m"
  show "CapabilityEnable_from (Atom (CapabilityEnable_display m)) = m"
  proof (cases m)
    case (Enable_Utf8 kind)
    then show ?thesis by (cases kind) (simp_all add: CapabilityEnable_from_def case_simps)
  qed (use wf in \<open>simp_all add: CapabilityEnable_from_def case_simps\<close>)
  show "atom.valid (CapabilityEnable_display m)"
    using wf by (cases m) (auto simp: atom_simps elim: Utf8Kind_display.elims)
qed

datatype ThreadingAlgorithm = OrderedSubject | References | ThreadingAlgorithm_Other Atom

text \<open>The source lower-cases with the Unicode \<open>to_lowercase\<close>, which on an atom, being ASCII, is
  the ASCII mapping.\<close>

definition ThreadingAlgorithm_from :: "Atom \<Rightarrow> ThreadingAlgorithm" where
  "ThreadingAlgorithm_from value =
     (let s = to_ascii_lowercase (atom_inner value)
      in if s = ''orderedsubject'' then OrderedSubject
      else if s = ''references'' then References
      else ThreadingAlgorithm_Other value)"

fun ThreadingAlgorithm_display :: "ThreadingAlgorithm \<Rightarrow> bytes" where
  "ThreadingAlgorithm_display OrderedSubject = ''ORDEREDSUBJECT''"
| "ThreadingAlgorithm_display References = ''REFERENCES''"
| "ThreadingAlgorithm_display (ThreadingAlgorithm_Other other) = atom_inner other"

fun wf_threading :: "ThreadingAlgorithm \<Rightarrow> bool" where
  "wf_threading (ThreadingAlgorithm_Other a) \<longleftrightarrow>
     wf_atom a \<and> ThreadingAlgorithm_from a = ThreadingAlgorithm_Other a"
| "wf_threading _ \<longleftrightarrow> True"

interpretation threading_names:
  named_enum ThreadingAlgorithm_from ThreadingAlgorithm_display wf_threading
proof
  fix a
  assume "wf_atom a"
  show "eq_ignore_ascii_case (ThreadingAlgorithm_display (ThreadingAlgorithm_from a)) (atom_inner a)"
    unfolding ThreadingAlgorithm_from_def Let_def
    by (intro lower_arm [where d = ThreadingAlgorithm_display]) (simp_all add: case_simps)
  show "wf_threading (ThreadingAlgorithm_from a)"
    using \<open>wf_atom a\<close> by (auto simp: ThreadingAlgorithm_from_def Let_def)
next
  fix m
  assume "wf_threading m"
  then show "ThreadingAlgorithm_from (Atom (ThreadingAlgorithm_display m)) = m"
    by (cases m) (simp_all add: ThreadingAlgorithm_from_def case_simps)
  show "atom.valid (ThreadingAlgorithm_display m)"
    using \<open>wf_threading m\<close> by (cases m) (simp_all add: atom_simps)
qed

datatype SortAlgorithm = SortAlgorithm_Display | SortAlgorithm_Other Atom

definition SortAlgorithm_from :: "Atom \<Rightarrow> SortAlgorithm" where
  "SortAlgorithm_from value =
     (if to_ascii_lowercase (atom_inner value) = ''display'' then SortAlgorithm_Display
      else SortAlgorithm_Other value)"

fun SortAlgorithm_display :: "SortAlgorithm \<Rightarrow> bytes" where
  "SortAlgorithm_display SortAlgorithm_Display = ''DISPLAY''"
| "SortAlgorithm_display (SortAlgorithm_Other other) = atom_inner other"

fun wf_sort_algorithm :: "SortAlgorithm \<Rightarrow> bool" where
  "wf_sort_algorithm (SortAlgorithm_Other a) \<longleftrightarrow>
     wf_atom a \<and> SortAlgorithm_from a = SortAlgorithm_Other a"
| "wf_sort_algorithm SortAlgorithm_Display \<longleftrightarrow> True"

interpretation sort_names: named_enum SortAlgorithm_from SortAlgorithm_display wf_sort_algorithm
proof
  fix a
  assume "wf_atom a"
  show "eq_ignore_ascii_case (SortAlgorithm_display (SortAlgorithm_from a)) (atom_inner a)"
    unfolding SortAlgorithm_from_def
    by (intro lower_arm [where d = SortAlgorithm_display]) (simp_all add: case_simps)
  show "wf_sort_algorithm (SortAlgorithm_from a)"
    using \<open>wf_atom a\<close> by (auto simp: SortAlgorithm_from_def)
next
  fix m
  assume "wf_sort_algorithm m"
  then show "SortAlgorithm_from (Atom (SortAlgorithm_display m)) = m"
    by (cases m) (simp_all add: SortAlgorithm_from_def case_simps)
  show "atom.valid (SortAlgorithm_display m)"
    using \<open>wf_sort_algorithm m\<close> by (cases m) (simp_all add: atom_simps)
qed

datatype SortKey =
    Sort_Arrival | Sort_Cc | Sort_Date | Sort_From | Sort_Size | Sort_Subject | Sort_To
  | Sort_DisplayFrom | Sort_DisplayTo

fun SortKey_as_ref :: "SortKey \<Rightarrow> bytes" where
  "SortKey_as_ref Sort_Arrival = ''ARRIVAL''"
| "SortKey_as_ref Sort_Cc = ''CC''"
| "SortKey_as_ref Sort_Date = ''DATE''"
| "SortKey_as_ref Sort_From = ''FROM''"
| "SortKey_as_ref Sort_Size = ''SIZE''"
| "SortKey_as_ref Sort_Subject = ''SUBJECT''"
| "SortKey_as_ref Sort_To = ''TO''"
| "SortKey_as_ref Sort_DisplayFrom = ''DISPLAYFROM''"
| "SortKey_as_ref Sort_DisplayTo = ''DISPLAYTO''"

record SortCriterion =
  sc_reverse :: bool
  sc_key :: SortKey

datatype StoreType = Store_Replace | Store_Add | Store_Remove

datatype StoreResponse = Answer | Silent

datatype EntryTypeReq = Entry_Private | Entry_Shared | Entry_All

fun EntryTypeReq_display :: "EntryTypeReq \<Rightarrow> bytes" where
  "EntryTypeReq_display Entry_Private = ''priv''"
| "EntryTypeReq_display Entry_Shared = ''shared''"
| "EntryTypeReq_display Entry_All = ''all''"

section \<open>Flags as metadata attributes (\<open>CONDSTORE\<close>)\<close>

datatype AttributeFlag =
    Attribute_Answered | Attribute_Deleted | Attribute_Draft | Attribute_Flagged | Attribute_Seen
  | Attribute_Extension Atom | Attribute_Keyword Atom

definition AttributeFlag_system :: "Atom \<Rightarrow> AttributeFlag" where
  "AttributeFlag_system atom =
     (let s = to_ascii_lowercase (atom_inner atom)
      in if s = ''answered'' then Attribute_Answered
      else if s = ''flagged'' then Attribute_Flagged
      else if s = ''deleted'' then Attribute_Deleted
      else if s = ''seen'' then Attribute_Seen
      else if s = ''draft'' then Attribute_Draft
      else Attribute_Extension atom)"

definition AttributeFlag_try_from :: "bytes \<Rightarrow> (ValidationError, AttributeFlag) result" where
  "AttributeFlag_try_from value =
     (case strip_prefix [backslash, backslash] value of
        Some value \<Rightarrow> map_ok AttributeFlag_system (Atom_try_from value)
      | None \<Rightarrow> map_ok Attribute_Keyword (Atom_try_from value))"

fun AttributeFlag_display :: "AttributeFlag \<Rightarrow> bytes" where
  "AttributeFlag_display Attribute_Answered = [backslash, backslash] @ ''Answered''"
| "AttributeFlag_display Attribute_Flagged = [backslash, backslash] @ ''Flagged''"
| "AttributeFlag_display Attribute_Deleted = [backslash, backslash] @ ''Deleted''"
| "AttributeFlag_display Attribute_Seen = [backslash, backslash] @ ''Seen''"
| "AttributeFlag_display Attribute_Draft = [backslash, backslash] @ ''Draft''"
| "AttributeFlag_display (Attribute_Keyword atom) = atom_inner atom"
| "AttributeFlag_display (Attribute_Extension other) = [backslash, backslash] @ atom_inner other"

fun wf_attribute_flag :: "AttributeFlag \<Rightarrow> bool" where
  "wf_attribute_flag (Attribute_Extension a) \<longleftrightarrow>
     wf_atom a \<and> AttributeFlag_system a = Attribute_Extension a"
| "wf_attribute_flag (Attribute_Keyword a) \<longleftrightarrow> wf_atom a"
| "wf_attribute_flag _ \<longleftrightarrow> True"

definition system_attribute :: "AttributeFlag \<Rightarrow> bool" where
  "system_attribute f \<longleftrightarrow> wf_attribute_flag f \<and> (\<forall>a. f \<noteq> Attribute_Keyword a)"

interpretation attribute_names:
  named_enum AttributeFlag_system "\<lambda>f. tl (tl (AttributeFlag_display f))" system_attribute
proof
  fix a
  assume "wf_atom a"
  show "eq_ignore_ascii_case (tl (tl (AttributeFlag_display (AttributeFlag_system a)))) (atom_inner a)"
    unfolding AttributeFlag_system_def Let_def
    by (intro lower_arm [where d = "\<lambda>f. tl (tl (AttributeFlag_display f))"])
      (simp_all add: case_simps)
  show "system_attribute (AttributeFlag_system a)"
    using \<open>wf_atom a\<close> by (auto simp: AttributeFlag_system_def Let_def system_attribute_def)
next
  fix f
  assume wf: "system_attribute f"
  then show "AttributeFlag_system (Atom (tl (tl (AttributeFlag_display f)))) = f"
    by (cases f) (simp_all add: AttributeFlag_system_def system_attribute_def case_simps)
  show "atom.valid (tl (tl (AttributeFlag_display f)))"
    using wf by (cases f) (simp_all add: system_attribute_def atom_simps)
qed

lemma system_attribute_display:
  "system_attribute f \<Longrightarrow>
     AttributeFlag_display f = [backslash, backslash] @ tl (tl (AttributeFlag_display f))"
  by (cases f) (simp_all add: system_attribute_def)

lemma AttributeFlag_try_from_backslash:
  "AttributeFlag_try_from ([backslash, backslash] @ s) = attribute_names.parse s"
  by (simp add: AttributeFlag_try_from_def attribute_names.parse_def starts_with_def)

lemma AttributeFlag_roundtrip:
  assumes "wf_attribute_flag f"
  shows "AttributeFlag_try_from (AttributeFlag_display f) = Inr f"
proof (cases "system_attribute f")
  case True
  then show ?thesis
    by (metis system_attribute_display AttributeFlag_try_from_backslash attribute_names.parse_display)
next
  case False
  with assms obtain a where "f = Attribute_Keyword a" "wf_atom a"
    by (auto simp: system_attribute_def)
  moreover from this have "\<not> starts_with [backslash, backslash] (atom_inner a)"
    using atom_not_backslash [of "atom_inner a"]
    by (cases "atom_inner a") (auto simp: starts_with_def)
  ultimately show ?thesis by (simp add: AttributeFlag_try_from_def atom.try_from_ok)
qed

section \<open>Capabilities\<close>

datatype Capability =
    Imap4Rev1 | Capability_Auth AuthMechanism | LoginDisabled | StartTls | Capability_Idle
  | MailboxReferrals | LoginReferrals | SaslIr | Capability_Enable
  | Capability_Compress CompressionAlgorithm | Capability_Quota | QuotaRes Resource
  | Capability_QuotaSet | LiteralPlus | LiteralMinus | Capability_Move | Capability_Id
  | Capability_Unselect | Capability_Sort "SortAlgorithm option"
  | Capability_Thread ThreadingAlgorithm | Capability_Metadata | Capability_MetadataServer
  | Capability_Binary | UidPlus | ListExtended | Capability_CondStore | QResync
  | Capability_Namespace | StatusSize | Capability_Utf8 Utf8Kind | Within
  | Capability_Other Atom

fun Capability_display :: "Capability \<Rightarrow> bytes" where
  "Capability_display Imap4Rev1 = ''IMAP4REV1''"
| "Capability_display (Capability_Auth mechanism) = ''AUTH='' @ AuthMechanism_as_ref mechanism"
| "Capability_display LoginDisabled = ''LOGINDISABLED''"
| "Capability_display StartTls = ''STARTTLS''"
| "Capability_display MailboxReferrals = ''MAILBOX-REFERRALS''"
| "Capability_display LoginReferrals = ''LOGIN-REFERRALS''"
| "Capability_display SaslIr = ''SASL-IR''"
| "Capability_display Capability_Idle = ''IDLE''"
| "Capability_display Capability_Enable = ''ENABLE''"
| "Capability_display (Capability_Compress algorithm) =
     ''COMPRESS='' @ CompressionAlgorithm_display algorithm"
| "Capability_display Capability_Quota = ''QUOTA''"
| "Capability_display (QuotaRes resource) = ''QUOTA=RES-'' @ Resource_display resource"
| "Capability_display Capability_QuotaSet = ''QUOTASET''"
| "Capability_display LiteralPlus = ''LITERAL+''"
| "Capability_display LiteralMinus = ''LITERAL-''"
| "Capability_display Capability_Move = ''MOVE''"
| "Capability_display Capability_Id = ''ID''"
| "Capability_display Capability_Unselect = ''UNSELECT''"
| "Capability_display (Capability_Sort None) = ''SORT''"
| "Capability_display (Capability_Sort (Some algorithm)) = ''SORT='' @ SortAlgorithm_display algorithm"
| "Capability_display (Capability_Thread algorithm) =
     ''THREAD='' @ ThreadingAlgorithm_display algorithm"
| "Capability_display Capability_Metadata = ''METADATA''"
| "Capability_display Capability_MetadataServer = ''METADATA-SERVER''"
| "Capability_display Capability_Binary = ''BINARY''"
| "Capability_display UidPlus = ''UIDPLUS''"
| "Capability_display ListExtended = ''LIST-EXTENDED''"
| "Capability_display Capability_CondStore = ''CONDSTORE''"
| "Capability_display QResync = ''QRESYNC''"
| "Capability_display Capability_Namespace = ''NAMESPACE''"
| "Capability_display StatusSize = ''STATUS=SIZE''"
| "Capability_display (Capability_Utf8 kind) = ''UTF8='' @ Utf8Kind_display kind"
| "Capability_display Within = ''WITHIN''"
| "Capability_display (Capability_Other other) = atom_inner other"

text \<open>\<open>str::split_once\<close>: the parts before and after the first occurrence of a non-empty pattern.\<close>

fun split_once :: "bytes \<Rightarrow> bytes \<Rightarrow> (bytes \<times> bytes) option" where
  "split_once p [] = (if p = [] then Some ([], []) else None)"
| "split_once p (c # s) =
     (if starts_with p (c # s) then Some ([], drop (length p) (c # s))
      else map_option (\<lambda>(l, r). (c # l, r)) (split_once p s))"

text \<open>The inner \<open>match\<close> on the part before \<open>=\<close>; \<open>None\<close> where the source falls out of it.\<close>

definition Capability_from_parts :: "bytes \<Rightarrow> bytes \<Rightarrow> Capability option" where
  "Capability_from_parts left right =
     (let s = to_ascii_lowercase left
      in if s = ''auth'' then
           (case AuthMechanism_try_from right of
              Inr mechanism \<Rightarrow> Some (Capability_Auth mechanism) | Inl _ \<Rightarrow> None)
      else if s = ''compress'' then
           (case res_bind (Atom_try_from right) CompressionAlgorithm_try_from of
              Inr algorithm \<Rightarrow> Some (Capability_Compress algorithm) | Inl _ \<Rightarrow> None)
      else if s = ''quota'' then
           (case split_once ''res-'' (to_ascii_lowercase right) of
              Some (_, right) \<Rightarrow>
                (case Resource_try_from right of
                   Inr resource \<Rightarrow> Some (QuotaRes resource) | Inl _ \<Rightarrow> None)
            | None \<Rightarrow> None)
      else if s = ''sort'' then
           (case Atom_try_from right of
              Inr atom \<Rightarrow> Some (Capability_Sort (Some (SortAlgorithm_from atom))) | Inl _ \<Rightarrow> None)
      else if s = ''thread'' then
           (case Atom_try_from right of
              Inr atom \<Rightarrow> Some (Capability_Thread (ThreadingAlgorithm_from atom)) | Inl _ \<Rightarrow> None)
      else None)"

definition Capability_keyword :: "bytes \<Rightarrow> Capability option" where
  "Capability_keyword = map_of [
     (''imap4rev1'', Imap4Rev1), (''logindisabled'', LoginDisabled), (''starttls'', StartTls),
     (''idle'', Capability_Idle), (''mailbox-referrals'', MailboxReferrals),
     (''login-referrals'', LoginReferrals), (''sasl-ir'', SaslIr),
     (''enable'', Capability_Enable), (''quota'', Capability_Quota),
     (''quotaset'', Capability_QuotaSet), (''literal+'', LiteralPlus),
     (''literal-'', LiteralMinus), (''move'', Capability_Move), (''id'', Capability_Id),
     (''sort'', Capability_Sort None), (''metadata'', Capability_Metadata),
     (''metadata-server'', Capability_MetadataServer), (''binary'', Capability_Binary),
     (''list-extended'', ListExtended), (''unselect'', Capability_Unselect),
     (''condstore'', Capability_CondStore), (''qresync'', QResync), (''status=size'', StatusSize),
     (''uidplus'', UidPlus), (''utf8=accept'', Capability_Utf8 Utf8Kind_Accept),
     (''utf8=only'', Capability_Utf8 Utf8Kind_Only), (''within'', Within)]"

definition Capability_from :: "Atom \<Rightarrow> Capability" where
  "Capability_from atom =
     (case Capability_keyword (to_ascii_lowercase (atom_inner atom)) of
        Some capability \<Rightarrow> capability
      | None \<Rightarrow>
          (case split_once ''='' (atom_inner atom) of
             Some (left, right) \<Rightarrow>
               (case Capability_from_parts left right of
                  Some capability \<Rightarrow> capability
                | None \<Rightarrow> Capability_Other atom)
           | None \<Rightarrow> Capability_Other atom))"

fun wf_capability :: "Capability \<Rightarrow> bool" where
  "wf_capability (Capability_Auth m) \<longleftrightarrow> wf_auth m"
| "wf_capability (QuotaRes r) \<longleftrightarrow> wf_resource r"
| "wf_capability (Capability_Sort (Some a)) \<longleftrightarrow> wf_sort_algorithm a"
| "wf_capability (Capability_Thread a) \<longleftrightarrow> wf_threading a"
| "wf_capability (Capability_Other a) \<longleftrightarrow> wf_atom a \<and> Capability_from a = Capability_Other a"
| "wf_capability _ \<longleftrightarrow> True"

text \<open>What a peer with this library makes of a capability it is sent.\<close>

fun received :: "Capability \<Rightarrow> Capability" where
  "received Capability_Namespace = Capability_Other (Atom ''NAMESPACE'')"
| "received (QuotaRes (Resource_Other a)) =
     QuotaRes (Resource_Other (Atom (to_ascii_lowercase (atom_inner a))))"
| "received (Capability_Auth ScramSha3_512) =
     Capability_Auth (AuthMechanism_Other (Atom ''SCRAM-SHA3-512''))"
| "received (Capability_Auth ScramSha3_512Plus) =
     Capability_Auth (AuthMechanism_Other (Atom ''SCRAM-SHA3-512-PLUS''))"
| "received c = c"

lemma ascii_upper_lower [simp]: "ascii_upper (ascii_lower c) = ascii_upper c"
proof (cases "65 \<le> code c \<and> code c \<le> 90")
  case True
  then have *: "ascii_lower c = char_of (code c + 32)" "code (char_of (code c + 32) :: char) = code c + 32"
    by (auto simp only: ascii_lower_def code_char_of if_True simp_thms)
  with True show ?thesis
    by (simp only: * ascii_upper_def [of "char_of (code c + 32)"]) (auto simp: ascii_upper_def)
qed (auto simp: ascii_lower_def)

lemma is_atom_char_lower: "is_atom_char c \<Longrightarrow> is_atom_char (ascii_lower c)"
proof (cases "65 \<le> code c \<and> code c \<le> 90")
  case True
  then have *: "ascii_lower c = char_of (code c + 32)" "code (char_of (code c + 32) :: char) = code c + 32"
    by (auto simp only: ascii_lower_def code_char_of if_True simp_thms)
  have ne: "ascii_lower c \<noteq> x" if "code x < 97 \<or> 122 < code x" for x
    using True that * by auto
  have "is_char (ascii_lower c)" "\<not> is_ctl (ascii_lower c)"
    using True * by (auto simp only: is_char_def is_ctl_def)
  then show ?thesis
    by (simp add: is_atom_char_def is_atom_specials_iff is_list_wildcards_def
        is_quoted_specials_def is_resp_specials_def ne)
qed (auto simp: ascii_lower_def)

lemma atom_valid_lower: "atom.valid s \<Longrightarrow> atom.valid (to_ascii_lowercase s)"
  by (auto simp: atom.valid_def list_all_iff is_atom_char_lower)

lemma atom_valid_prefix:
  "list_all is_atom_char p \<Longrightarrow> atom.valid s \<Longrightarrow> atom.valid (p @ s)"
  by (auto simp: atom.valid_def)

lemma atom_prefixes:
  "list_all is_atom_char ''AUTH=''" "list_all is_atom_char ''QUOTA=RES-''"
  "list_all is_atom_char ''SORT=''" "list_all is_atom_char ''THREAD=''"
  by (simp_all add: indicator_defs)

lemma Capability_display_valid: "wf_capability c \<Longrightarrow> atom.valid (Capability_display c)"
proof (induction c rule: Capability_display.induct)
  case (2 m)
  then show ?case using atom_valid_prefix [OF atom_prefixes(1) auth_display_valid [of m]] by simp
next
  case (12 r)
  then show ?case
    using atom_valid_prefix [OF atom_prefixes(2) resource_names.display_valid [of r]] by simp
next
  case (20 a)
  then show ?case
    using atom_valid_prefix [OF atom_prefixes(3) sort_names.display_valid [of a]] by simp
next
  case (21 a)
  then show ?case
    using atom_valid_prefix [OF atom_prefixes(4) threading_names.display_valid [of a]] by simp
next
  case (10 a)
  show ?case by (cases a) (simp add: atom.valid_def, simp add: indicator_defs)
next
  case (31 k)
  show ?case by (cases k) (simp_all add: atom.valid_def, simp_all add: indicator_defs)
qed (simp_all add: atom_simps)

lemmas capability_simps = Capability_from_def Capability_keyword_def Capability_from_parts_def
  starts_with_def case_simps

lemma Capability_auth_received:
  "wf_auth m \<Longrightarrow> Capability_from (Atom (''AUTH='' @ AuthMechanism_as_ref m)) = received (Capability_Auth m)"
proof (cases "readable_auth m")
  case True
  then have "AuthMechanism_try_from (AuthMechanism_as_ref m) = Inr m"
    using auth_names.parse_display by (simp add: AuthMechanism_try_from_def auth_names.parse_def)
  with True show ?thesis by (cases m) (simp_all add: capability_simps readable_auth_def)
next
  case False
  moreover assume "wf_auth m"
  ultimately have "m = ScramSha3_512 \<or> m = ScramSha3_512Plus" by (auto simp: readable_auth_def)
  then show ?thesis
    by (elim disjE) (simp; code_simp)+
qed

lemma Capability_quota_received:
  assumes "wf_resource r"
  shows "Capability_from (Atom (''QUOTA=RES-'' @ Resource_display r)) = received (QuotaRes r)"
proof -
  have known: "Resource_try_from (to_ascii_lowercase (Resource_display r)) = Inr r"
    if "\<forall>a. r \<noteq> Resource_Other a"
    using that by (cases r) (simp_all, code_simp+)
  have other: "Resource_try_from (to_ascii_lowercase (atom_inner a)) =
      Inr (Resource_Other (Atom (to_ascii_lowercase (atom_inner a))))" if "r = Resource_Other a" for a
    using assms that
    by (simp add: Resource_try_from_def atom.try_from_ok atom_valid_lower)
      (auto simp: Resource_from_def Let_def comp_def split: if_splits)
  show ?thesis
    using known other by (cases r) (simp_all add: capability_simps)
qed

lemma Capability_received: "wf_capability c \<Longrightarrow> Capability_from (Atom (Capability_display c)) = received c"
proof (induction c rule: Capability_display.induct)
  case (2 m)
  then show ?case using Capability_auth_received by simp
next
  case (12 r)
  then show ?case using Capability_quota_received by simp
next
  case (20 a)
  then have "Atom_try_from (SortAlgorithm_display a) = Inr (Atom (SortAlgorithm_display a))"
    and "SortAlgorithm_from (Atom (SortAlgorithm_display a)) = a"
    by (simp_all add: atom.try_from_ok sort_names.display_valid sort_names.from_display)
  then show ?case by (simp add: capability_simps)
next
  case (21 a)
  then have "Atom_try_from (ThreadingAlgorithm_display a) = Inr (Atom (ThreadingAlgorithm_display a))"
    and "ThreadingAlgorithm_from (Atom (ThreadingAlgorithm_display a)) = a"
    by (simp_all add: atom.try_from_ok threading_names.display_valid threading_names.from_display)
  then show ?case by (simp add: capability_simps)
next
  case (10 a)
  show ?case by (cases a) (simp, code_simp)
next
  case (31 k)
  show ?case by (cases k) (simp_all, code_simp+)
next
  case (33 a)
  then show ?case by simp
qed (simp_all add: capability_simps)

text \<open>C36: A capability travels: every well-formed capability prints as an atom, and the reader
  maps that atom to the capability itself, but for \<open>NAMESPACE\<close> and the two SHA-3 mechanisms, which
  come back as unknown names, and for an unknown \<open>QUOTA=RES-\<close> resource, which comes back in lower
  case.\<close>

theorem Capability_transport:
  assumes "wf_capability c"
  shows "atom.valid (Capability_display c) \<and> Capability_from (Atom (Capability_display c)) = received c"
  using assms by (simp add: Capability_display_valid Capability_received)

theorem Capability_transport_witness:
  "Capability_from (Atom ''QUOTA=RES-STORAGE'') = QuotaRes Storage \<and>
   Capability_from (Atom ''NAMESPACE'') = Capability_Other (Atom ''NAMESPACE'')"
  using Capability_transport [of "QuotaRes Storage"] Capability_transport [of Capability_Namespace]
  by simp

text \<open>C37: The names of the authentication mechanisms: no byte string is read as one of the two
  SCRAM-SHA3 mechanisms, although they have a wire name; every other mechanism prints as its name
  and is read back from it, and what is read prints as its input up to the case of letters.\<close>

theorem AuthMechanism_names:
  "(readable_auth m \<longrightarrow> AuthMechanism_try_from (AuthMechanism_as_ref m) = Inr m) \<and>
   (AuthMechanism_try_from s = Inr m' \<longrightarrow>
      readable_auth m' \<and> eq_ignore_ascii_case (AuthMechanism_as_ref m') s)"
  using auth_names.parse_display auth_names.parse_ok
  by (metis AuthMechanism_try_from_def auth_names.parse_def)

theorem AuthMechanism_names_witness:
  "AuthMechanism_try_from ''XOAUTH2'' = Inr XOAuth2 \<and>
   eq_ignore_ascii_case (AuthMechanism_as_ref XOAuth2) ''xOauth2''"
proof -
  have "AuthMechanism_try_from ''xOauth2'' = Inr XOAuth2" by code_simp
  then show ?thesis
    using AuthMechanism_names [of XOAuth2 "''xOauth2''" XOAuth2] by (simp add: readable_auth_def)
qed

text \<open>What precedes \<open>res-\<close> in a \<open>QUOTA=\<close> capability is dropped by \<open>split_once\<close>: the reader takes
  names the printer never writes.\<close>

lemma Capability_quota_prefix_dropped:
  "Capability_from (Atom ''QUOTA=XXRES-STORAGE'') = QuotaRes Storage"
  by code_simp

end
