(* ===== verification/Imap_Mailbox.thy ===== *)
theory Imap_Mailbox
  imports Imap_Core
begin

text \<open>
  \<open>imap-types/src/mailbox.rs\<close>: mailbox names, where \<open>INBOX\<close> is reserved in every spelling, and the
  patterns of \<open>LIST\<close> and \<open>LSUB\<close>.
\<close>

section \<open>List patterns\<close>

datatype ListCharString = ListCharString (list_char_inner: bytes)

definition ListCharString_validate :: "bytes \<Rightarrow> (ValidationError, unit) result" where
  "ListCharString_validate value =
     (if value = [] then Inl (ValidationError Empty)
      else case position (\<lambda>b. \<not> is_list_char b) value of
        Some at \<Rightarrow> Inl (ValidationError (InvalidByteAt (value ! at) at))
      | None \<Rightarrow> Inr ())"

definition ListCharString_try_from :: "bytes \<Rightarrow> (ValidationError, ListCharString) result" where
  "ListCharString_try_from value =
     res_bind (ListCharString_validate value) (\<lambda>_. Inr (ListCharString value))"

interpretation list_char: ascii_validated ListCharString_validate ListCharString_try_from
  ListCharString list_char_inner is_list_char True
  by unfold_locales
    (auto simp: ListCharString_validate_def ListCharString_try_from_def is_list_char_def
      is_list_wildcards_def is_resp_specials_def dest: atom_char_range)

abbreviation wf_list_char :: "ListCharString \<Rightarrow> bool" where
  "wf_list_char l \<equiv> list_char.valid (list_char_inner l)"

datatype ListMailbox = ListMailbox_Token ListCharString | ListMailbox_String IString

fun ListMailbox_as_ref :: "ListMailbox \<Rightarrow> bytes" where
  "ListMailbox_as_ref (ListMailbox_Token t) = list_char_inner t"
| "ListMailbox_as_ref (ListMailbox_String i) = IString_as_ref i"

definition ListMailbox_try_from :: "bytes \<Rightarrow> (ValidationError, ListMailbox) result" where
  "ListMailbox_try_from s =
     (if s = [] then
        (case Quoted_try_from s of
           Inr q \<Rightarrow> Inr (ListMailbox_String (IString_Quoted q))
         | Inl e \<Rightarrow> Inl e)
      else case ListCharString_try_from s of
        Inr lcs \<Rightarrow> Inr (ListMailbox_Token lcs)
      | Inl _ \<Rightarrow> map_ok ListMailbox_String (IString_try_from s))"

fun wf_list_mailbox :: "ListMailbox \<Rightarrow> bool" where
  "wf_list_mailbox (ListMailbox_Token t) \<longleftrightarrow> wf_list_char t"
| "wf_list_mailbox (ListMailbox_String i) \<longleftrightarrow> wf_istring i"

section \<open>Mailbox names\<close>

datatype MailboxOtherError = MailboxOtherError_Literal ValidationError | Reserved

datatype MailboxOther = MailboxOther (mailbox_inner: AString)

datatype Mailbox = Inbox | Mailbox_Other MailboxOther

definition MailboxOther_validate :: "bytes \<Rightarrow> (MailboxOtherError, unit) result" where
  "MailboxOther_validate value =
     (if eq_ignore_ascii_case value ''inbox'' then Inl Reserved else Inr ())"

definition MailboxOther_try_from :: "bytes \<Rightarrow> (MailboxOtherError, MailboxOther) result" where
  "MailboxOther_try_from value =
     res_bind (map_err MailboxOtherError_Literal (AString_try_from value)) (\<lambda>astring.
     res_bind (MailboxOther_validate (AString_as_ref astring)) (\<lambda>_. Inr (MailboxOther astring)))"

definition MailboxOther_try_from_AString :: "AString \<Rightarrow> (MailboxOtherError, MailboxOther) result" where
  "MailboxOther_try_from_AString value =
     res_bind (MailboxOther_validate (AString_as_ref value)) (\<lambda>_. Inr (MailboxOther value))"

text \<open>\<open>From<AString>\<close>, with \<open>None\<close> for the panic of \<open>unwrap\<close>. The source compares after
  \<open>from_utf8\<close>, which succeeds on the bytes that compare equal, these being ASCII.\<close>

definition Mailbox_from :: "AString \<Rightarrow> Mailbox option" where
  "Mailbox_from value =
     (if eq_ignore_ascii_case (AString_as_ref value) ''inbox'' then Some Inbox
      else case MailboxOther_try_from_AString value of
        Inr other \<Rightarrow> Some (Mailbox_Other other)
      | Inl _ \<Rightarrow> None)"

definition Mailbox_try_from :: "bytes \<Rightarrow> (ValidationError, Mailbox option) result" where
  "Mailbox_try_from value = map_ok Mailbox_from (AString_try_from value)"

fun wf_mailbox :: "Mailbox \<Rightarrow> bool" where
  "wf_mailbox Inbox \<longleftrightarrow> True"
| "wf_mailbox (Mailbox_Other m) \<longleftrightarrow>
     wf_astring (mailbox_inner m) \<and> \<not> eq_ignore_ascii_case (AString_as_ref (mailbox_inner m)) ''inbox''"

lemma Mailbox_from_total:
  "Mailbox_from a = Some (if eq_ignore_ascii_case (AString_as_ref a) ''inbox'' then Inbox
     else Mailbox_Other (MailboxOther a))"
  by (simp add: Mailbox_from_def MailboxOther_try_from_AString_def MailboxOther_validate_def)

lemma AString_try_from_wf: "AString_try_from s = Inr a \<Longrightarrow> wf_astring a \<and> AString_as_ref a = s"
  by (auto simp: AString_try_from_def IString_try_from_def atom_ext.try_from_iff
      quoted.try_from_iff literal.try_from_iff split: sum.splits)

text \<open>Reading a mailbox name never panics, yields \<open>INBOX\<close> exactly for the spellings of that
  word, and otherwise keeps the bytes in a well-formed name that no spelling of \<open>INBOX\<close> can
  reach; the checked constructor of other names refuses exactly those spellings.\<close>

theorem Mailbox_names:
  "case Mailbox_try_from s of
     Inl e \<Rightarrow> AString_try_from s = Inl e \<and> MailboxOther_try_from s = Inl (MailboxOtherError_Literal e)
   | Inr None \<Rightarrow> False
   | Inr (Some Inbox) \<Rightarrow> to_ascii_lowercase s = ''inbox'' \<and> MailboxOther_try_from s = Inl Reserved
   | Inr (Some (Mailbox_Other m)) \<Rightarrow>
       to_ascii_lowercase s \<noteq> ''inbox'' \<and> wf_mailbox (Mailbox_Other m) \<and>
       AString_as_ref (mailbox_inner m) = s \<and> MailboxOther_try_from s = Inr m"
proof -
  have inbox: "eq_ignore_ascii_case s ''inbox'' \<longleftrightarrow> to_ascii_lowercase s = ''inbox''"
    by (simp add: eq_ignore_ascii_case_def ascii_lower_def)
  show ?thesis
  proof (cases "AString_try_from s")
    case (Inl e)
    then show ?thesis by (simp add: Mailbox_try_from_def MailboxOther_try_from_def)
  next
    case (Inr a)
    with AString_try_from_wf [OF this] inbox show ?thesis
      by (simp add: Mailbox_try_from_def MailboxOther_try_from_def Mailbox_from_total
          MailboxOther_validate_def)
  qed
qed

text \<open>Reading a list pattern keeps its bytes and picks the shortest form: a bare token when
  every byte may stand in one, the quoted string for the empty pattern, else a string.\<close>

theorem ListMailbox_try_from_spec:
  "case ListMailbox_try_from s of
     Inr m \<Rightarrow> ListMailbox_as_ref m = s \<and> wf_list_mailbox m \<and>
       ((\<exists>t. m = ListMailbox_Token t) \<longleftrightarrow> s \<noteq> [] \<and> list_all is_list_char s)
   | Inl e \<Rightarrow> s \<noteq> [] \<and> \<not> list_all is_list_char s \<and> IString_try_from s = Inl e"
proof (cases "s = [] \<or> list_all is_list_char s")
  case True
  then show ?thesis
    by (auto simp: ListMailbox_try_from_def quoted.try_from_ok list_char.try_from_ok
        quoted.valid_def list_char.valid_def)
next
  case False
  then have "\<exists>e. ListCharString_try_from s = Inl e"
    by (cases "ListCharString_try_from s") (auto simp: list_char.try_from_iff list_char.valid_def)
  with False show ?thesis
    by (auto simp: ListMailbox_try_from_def IString_try_from_def quoted.try_from_iff
        literal.try_from_iff split: sum.splits)
qed

end
