(* ===== verification/Imap_Thread.thy ===== *)
theory Imap_Thread
  imports Imap_Core
begin

text \<open>
  \<open>Thread\<close> of \<open>imap-types/src/extensions/thread.rs\<close> and its \<open>Display\<close>, which the encoder uses.
  The source prints with an explicit stack of iterators to bound the recursion; \<open>print_thread\<close>
  is the recursive reading of the grammar of RFC 5256 and the two agree.
\<close>

datatype Thread =
    Thread_Members (th_prefix: "u32 list") (th_answers: "Thread list option")
  | Thread_Nested (th_nested: "Thread list")

text \<open>\<open>write_prefix\<close>; \<open>None\<close> is the panic of \<open>split_first().unwrap()\<close>.\<close>

fun write_prefix :: "u32 list \<Rightarrow> bytes option" where
  "write_prefix [] = None"
| "write_prefix (head # tail) =
     Some (dec (unat head) @ concat (map (\<lambda>element. sp # dec (unat element)) tail))"

fun weight :: "Thread \<Rightarrow> nat" where
  "weight (Thread_Members _ None) = 2"
| "weight (Thread_Members _ (Some answers)) = 2 + sum_list (map weight answers)"
| "weight (Thread_Nested answers) = 2 + sum_list (map weight answers)"

definition stack_weight :: "Thread list list \<Rightarrow> nat" where
  "stack_weight stack = sum_list (map (\<lambda>l. 1 + sum_list (map weight l)) stack)"

text \<open>The \<open>while let\<close> loop; the top of the stack of iterators is the head of the list, an iterator is
  the list of what it has not yielded.\<close>

function display_loop :: "Thread list list \<Rightarrow> bytes \<Rightarrow> bytes option" where
  "display_loop [] f = Some f"
| "display_loop ([] # stack) f = display_loop stack (f @ '')'')"
| "display_loop ((thread # answers) # stack) f =
     (case thread of
        Thread_Members prefix thread_answers \<Rightarrow>
          (case write_prefix prefix of
             None \<Rightarrow> None
           | Some p \<Rightarrow>
               (case thread_answers of
                  Some inner \<Rightarrow> display_loop (inner # answers # stack) (f @ ''('' @ p @ '' '')
                | None \<Rightarrow> display_loop ([] # answers # stack) (f @ ''('' @ p)))
      | Thread_Nested inner \<Rightarrow> display_loop (inner # answers # stack) (f @ ''(''))"
  by pat_completeness auto
termination
  by (relation "measure (\<lambda>(stack, _). stack_weight stack)") (auto simp: stack_weight_def)

definition Thread_display :: "Thread \<Rightarrow> bytes option" where
  "Thread_display self =
     (case self of
        Thread_Members prefix answers \<Rightarrow>
          (case write_prefix prefix of
             None \<Rightarrow> None
           | Some p \<Rightarrow>
               (case answers of
                  Some answers \<Rightarrow> display_loop [answers] (''('' @ p @ '' '')
                | None \<Rightarrow> display_loop [[]] (''('' @ p)))
      | Thread_Nested answers \<Rightarrow> display_loop [answers] ''('')"

text \<open>\<open>Vec1\<close> and \<open>Vec2\<close> bound the lists from below; numbers are not zero.\<close>

fun wf_thread :: "Thread \<Rightarrow> bool" where
  "wf_thread (Thread_Members prefix None) \<longleftrightarrow> prefix \<noteq> [] \<and> 0 \<notin> set prefix"
| "wf_thread (Thread_Members prefix (Some answers)) \<longleftrightarrow>
     prefix \<noteq> [] \<and> 0 \<notin> set prefix \<and> 2 \<le> length answers \<and> list_all wf_thread answers"
| "wf_thread (Thread_Nested answers) \<longleftrightarrow> 2 \<le> length answers \<and> list_all wf_thread answers"

section \<open>The recursive reading\<close>

definition print_prefix :: "u32 list \<Rightarrow> bytes" where
  "print_prefix ns = dec (unat (hd ns)) @ concat (map (\<lambda>n. sp # dec (unat n)) (tl ns))"

fun print_thread :: "Thread \<Rightarrow> bytes" where
  "print_thread (Thread_Members prefix None) = ''('' @ print_prefix prefix @ '')''"
| "print_thread (Thread_Members prefix (Some answers)) =
     ''('' @ print_prefix prefix @ '' '' @ concat (map print_thread answers) @ '')''"
| "print_thread (Thread_Nested answers) = ''('' @ concat (map print_thread answers) @ '')''"

lemma write_prefix_print: "prefix \<noteq> [] \<Longrightarrow> write_prefix prefix = Some (print_prefix prefix)"
  by (cases prefix) (simp_all add: print_prefix_def)

definition print_stack :: "Thread list list \<Rightarrow> bytes" where
  "print_stack stack = concat (map (\<lambda>l. concat (map print_thread l) @ '')'') stack)"

lemma display_loop_print:
  "list_all (list_all wf_thread) stack \<Longrightarrow> display_loop stack f = Some (f @ print_stack stack)"
proof (induction stack f rule: display_loop.induct)
  case (3 thread answers stack f)
  show ?case
  proof (cases thread)
    case (Thread_Members prefix inner)
    with "3.prems" have p: "write_prefix prefix = Some (print_prefix prefix)"
      by (cases inner) (auto simp: write_prefix_print)
    with 3 Thread_Members show ?thesis
      by (cases inner) (simp_all add: print_stack_def)
  next
    case (Thread_Nested inner)
    with 3 show ?thesis by (simp add: print_stack_def)
  qed
qed (simp_all add: print_stack_def)

lemma Thread_display_print:
  assumes "wf_thread t"
  shows "Thread_display t = Some (print_thread t)"
proof (cases t)
  case (Thread_Members prefix answers)
  with assms show ?thesis
    by (cases answers)
      (simp_all add: Thread_display_def write_prefix_print display_loop_print print_stack_def
        del: display_loop.simps)
next
  case (Thread_Nested answers)
  with assms show ?thesis
    by (simp add: Thread_display_def display_loop_print print_stack_def del: display_loop.simps)
qed

definition demo_thread :: Thread where
  "demo_thread = Thread_Members [3, 6] (Some [Thread_Members [4, 23] None,
     Thread_Nested [Thread_Members [44] None, Thread_Members [7, 96] None]])"

lemma demo_print: "print_thread demo_thread = ''(3 6 (4 23)((44)(7 96)))''"
  by code_simp

text \<open>Only digits, spaces and parentheses are written.\<close>

lemma print_thread_bland:
  "wf_thread t \<Longrightarrow> list_all (\<lambda>c. is_digit c \<or> c = sp \<or> c = CHR ''('' \<or> c = CHR '')'') (print_thread t)"
proof (induction t rule: print_thread.induct)
  case (1 prefix)
  then show ?case by (auto simp: print_prefix_def list_all_iff dest: dec_digits_set)
next
  case (2 prefix answers)
  then show ?case by (auto simp: print_prefix_def list_all_iff dest: dec_digits_set)
next
  case (3 answers)
  then show ?case by (auto simp: list_all_iff)
qed

end
