(* ===== verification/Imap_Types.thy ===== *)
theory Imap_Types
  imports Imap_Sequence Imap_Names Imap_Mailbox Imap_Thread
begin

text \<open>
  The message types of \<open>imap-types\<close> that the encoder writes: \<open>datetime.rs\<close>, \<open>search.rs\<close>,
  \<open>fetch.rs\<close>, \<open>envelope.rs\<close>, \<open>body.rs\<close>, \<open>status.rs\<close>, \<open>command.rs\<close>, \<open>response.rs\<close> and the
  extensions \<open>metadata.rs\<close>, \<open>namespace.rs\<close>, \<open>uidplus.rs\<close>. Variants have the name of their type as
  a prefix; named fields of a variant are positional, in the order of the source.
\<close>

section \<open>Dates\<close>

text \<open>
  A \<open>chrono::DateTime<FixedOffset>\<close> and a \<open>chrono::NaiveDate\<close> by their documented accessors; how
  they are printed is a parameter of the encoder.
\<close>

record ChronoNaiveDate =
  nd_year :: int
  nd_month :: nat
  nd_day :: nat

record ChronoDateTime = ChronoNaiveDate +
  dt_hour :: nat
  dt_minute :: nat
  dt_second :: nat
  dt_subsec_nanos :: nat
  dt_local_minus_utc :: int

datatype DateTimeError =
    DateTimeError_YearOutOfRange int
  | UnalignedNanoSeconds nat
  | UnalignedOffset int

datatype NaiveDateError = NaiveDateError_YearOutOfRange int

datatype DateTime = DateTime (datetime_inner: ChronoDateTime)

datatype NaiveDate = NaiveDate (naive_date_inner: ChronoNaiveDate)

text \<open>Rust's remainder truncates, so it has the sign of the offset.\<close>

definition rust_rem :: "int \<Rightarrow> int \<Rightarrow> int" where
  "rust_rem a b = (if a < 0 then - ((- a) mod b) else a mod b)"

definition DateTime_validate :: "ChronoDateTime \<Rightarrow> (DateTimeError, unit) result" where
  "DateTime_validate value =
     (if \<not> (0 \<le> nd_year value \<and> nd_year value \<le> 9999) then
        Inl (DateTimeError_YearOutOfRange (nd_year value))
      else if dt_subsec_nanos value \<noteq> 0 then
        Inl (UnalignedNanoSeconds (dt_subsec_nanos value))
      else if rust_rem (dt_local_minus_utc value) 60 \<noteq> 0 then
        Inl (UnalignedOffset (rust_rem (dt_local_minus_utc value) 60))
      else Inr ())"

definition DateTime_try_from :: "ChronoDateTime \<Rightarrow> (DateTimeError, DateTime) result" where
  "DateTime_try_from value = res_bind (DateTime_validate value) (\<lambda>_. Inr (DateTime value))"

definition NaiveDate_validate :: "ChronoNaiveDate \<Rightarrow> (NaiveDateError, unit) result" where
  "NaiveDate_validate value =
     (if \<not> (0 \<le> nd_year value \<and> nd_year value \<le> 9999) then
        Inl (NaiveDateError_YearOutOfRange (nd_year value))
      else Inr ())"

definition NaiveDate_try_from :: "ChronoNaiveDate \<Rightarrow> (NaiveDateError, NaiveDate) result" where
  "NaiveDate_try_from value = res_bind (NaiveDate_validate value) (\<lambda>_. Inr (NaiveDate value))"

section \<open>Searching\<close>

datatype SearchKey =
    SearchKey_And "SearchKey list"
  | SearchKey_SequenceSet SequenceSet
  | SearchKey_All
  | SearchKey_Answered
  | SearchKey_Bcc AString
  | SearchKey_Before NaiveDate
  | SearchKey_Body AString
  | SearchKey_Cc AString
  | SearchKey_Deleted
  | SearchKey_Draft
  | SearchKey_Flagged
  | SearchKey_From AString
  | SearchKey_Header AString AString
  | SearchKey_Keyword Atom
  | SearchKey_Larger u32
  | SearchKey_New
  | SearchKey_Not SearchKey
  | SearchKey_Old
  | SearchKey_Older u32
  | SearchKey_On NaiveDate
  | SearchKey_Or SearchKey SearchKey
  | SearchKey_Recent
  | SearchKey_Seen
  | SearchKey_SentBefore NaiveDate
  | SearchKey_SentOn NaiveDate
  | SearchKey_SentSince NaiveDate
  | SearchKey_Since NaiveDate
  | SearchKey_Smaller u32
  | SearchKey_Subject AString
  | SearchKey_Text AString
  | SearchKey_To AString
  | SearchKey_Uid SequenceSet
  | SearchKey_Unanswered
  | SearchKey_Undeleted
  | SearchKey_Undraft
  | SearchKey_Unflagged
  | SearchKey_Unkeyword Atom
  | SearchKey_Unseen
  | SearchKey_Younger u32
  | SearchKey_ModSequence "(AttributeFlag \<times> EntryTypeReq) option" u64

section \<open>Fetching\<close>

datatype Part = Part "u32 list"

datatype Section =
    Section_Part Part
  | Section_Header "Part option"
  | Section_HeaderFields "Part option" "AString list"
  | Section_HeaderFieldsNot "Part option" "AString list"
  | Section_Text "Part option"
  | Section_Mime Part

datatype MessageDataItemName =
    ItemName_Body
  | ItemName_BodyExt "Section option" "(u32 \<times> u32) option" bool
  | ItemName_BodyStructure
  | ItemName_Envelope
  | ItemName_Flags
  | ItemName_InternalDate
  | ItemName_Rfc822
  | ItemName_Rfc822Header
  | ItemName_Rfc822Size
  | ItemName_Rfc822Text
  | ItemName_Uid
  | ItemName_Binary "u32 list" "(u32 \<times> u32) option" bool
  | ItemName_BinarySize "u32 list"
  | ItemName_ModSeq

datatype Macro = Macro_Fast | Macro_All | Macro_Full

fun Macro_expand :: "Macro \<Rightarrow> MessageDataItemName list" where
  "Macro_expand Macro_All =
     [ItemName_Flags, ItemName_InternalDate, ItemName_Rfc822Size, ItemName_Envelope]"
| "Macro_expand Macro_Fast = [ItemName_Flags, ItemName_InternalDate, ItemName_Rfc822Size]"
| "Macro_expand Macro_Full =
     [ItemName_Flags, ItemName_InternalDate, ItemName_Rfc822Size, ItemName_Envelope, ItemName_Body]"

fun Macro_display :: "Macro \<Rightarrow> bytes" where
  "Macro_display Macro_All = ''ALL''"
| "Macro_display Macro_Fast = ''FAST''"
| "Macro_display Macro_Full = ''FULL''"

datatype MacroOrMessageDataItemNames =
    Fetch_Macro Macro
  | Fetch_ItemNames "MessageDataItemName list"

record Address =
  addr_name :: NString
  addr_adl :: NString
  addr_mailbox :: NString
  addr_host :: NString

record Envelope =
  env_date :: NString
  env_subject :: NString
  env_from :: "Address list"
  env_sender :: "Address list"
  env_reply_to :: "Address list"
  env_to :: "Address list"
  env_cc :: "Address list"
  env_bcc :: "Address list"
  env_in_reply_to :: NString
  env_message_id :: NString

section \<open>Body structures\<close>

record BasicFields =
  bf_parameter_list :: "(IString \<times> IString) list"
  bf_id :: NString
  bf_description :: NString
  bf_content_transfer_encoding :: IString
  bf_size :: u32

datatype BodyExtension =
    BodyExtension_NString NString
  | BodyExtension_Number u32
  | BodyExtension_List "BodyExtension list"

record Location =
  loc_location :: NString
  loc_extensions :: "BodyExtension list"

record Language =
  lang_language :: "IString list"
  lang_tail :: "Location option"

record Disposition =
  disp_disposition :: "(IString \<times> (IString \<times> IString) list) option"
  disp_tail :: "Language option"

record SinglePartExtensionData =
  sp_md5 :: NString
  sp_tail :: "Disposition option"

record MultiPartExtensionData =
  mp_parameter_list :: "(IString \<times> IString) list"
  mp_tail :: "Disposition option"

datatype Body = Body BasicFields SpecificFields
  and SpecificFields =
    SpecificFields_Basic IString IString
  | SpecificFields_Message Envelope BodyStructure u32
  | SpecificFields_Text IString u32
  and BodyStructure =
    BodyStructure_Single Body "SinglePartExtensionData option"
  | BodyStructure_Multi "BodyStructure list" IString "MultiPartExtensionData option"

datatype MessageDataItem =
    Item_Body BodyStructure
  | Item_BodyExt "Section option" "u32 option" NString
  | Item_BodyStructure BodyStructure
  | Item_Envelope Envelope
  | Item_Flags "FlagFetch list"
  | Item_InternalDate DateTime
  | Item_Rfc822 NString
  | Item_Rfc822Header NString
  | Item_Rfc822Size u32
  | Item_Rfc822Text NString
  | Item_Uid u32
  | Item_Binary "u32 list" NString8
  | Item_BinarySize "u32 list" u32
  | Item_ModSeq u64

section \<open>Mailbox status and the smaller extensions\<close>

datatype StatusDataItemName =
    StatusName_Messages | StatusName_Recent | StatusName_UidNext | StatusName_UidValidity
  | StatusName_Unseen | StatusName_Deleted | StatusName_DeletedStorage | StatusName_Size
  | StatusName_HighestModSeq

datatype StatusDataItem =
    StatusItem_Messages u32 | StatusItem_Recent u32 | StatusItem_UidNext u32
  | StatusItem_UidValidity u32 | StatusItem_Unseen u32 | StatusItem_Deleted u32
  | StatusItem_DeletedStorage u64 | StatusItem_Size u64 | StatusItem_HighestModSeq u64

datatype Entry = Entry (entry_inner: AString)

record EntryValue =
  ev_entry :: Entry
  ev_value :: NString8

datatype Depth = Depth_Null | Depth_One | Depth_Infinity

datatype GetMetadataOption = GetMetadata_MaxSize u32 | GetMetadata_Depth Depth

datatype MetadataCode =
    MetadataCode_LongEntries u32 | MetadataCode_MaxSize u32 | MetadataCode_TooMany
  | MetadataCode_NoPrivate

datatype MetadataResponse = WithValues "EntryValue list" | WithoutValues "Entry list"

record NamespaceResponseExtension =
  nre_key :: IString
  nre_values :: "IString list"

record Namespace =
  ns_prefix :: IString
  ns_delimiter :: "QuotedChar option"
  ns_extensions :: "NamespaceResponseExtension list"

datatype UidElement = UidElement_Single u32 | UidElement_Range u32 u32

datatype UidSet = UidSet "UidElement list"

datatype AuthenticateData = Continue "bytes Secret" | Cancel

datatype IdleDone = IdleDone

section \<open>Commands\<close>

datatype SelectParameter =
    Select_CondStore
  | Select_QResync u32 u64 "SequenceSet option" "(SequenceSet \<times> SequenceSet) option"

datatype FetchModifier = ChangedSince u64 | Vanished

datatype StoreModifier = UnchangedSince u64

datatype CommandBody =
    Command_Capability
  | Command_Noop
  | Command_Logout
  | Command_StartTLS
  | Command_Authenticate AuthMechanism "bytes Secret option"
  | Command_Login AString "AString Secret"
  | Command_Select Mailbox "SelectParameter list"
  | Command_Unselect
  | Command_Examine Mailbox "SelectParameter list"
  | Command_Create Mailbox
  | Command_Delete Mailbox
  | Command_Rename Mailbox Mailbox
  | Command_Subscribe Mailbox
  | Command_Unsubscribe Mailbox
  | Command_List Mailbox ListMailbox
  | Command_Lsub Mailbox ListMailbox
  | Command_Status Mailbox "StatusDataItemName list"
  | Command_Append Mailbox "Flag list" "DateTime option" LiteralOrLiteral8
  | Command_Check
  | Command_Close
  | Command_Expunge
  | Command_ExpungeUid SequenceSet
  | Command_Search "Charset option" "SearchKey list" bool
  | Command_Sort "SortCriterion list" Charset "SearchKey list" bool
  | Command_Thread ThreadingAlgorithm Charset "SearchKey list" bool
  | Command_Fetch SequenceSet MacroOrMessageDataItemNames bool "FetchModifier list"
  | Command_Store SequenceSet StoreType StoreResponse "Flag list" bool "StoreModifier list"
  | Command_Copy SequenceSet Mailbox bool
  | Command_Idle
  | Command_Enable "CapabilityEnable list"
  | Command_Compress CompressionAlgorithm
  | Command_GetQuota AString
  | Command_GetQuotaRoot Mailbox
  | Command_SetQuota AString "QuotaSet list"
  | Command_Move SequenceSet Mailbox bool
  | Command_Id "(IString \<times> NString) list option"
  | Command_SetMetadata Mailbox "EntryValue list"
  | Command_GetMetadata "GetMetadataOption list" Mailbox "Entry list"
  | Command_Namespace

record Command =
  cmd_tag :: Tag
  cmd_body :: CommandBody

fun CommandBody_name :: "CommandBody \<Rightarrow> bytes" where
  "CommandBody_name Command_Capability = ''CAPABILITY''"
| "CommandBody_name Command_Noop = ''NOOP''"
| "CommandBody_name Command_Logout = ''LOGOUT''"
| "CommandBody_name Command_StartTLS = ''STARTTLS''"
| "CommandBody_name (Command_Authenticate _ _) = ''AUTHENTICATE''"
| "CommandBody_name (Command_Login _ _) = ''LOGIN''"
| "CommandBody_name (Command_Select _ _) = ''SELECT''"
| "CommandBody_name (Command_Sort _ _ _ _) = ''SORT''"
| "CommandBody_name (Command_Thread _ _ _ _) = ''THREAD''"
| "CommandBody_name Command_Unselect = ''UNSELECT''"
| "CommandBody_name (Command_Examine _ _) = ''EXAMINE''"
| "CommandBody_name (Command_Create _) = ''CREATE''"
| "CommandBody_name (Command_Delete _) = ''DELETE''"
| "CommandBody_name (Command_Rename _ _) = ''RENAME''"
| "CommandBody_name (Command_Subscribe _) = ''SUBSCRIBE''"
| "CommandBody_name (Command_Unsubscribe _) = ''UNSUBSCRIBE''"
| "CommandBody_name (Command_List _ _) = ''LIST''"
| "CommandBody_name (Command_Lsub _ _) = ''LSUB''"
| "CommandBody_name (Command_Status _ _) = ''STATUS''"
| "CommandBody_name (Command_Append _ _ _ _) = ''APPEND''"
| "CommandBody_name Command_Check = ''CHECK''"
| "CommandBody_name Command_Close = ''CLOSE''"
| "CommandBody_name Command_Expunge = ''EXPUNGE''"
| "CommandBody_name (Command_ExpungeUid _) = ''EXPUNGE''"
| "CommandBody_name (Command_Search _ _ _) = ''SEARCH''"
| "CommandBody_name (Command_Fetch _ _ _ _) = ''FETCH''"
| "CommandBody_name (Command_Store _ _ _ _ _ _) = ''STORE''"
| "CommandBody_name (Command_Copy _ _ _) = ''COPY''"
| "CommandBody_name Command_Idle = ''IDLE''"
| "CommandBody_name (Command_Enable _) = ''ENABLE''"
| "CommandBody_name (Command_Compress _) = ''COMPRESS''"
| "CommandBody_name (Command_GetQuota _) = ''GETQUOTA''"
| "CommandBody_name (Command_GetQuotaRoot _) = ''GETQUOTAROOT''"
| "CommandBody_name (Command_SetQuota _ _) = ''SETQUOTA''"
| "CommandBody_name (Command_Move _ _ _) = ''MOVE''"
| "CommandBody_name (Command_Id _) = ''ID''"
| "CommandBody_name (Command_SetMetadata _ _) = ''SETMETADATA''"
| "CommandBody_name (Command_GetMetadata _ _ _) = ''GETMETADATA''"
| "CommandBody_name Command_Namespace = ''NAMESPACE''"

section \<open>Responses\<close>

datatype CodeOther = CodeOther (code_other_inner: bytes)

datatype Code =
    Code_Alert
  | Code_BadCharset "Charset list"
  | Code_Capability "Capability list"
  | Code_Parse
  | Code_PermanentFlags "FlagPerm list"
  | Code_ReadOnly
  | Code_ReadWrite
  | Code_TryCreate
  | Code_UidNext u32
  | Code_UidValidity u32
  | Code_Unseen u32
  | Code_Referral bytes
  | Code_CompressionActive
  | Code_OverQuota
  | Code_TooBig
  | Code_Metadata MetadataCode
  | Code_UnknownCte
  | Code_AppendUid u32 u32
  | Code_CopyUid u32 UidSet UidSet
  | Code_UidNotSticky
  | Code_HighestModSeq u64
  | Code_Modified SequenceSet
  | Code_NoModSeq
  | Code_Closed
  | Code_Other CodeOther

datatype GreetingKind = Greeting_Ok | Greeting_PreAuth | Greeting_Bye

record Greeting =
  gr_kind :: GreetingKind
  gr_code :: "Code option"
  gr_text :: Text

datatype StatusKind = Status_Ok | Status_No | Status_Bad

record StatusBody =
  sb_kind :: StatusKind
  sb_code :: "Code option"
  sb_text :: Text

record Tagged =
  tagged_tag :: Tag
  tagged_body :: StatusBody

record Bye =
  bye_code :: "Code option"
  bye_text :: Text

datatype Status = Status_Untagged StatusBody | Status_Tagged Tagged | Status_Bye Bye

fun Status_new :: "Tag option \<Rightarrow> StatusKind \<Rightarrow> Code option \<Rightarrow> bytes \<Rightarrow> (ValidationError, Status) result" where
  "Status_new tag kind c text =
     res_bind (Text_try_from text) (\<lambda>text.
       let body = \<lparr>sb_kind = kind, sb_code = c, sb_text = text\<rparr>
       in case tag of
            Some tag \<Rightarrow> Inr (Status_Tagged \<lparr>tagged_tag = tag, tagged_body = body\<rparr>)
          | None \<Rightarrow> Inr (Status_Untagged body))"

datatype Data =
    Data_Capability "Capability list"
  | Data_List "FlagNameAttribute list" "QuotedChar option" Mailbox
  | Data_Lsub "FlagNameAttribute list" "QuotedChar option" Mailbox
  | Data_Status Mailbox "StatusDataItem list"
  | Data_Search "u32 list" "u64 option"
  | Data_Sort "u32 list" "u64 option"
  | Data_Thread "Thread list"
  | Data_Flags "Flag list"
  | Data_Exists u32
  | Data_Recent u32
  | Data_Expunge u32
  | Data_Fetch u32 "MessageDataItem list"
  | Data_Enabled "CapabilityEnable list"
  | Data_Quota AString "QuotaGet list"
  | Data_QuotaRoot Mailbox "AString list"
  | Data_Id "(IString \<times> NString) list option"
  | Data_Metadata Mailbox MetadataResponse
  | Data_Vanished bool SequenceSet
  | Data_Namespace "Namespace list" "Namespace list" "Namespace list"

text \<open>\<open>CommandContinuationRequestBasic::new\<close>; base64 decoding is a parameter, \<open>None\<close> its error.\<close>

datatype 'e ContinueError = ContinueError_Ambiguity | ContinueError_Text 'e

record CommandContinuationRequestBasic =
  ccrb_code :: "Code option"
  ccrb_text :: Text

datatype CommandContinuationRequest =
    Continue_Basic CommandContinuationRequestBasic
  | Continue_Base64 bytes

definition CommandContinuationRequestBasic_new ::
  "(bytes \<Rightarrow> bytes option) \<Rightarrow> Code option \<Rightarrow> bytes \<Rightarrow>
     (ValidationError ContinueError, CommandContinuationRequestBasic) result" where
  "CommandContinuationRequestBasic_new base64_decode c text =
     res_bind (map_err ContinueError_Text (Text_try_from text)) (\<lambda>text.
       if c = None \<and> starts_with ''['' (text_inner text) then Inl ContinueError_Ambiguity
       else if c = None \<and> base64_decode (text_inner text) \<noteq> None then Inl ContinueError_Ambiguity
       else Inr \<lparr>ccrb_code = c, ccrb_text = text\<rparr>)"

datatype Response =
    Response_CommandContinuationRequest CommandContinuationRequest
  | Response_Data Data
  | Response_Status Status

end
