(* ===== verification/Imap_Encode.thy ===== *)
theory Imap_Encode
  imports Imap_Types Imap_Fragmentizer
begin

text \<open>
  The encoder's machinery, \<open>imap-codec/src/codec/encode.rs\<close>: \<open>EncodeContext\<close>, \<open>Fragment\<close>,
  \<open>Encoded\<close> and the joining helpers of its module \<open>utils\<close>, with the encoders of the strings and
  numbers that all messages share. Writing to an \<open>EncodeContext\<close> never fails, so an encoder is a
  function on contexts and the \<open>?\<close> of the source is composition.

  \<open>emits\<close> is what every encoder owes the message it is part of, and the locale \<open>encoder\<close> the
  contract between the encoder of a type and the encoders that call it.
\<close>

section \<open>Contexts and fragments\<close>

datatype Fragment =
    Fragment_Line bytes
  | Fragment_Literal bytes LiteralMode

record EncodeContext =
  accumulator :: bytes
  ctx_items :: "Fragment list"

type_synonym emitter = "EncodeContext \<Rightarrow> EncodeContext"

definition EncodeContext_new :: EncodeContext where
  "EncodeContext_new = \<lparr>accumulator = [], ctx_items = []\<rparr>"

definition push_line :: emitter where
  "push_line ctx =
     ctx\<lparr>ctx_items := ctx_items ctx @ [Fragment_Line (accumulator ctx)], accumulator := []\<rparr>"

definition push_literal :: "LiteralMode \<Rightarrow> emitter" where
  "push_literal m ctx =
     ctx\<lparr>ctx_items := ctx_items ctx @ [Fragment_Literal (accumulator ctx) m], accumulator := []\<rparr>"

definition into_items :: "EncodeContext \<Rightarrow> Fragment list" where
  "into_items ctx =
     (if accumulator ctx \<noteq> [] then ctx_items ctx @ [Fragment_Line (accumulator ctx)]
      else ctx_items ctx)"

definition write_all :: "bytes \<Rightarrow> emitter" where
  "write_all buf ctx = ctx\<lparr>accumulator := accumulator ctx @ buf\<rparr>"

fun fragment_data :: "Fragment \<Rightarrow> bytes" where
  "fragment_data (Fragment_Line d) = d"
| "fragment_data (Fragment_Literal d _) = d"

definition dump :: "Fragment list \<Rightarrow> bytes" where
  "dump fs = concat (map fragment_data fs)"

definition encode_message :: "('a \<Rightarrow> emitter) \<Rightarrow> 'a \<Rightarrow> Fragment list" where
  "encode_message encode_ctx message = into_items (encode_ctx message EncodeContext_new)"

section \<open>Joining\<close>

text \<open>
  \<open>each\<close> runs its steps in order, \<open>skip\<close> is \<open>Ok(())\<close>. The arguments of the joining helpers are the
  encoders of the elements.
\<close>

definition skip :: emitter where
  "skip ctx = ctx"

definition only_if :: "bool \<Rightarrow> emitter \<Rightarrow> emitter" where
  "only_if b e = (if b then e else skip)"

primrec each :: "emitter list \<Rightarrow> EncodeContext \<Rightarrow> EncodeContext" where
  "each [] ctx = ctx"
| "each (e # es) ctx = each es (e ctx)"

definition join_serializable :: "emitter list \<Rightarrow> bytes \<Rightarrow> emitter" where
  "join_serializable elements sep =
     (if elements = [] then skip
      else each [each (map (\<lambda>item. each [item, write_all sep]) (butlast elements)), last elements])"

definition List1OrNil :: "emitter list \<Rightarrow> bytes \<Rightarrow> emitter" where
  "List1OrNil elements sep =
     (if elements = [] then write_all ''NIL''
      else each [write_all ''('', each (map (\<lambda>item. each [item, write_all sep]) (butlast elements)),
          last elements, write_all '')''])"

definition List1AttributeValueOrNil :: "(emitter \<times> emitter) list \<Rightarrow> emitter" where
  "List1AttributeValueOrNil elements =
     (if elements = [] then write_all ''NIL''
      else each [write_all ''('',
          each (map (\<lambda>(attribute, value).
              each [attribute, write_all '' '', value, write_all '' '']) (butlast elements)),
          (case last elements of (attribute, value) \<Rightarrow> each [attribute, write_all '' '', value]),
          write_all '')''])"

section \<open>Strings and numbers\<close>

definition u32_encode :: "u32 \<Rightarrow> emitter" where
  "u32_encode n = write_all (dec (unat n))"

definition u64_encode :: "u64 \<Rightarrow> emitter" where
  "u64_encode n = write_all (dec (unat n))"

definition Atom_encode :: "Atom \<Rightarrow> emitter" where
  "Atom_encode a = write_all (atom_inner a)"

definition AtomExt_encode :: "AtomExt \<Rightarrow> emitter" where
  "AtomExt_encode a = write_all (atom_ext_inner a)"

definition Tag_encode :: "Tag \<Rightarrow> emitter" where
  "Tag_encode t = write_all (tag_inner t)"

definition Text_encode :: "Text \<Rightarrow> emitter" where
  "Text_encode t = write_all (text_inner t)"

definition Quoted_encode :: "Quoted \<Rightarrow> emitter" where
  "Quoted_encode q = write_all ([dquote] @ escape_quoted (quoted_inner q) @ [dquote])"

definition QuotedUtf8_encode :: "QuotedUtf8 \<Rightarrow> emitter" where
  "QuotedUtf8_encode q = write_all ([dquote] @ escape_quoted (quoted_utf8_inner q) @ [dquote])"

definition Literal_encode :: "Literal \<Rightarrow> emitter" where
  "Literal_encode l =
     each [(case mode l of
        Sync \<Rightarrow> write_all (''{'' @ dec (length (data l)) @ ''}'' @ crlf)
      | NonSync \<Rightarrow> write_all (''{'' @ dec (length (data l)) @ ''+}'' @ crlf)),
       push_line, write_all (data l), push_literal (mode l)]"

definition Literal8_encode :: "Literal8 \<Rightarrow> emitter" where
  "Literal8_encode l =
     each [(case mode8 l of
        Sync \<Rightarrow> write_all (''~{'' @ dec (length (data8 l)) @ ''}'' @ crlf)
      | NonSync \<Rightarrow> write_all (''~{'' @ dec (length (data8 l)) @ ''+}'' @ crlf)),
       push_line, write_all (data8 l), push_literal (mode8 l)]"

fun LiteralOrLiteral8_encode :: "LiteralOrLiteral8 \<Rightarrow> emitter" where
  "LiteralOrLiteral8_encode (LL_Literal lit) = Literal_encode lit"
| "LiteralOrLiteral8_encode (LL_Literal8 lit8) = Literal8_encode lit8"

fun IString_encode :: "IString \<Rightarrow> emitter" where
  "IString_encode (IString_Literal val) = Literal_encode val"
| "IString_encode (IString_Quoted val) = Quoted_encode val"
| "IString_encode (IString_QuotedUtf8 val) = QuotedUtf8_encode val"

fun AString_encode :: "AString \<Rightarrow> emitter" where
  "AString_encode (AString_Atom atom) = AtomExt_encode atom"
| "AString_encode (AString_String imap_str) = IString_encode imap_str"

fun NString_encode :: "NString \<Rightarrow> emitter" where
  "NString_encode (NString (Some imap_str)) = IString_encode imap_str"
| "NString_encode (NString None) = write_all ''NIL''"

fun NString8_encode :: "NString8 \<Rightarrow> emitter" where
  "NString8_encode (NString8_NString nstring) = NString_encode nstring"
| "NString8_encode (NString8_Literal8 literal8) = Literal8_encode literal8"

fun Charset_encode :: "Charset \<Rightarrow> emitter" where
  "Charset_encode (Charset_Atom atom) = Atom_encode atom"
| "Charset_encode (Charset_Quoted quoted) = Quoted_encode quoted"

definition QuotedChar_encode :: "QuotedChar \<Rightarrow> emitter" where
  "QuotedChar_encode q =
     (if quoted_char_inner q = 0x5C then write_all [backslash, backslash]
      else if quoted_char_inner q = 0x22 then write_all [backslash, dquote]
      else write_all [char_of (quoted_char_inner q)])"

definition MailboxOther_encode :: "MailboxOther \<Rightarrow> emitter" where
  "MailboxOther_encode m = AString_encode (mailbox_inner m)"

fun Mailbox_encode :: "Mailbox \<Rightarrow> emitter" where
  "Mailbox_encode Inbox = write_all ''INBOX''"
| "Mailbox_encode (Mailbox_Other other) = MailboxOther_encode other"

definition ListCharString_encode :: "ListCharString \<Rightarrow> emitter" where
  "ListCharString_encode l = write_all (list_char_inner l)"

fun ListMailbox_encode :: "ListMailbox \<Rightarrow> emitter" where
  "ListMailbox_encode (ListMailbox_Token lcs) = ListCharString_encode lcs"
| "ListMailbox_encode (ListMailbox_String istr) = IString_encode istr"

section \<open>What an encoder owes the message\<close>

text \<open>
  An encoder's effect is a sequence of pieces: bytes of the current line, and literals, each
  announced at the end of the line that precedes it. A line ends where the writer of the whole
  message says so, or at an announcement; so no piece may hold a line break, and, for the end of
  the message, the text after the last \<open>{\<close> must hold a byte that no announcement has there.
\<close>

datatype piece = Txt bytes | Announced bytes LiteralMode bytes

definition announcement :: "LiteralMode \<Rightarrow> nat \<Rightarrow> bytes" where
  "announcement m n = ''{'' @ dec n @ (case m of Sync \<Rightarrow> ''}'' | NonSync \<Rightarrow> ''+}'')"

fun run_piece :: "piece \<Rightarrow> emitter" where
  "run_piece (Txt s) = write_all s"
| "run_piece (Announced p m d) =
     each [write_all (p @ announcement m (length d) @ crlf), push_line, write_all d, push_literal m]"

definition run :: "piece list \<Rightarrow> emitter" where
  "run ps = each (map run_piece ps)"

definition soft :: "char \<Rightarrow> bool" where
  "soft c \<longleftrightarrow> is_digit c \<or> c = CHR ''+'' \<or> c = CHR ''}''"

definition quiet :: "bytes \<Rightarrow> bool" where
  "quiet s \<longleftrightarrow> cr \<notin> set s \<and> lf \<notin> set s \<and>
     (case dropWhile soft (rev s) of [] \<Rightarrow> True | c # _ \<Rightarrow> c \<noteq> CHR ''{'')"

fun piece_ok :: "piece \<Rightarrow> bool" where
  "piece_ok (Txt s) \<longleftrightarrow> quiet s"
| "piece_ok (Announced p m d) \<longleftrightarrow> quiet p \<and> length d < 2 ^ 32"

definition emits :: "emitter \<Rightarrow> bool" where
  "emits e \<longleftrightarrow> (\<exists>ps. e = run ps \<and> list_all piece_ok ps)"

lemma quiet_Nil [simp]: "quiet []"
  by (simp add: quiet_def)

lemma quiet_append [intro]: "quiet s \<Longrightarrow> quiet t \<Longrightarrow> quiet (s @ t)"
  by (cases "dropWhile soft (rev t)")
    (auto simp: quiet_def dropWhile_append dropWhile_eq_Nil_conv list_all_iff)

lemma quiet_plain:
  "cr \<notin> set s \<Longrightarrow> lf \<notin> set s \<Longrightarrow> CHR ''{'' \<notin> set s \<Longrightarrow> quiet s"
  using set_dropWhileD [of _ soft "rev s"]
  by (fastforce simp: quiet_def split: list.splits)

lemma quiet_dquote: "cr \<notin> set s \<Longrightarrow> lf \<notin> set s \<Longrightarrow> quiet (s @ [dquote])"
  by (simp add: quiet_def soft_def is_digit_def)

lemma announces_not_quiet: "announces s a \<Longrightarrow> \<not> quiet s"
proof
  assume "announces s a" "quiet s"
  then obtain p ds where ds: "list_all is_digit ds"
    and s: "s = p @ ''{'' @ ds @ (case ann_mode a of Sync \<Rightarrow> ''}'' | NonSync \<Rightarrow> ''+}'')"
    by (auto simp: announces_def u32_digits_def digits_def)
  have "dropWhile soft (rev ds @ CHR ''{'' # rev p) = CHR ''{'' # rev p"
    using ds by (subst dropWhile_append2) (auto simp: list_all_iff soft_def is_digit_def)
  then have "dropWhile soft (rev s) = CHR ''{'' # rev p"
    by (cases "ann_mode a") (simp_all add: s soft_def)
  with \<open>quiet s\<close> show False by (simp add: quiet_def)
qed

lemma each_single [simp]: "each [e] = e"
  by (simp add: fun_eq_iff)

lemma each_append: "each (es @ fs) ctx = each fs (each es ctx)"
  by (induction es arbitrary: ctx) simp_all

lemma emits_write: "quiet s \<Longrightarrow> emits (write_all s)"
  by (auto simp: emits_def run_def skip_def fun_eq_iff intro!: exI [of _ "[Txt s]"])

lemma emits_Nil [emit_intros]: "emits (each [])"
  by (auto simp: emits_def run_def intro: exI [of _ "[]"])

lemma emits_skip [emit_intros]: "emits skip"
proof -
  have "skip = each []" by (simp add: fun_eq_iff skip_def)
  then show ?thesis by (metis emits_Nil)
qed

lemma emits_Cons [emit_intros]:
  assumes "emits e" "emits (each es)"
  shows "emits (each (e # es))"
proof -
  from assms obtain ps qs where "e = run ps" "each es = run qs" "list_all piece_ok (ps @ qs)"
    by (auto simp: emits_def)
  then show ?thesis
    unfolding emits_def
    by (intro exI [of _ "ps @ qs"]) (simp add: run_def fun_eq_iff each_append)
qed

lemma emits_only_if [emit_intros]: "(b \<Longrightarrow> emits e) \<Longrightarrow> emits (only_if b e)"
  by (simp add: only_if_def emits_skip)

lemma emits_if [emit_intros]: "(b \<Longrightarrow> emits e) \<Longrightarrow> (\<not> b \<Longrightarrow> emits f) \<Longrightarrow> emits (if b then e else f)"
  by simp

lemma emits_case_option [emit_intros]:
  "(v = None \<Longrightarrow> emits e) \<Longrightarrow> (\<And>x. v = Some x \<Longrightarrow> emits (f x)) \<Longrightarrow>
     emits (case v of None \<Rightarrow> e | Some x \<Rightarrow> f x)"
  by (cases v) simp_all

lemma emits_case_prod [emit_intros]:
  "(\<And>a b. v = (a, b) \<Longrightarrow> emits (f a b)) \<Longrightarrow> emits (case v of (a, b) \<Rightarrow> f a b)"
  by (cases v) simp

lemma emits_each: "list_all emits es \<Longrightarrow> emits (each es)"
  by (induction es) (simp_all add: emit_intros)

lemma emits_mapped [emit_intros]: "list_all emits (map f xs) \<Longrightarrow> emits (each (map f xs))"
  by (rule emits_each)

lemma emits_Announced:
  "quiet p \<Longrightarrow> length d < 2 ^ 32 \<Longrightarrow>
     emits (each [write_all (p @ announcement m (length d) @ crlf), push_line, write_all d, push_literal m])"
  by (auto simp: emits_def run_def skip_def fun_eq_iff intro!: exI [of _ "[Announced p m d]"])

lemma emits_join [emit_intros]:
  "list_all emits es \<Longrightarrow> quiet sep \<Longrightarrow> emits (join_serializable es sep)"
  by (cases es rule: rev_cases)
    (auto simp: join_serializable_def list_all_iff intro!: emits_mapped emits_Cons emits_Nil emits_write emits_skip)

lemma emits_list_or_nil [emit_intros]:
  "list_all emits es \<Longrightarrow> quiet sep \<Longrightarrow> emits (List1OrNil es sep)"
  by (cases es rule: rev_cases)
    (auto simp: List1OrNil_def list_all_iff quiet_plain intro!: emits_mapped emits_Cons emits_Nil emits_write)

lemma emits_attributes [emit_intros]:
  "list_all (\<lambda>(a, v). emits a \<and> emits v) es \<Longrightarrow> emits (List1AttributeValueOrNil es)"
  by (cases es rule: rev_cases)
    (auto simp: List1AttributeValueOrNil_def list_all_iff quiet_plain
      intro!: emits_mapped emits_Cons emits_Nil emits_write)

section \<open>From pieces to fragments\<close>

fun render :: "piece list \<Rightarrow> bytes \<Rightarrow> Fragment list \<times> bytes" where
  "render [] acc = ([], acc)"
| "render (Txt s # ps) acc = render ps (acc @ s)"
| "render (Announced p m d # ps) acc =
     (let (fs, rest) = render ps []
      in (Fragment_Line (acc @ p @ announcement m (length d) @ crlf) # Fragment_Literal d m # fs, rest))"

lemma run_render:
  "run ps ctx = \<lparr>accumulator = snd (render ps (accumulator ctx)),
     ctx_items = ctx_items ctx @ fst (render ps (accumulator ctx))\<rparr>"
proof (induction ps arbitrary: ctx)
  case (Cons p ps)
  then show ?case
    by (cases p) (simp_all add: run_def write_all_def push_line_def push_literal_def
        case_prod_unfold Let_def)
qed (simp add: run_def skip_def)

text \<open>
  A well-framed message: lines without inner breaks, each but the last ending in the announcement
  of exactly the literal that follows it, the last one ending in no announcement.
\<close>

fun well_framed :: "Fragment list \<Rightarrow> bool" where
  "well_framed [Fragment_Line l] \<longleftrightarrow> (\<exists>s. l = s @ crlf \<and> quiet s)"
| "well_framed (Fragment_Line l # Fragment_Literal d m # fs) \<longleftrightarrow>
     (\<exists>s. l = s @ announcement m (length d) @ crlf \<and> quiet s) \<and> length d < 2 ^ 32 \<and> well_framed fs"
| "well_framed _ \<longleftrightarrow> False"

lemma render_well_framed:
  "list_all piece_ok ps \<Longrightarrow> quiet acc \<Longrightarrow>
     well_framed (fst (render ps acc) @ [Fragment_Line (snd (render ps acc) @ crlf)])"
  by (induction ps acc rule: render.induct) (auto simp: case_prod_unfold Let_def quiet_append)

definition encoded :: "emitter \<Rightarrow> Fragment list" where
  "encoded e = into_items (e EncodeContext_new)"

lemma emits_well_framed: "emits e \<Longrightarrow> well_framed (encoded (each [e, write_all crlf]))"
proof -
  assume "emits e"
  then obtain ps where e: "e = run ps" and ps: "list_all piece_ok ps" by (auto simp: emits_def)
  from render_well_framed [OF ps quiet_Nil] show ?thesis
    by (simp add: encoded_def e run_render EncodeContext_new_def write_all_def into_items_def)
qed

text \<open>All bytes that an encoder writes, lines and literals in order.\<close>

definition flat :: "emitter \<Rightarrow> bytes" where
  "flat e = dump (encoded e)"

definition writes :: "emitter \<Rightarrow> bytes \<Rightarrow> bool" where
  "writes e bs \<longleftrightarrow> (\<forall>ctx. dump (into_items (e ctx)) = dump (into_items ctx) @ bs)"

lemma writes_flat: "writes e bs \<Longrightarrow> flat e = bs"
  by (simp add: writes_def flat_def encoded_def into_items_def EncodeContext_new_def dump_def)

lemma writes_write [simp]: "writes (write_all s) s"
  by (simp add: writes_def into_items_def write_all_def dump_def)

lemma writes_Nil: "writes (each []) []"
  by (simp add: writes_def)

lemma writes_Cons: "writes e s \<Longrightarrow> writes (each es) t \<Longrightarrow> writes (each (e # es)) (s @ t)"
  by (simp add: writes_def)

lemma emits_writes:
  assumes "emits e"
  shows "writes e (flat e)"
proof -
  have "\<exists>bs. writes (run ps) bs" for ps
  proof (induction ps)
    case (Cons p ps)
    then obtain bs where bs: "writes (run ps) bs" by blast
    have "\<exists>cs. writes (run_piece p) cs"
    proof (cases p)
      case (Announced q m d)
      have "writes (run_piece p) (q @ announcement m (length d) @ crlf @ d)"
        by (simp add: Announced writes_def into_items_def write_all_def push_line_def
            push_literal_def dump_def)
      then show ?thesis by blast
    next
      case (Txt s)
      then show ?thesis using writes_write [of s] by (simp, intro exI)
    qed
    then obtain cs where "writes (run_piece p) cs" by blast
    from writes_Cons [OF this bs [unfolded run_def]] have "writes (run (p # ps)) (cs @ bs)"
      by (simp only: run_def list.map)
    then show ?case by blast
  next
    case Nil
    have "writes (run []) []" by (simp add: run_def writes_Nil)
    then show ?case by blast
  qed
  with assms show ?thesis by (metis emits_def writes_flat)
qed

lemma flat_write [simp]: "flat (write_all s) = s"
  by (rule writes_flat) simp

lemma flat_Nil [simp]: "flat (each []) = []"
  by (rule writes_flat writes_Nil)+

lemma flat_Cons:
  "emits e \<Longrightarrow> emits (each es) \<Longrightarrow> flat (each (e # es)) = flat e @ flat (each es)"
  by (intro writes_flat writes_Cons emits_writes)

text \<open>The fragments that a \<open>Fragmentizer\<close> has to report for a message, by position.\<close>

fun infos :: "nat \<Rightarrow> Fragment list \<Rightarrow> FragmentInfo list" where
  "infos n (Fragment_Line l # Fragment_Literal d m # fs) =
     Line n (n + length l) (Some \<lparr>ann_mode = m, ann_length = of_nat (length d)\<rparr>) CrLf #
     Lit (n + length l) (n + length l + length d) # infos (n + length l + length d) fs"
| "infos n (Fragment_Line l # fs) = [Line n (n + length l) None CrLf]"
| "infos n _ = []"

lemma announcement_announces:
  "n < 2 ^ 32 \<Longrightarrow> announces (s @ announcement m n) \<lparr>ann_mode = m, ann_length = of_nat n\<rparr>"
  unfolding announces_def
  by (rule exI [of _ s], rule exI [of _ "dec n"])
    (simp add: announcement_def u32_digits_def digits_def dec_digits unat_of_nat_u32)

lemma announcement_clean: "cr \<notin> set (announcement m n)" "lf \<notin> set (announcement m n)"
  by (cases m; auto simp: announcement_def is_digit_def dest!: dec_digits_set)+

lemma is_line_quiet: "quiet s \<Longrightarrow> is_line (s @ crlf) None CrLf"
  using announces_not_quiet [of s]
  by (auto simp: is_line_def strip_cr_def quiet_def intro!: exI [of _ "s @ [cr]"])

lemma is_line_announced:
  assumes "quiet s" "n < 2 ^ 32"
  shows "is_line (s @ announcement m n @ crlf)
    (Some \<lparr>ann_mode = m, ann_length = of_nat n\<rparr>) CrLf"
  using assms announcement_announces [of n s m] announcement_clean [of m n]
  by (auto simp: is_line_def strip_cr_def butlast_append quiet_def
      intro!: exI [of _ "s @ announcement m n @ [cr]"] dest: announces_unique)

lemma well_framed_framed:
  "well_framed fs \<Longrightarrow> framed gs g Expect_Line \<Longrightarrow>
     framed (gs @ infos (length g) fs) (g @ dump fs) Expect_Nothing"
proof (induction fs arbitrary: gs g rule: well_framed.induct)
  case (1 l)
  then obtain s where "l = s @ crlf" "quiet s" by auto
  with framed_line [OF "1.prems"(2) is_line_quiet [of s]] show ?case by (simp add: dump_def)
next
  case (2 l d m fs)
  then obtain s where l: "l = s @ announcement m (length d) @ crlf" and s: "quiet s"
    and d: "length d < 2 ^ 32" and fs: "well_framed fs" by auto
  have len: "length d = unat (of_nat (length d) :: u32)" using d by (simp add: unat_of_nat_u32)
  note line = framed_line [OF "2.prems"(2) is_line_announced [OF s d, of m, folded l]]
  have "framed (gs @ [Line (length g) (length g + length l)
        (Some \<lparr>ann_mode = m, ann_length = of_nat (length d)\<rparr>) CrLf]) (g @ l)
      (Expect_Literal (of_nat (length d)))"
    using line by simp
  from "2.IH" [OF fs framed_literal [OF this len]] show ?case by (simp add: dump_def add.assoc)
qed simp_all

text \<open>What a client loop then sees: the encoder's own fragments.\<close>

lemma well_framed_slices:
  "well_framed fs \<Longrightarrow> sliced (g @ dump fs) (infos (length g) fs) =
     zip (infos (length g) fs) (map fragment_data fs)"
proof (induction fs arbitrary: g rule: well_framed.induct)
  case (2 l d m fs)
  then show ?case
    using "2.IH" [of "g @ l @ d"] by (simp add: sliced_def frag_slice_def dump_def add.assoc)
qed (simp_all add: sliced_def frag_slice_def dump_def)

lemma well_framed_drain:
  assumes "well_framed fs"
  shows "drain (enqueue_bytes (dump fs @ rest) without_max_message_size) =
    map_option (\<lambda>(ys, f'). (zip (infos 0 fs) (map fragment_data fs) @ ys, f'))
      (drain (enqueue_bytes rest without_max_message_size))"
proof -
  have "framed (infos 0 fs) (dump fs) Expect_Nothing"
    using well_framed_framed [OF assms framed_start] by simp
  from drain_message [OF this] show ?thesis
    using well_framed_slices [OF assms, of "[]"] by simp
qed

section \<open>The contract of a type's encoder\<close>

text \<open>
  \<open>ok x\<close> is what a value has to satisfy for its encoder to keep to \<open>emits\<close>. The encoders of
  composite messages rely on no more than this about the encoders they call.
\<close>

locale encoder =
  fixes enc :: "'a \<Rightarrow> emitter" and ok :: "'a \<Rightarrow> bool"
  assumes ok_emits: "ok x \<Longrightarrow> emits (enc x)"
begin

lemma emits_map: "list_all ok xs \<Longrightarrow> list_all emits (map enc xs)"
  by (auto simp: list_all_iff ok_emits)

lemma emits_each_map: "list_all ok xs \<Longrightarrow> quiet sep \<Longrightarrow> emits (each (map (\<lambda>x. each [write_all sep, enc x]) xs))"
  by (auto simp: list_all_iff ok_emits intro!: emit_intros emits_write)

end

text \<open>
  A whole message is what a client or server sends at once: it keeps to \<open>emits\<close> and ends its last
  line. \<open>wire\<close> is a pipeline of messages as bytes, \<open>sent\<close> the same as fragments with their
  positions, what the peer has to see.
\<close>

definition whole :: "emitter \<Rightarrow> bool" where
  "whole e \<longleftrightarrow> (\<exists>e'. emits e' \<and> e = each [e', write_all crlf])"

definition wire :: "('a \<Rightarrow> emitter) \<Rightarrow> 'a list \<Rightarrow> bytes" where
  "wire enc ms = concat (map (\<lambda>m. dump (encode_message enc m)) ms)"

definition sent :: "('a \<Rightarrow> emitter) \<Rightarrow> 'a list \<Rightarrow> (FragmentInfo \<times> bytes) list" where
  "sent enc ms = concat (map (\<lambda>m.
     zip (infos 0 (encode_message enc m)) (map fragment_data (encode_message enc m))) ms)"

lemma whole_Cons:
  assumes "emits e" "whole (each es)"
  shows "whole (each (e # es))"
proof -
  from assms(2) obtain f where f: "emits f" "each es = each [f, write_all crlf]"
    by (auto simp: whole_def)
  then have "each (e # es) = each [each [e, f], write_all crlf]" by (simp add: fun_eq_iff)
  moreover have "emits (each [e, f])" by (intro emit_intros assms(1) f(1))
  ultimately show ?thesis unfolding whole_def by blast
qed

lemma whole_end: "whole (each [write_all crlf])"
  unfolding whole_def by (intro exI [of _ "each []"]) (simp add: emits_Nil fun_eq_iff)

lemmas whole_last = whole_Cons [OF _ whole_end]

lemma whole_line: "quiet s \<Longrightarrow> whole (write_all (s @ crlf))"
  unfolding whole_def
  by (intro exI [of _ "write_all s"]) (simp add: emits_write write_all_def fun_eq_iff)

locale framed_message =
  fixes enc :: "'a \<Rightarrow> emitter" and ok :: "'a \<Rightarrow> bool"
  assumes ok_whole: "ok x \<Longrightarrow> whole (enc x)"
begin

lemma framed_alone: "ok x \<Longrightarrow> well_framed (encode_message enc x)"
  using ok_whole [of x] emits_well_framed
  by (auto simp: whole_def encode_message_def simp flip: encoded_def)

lemma pipelined:
  "list_all ok ms \<Longrightarrow> drain (enqueue_bytes (wire enc ms) without_max_message_size) =
     Some (sent enc ms, without_max_message_size)"
proof (induction ms)
  case Nil
  then show ?case by (simp add: wire_def sent_def drain_nothing)
next
  case (Cons m ms)
  then show ?case
    using well_framed_drain [OF framed_alone, of m "wire enc ms"] by (simp add: wire_def sent_def)
qed

end

section \<open>The encoders of strings and numbers keep the contract\<close>

definition bland :: "char \<Rightarrow> bool" where
  "bland c \<longleftrightarrow> c \<noteq> cr \<and> c \<noteq> lf \<and> c \<noteq> CHR ''{''"

definition blands :: "bytes \<Rightarrow> bool" where
  "blands s \<longleftrightarrow> list_all bland s"

lemma blands_simps [simp]:
  "blands []" "blands (c # s) \<longleftrightarrow> bland c \<and> blands s" "blands (s @ t) \<longleftrightarrow> blands s \<and> blands t"
  by (simp_all add: blands_def)

lemma blands_quiet [simp]: "blands s \<Longrightarrow> quiet s"
  by (rule quiet_plain) (auto simp: blands_def bland_def list_all_iff)

lemma quiet_bland_Cons [simp]:
  assumes "c \<noteq> cr" "c \<noteq> lf" "c \<noteq> CHR ''{''"
  shows "quiet (c # s) \<longleftrightarrow> quiet s"
proof (cases "\<forall>x\<in>set s. soft x")
  case True
  then have "dropWhile soft (rev s) = []" "dropWhile soft (rev s @ [c]) = dropWhile soft [c]"
    by (simp, intro dropWhile_append2) simp
  then show ?thesis using assms by (simp add: quiet_def del: dropWhile_eq_Nil_conv)
next
  case False
  then obtain x where "x \<in> set (rev s)" "\<not> soft x" by auto
  then have "dropWhile soft (rev s @ [c]) = dropWhile soft (rev s) @ [c]"
    by (rule dropWhile_append1)
  moreover from \<open>x \<in> set (rev s)\<close> \<open>\<not> soft x\<close> obtain y ys where "dropWhile soft (rev s) = y # ys"
    by (cases "dropWhile soft (rev s)") auto
  ultimately show ?thesis using assms by (simp add: quiet_def)
qed

lemma quiet_blands_append [simp]: "blands s \<Longrightarrow> quiet (s @ t) \<longleftrightarrow> quiet t"
  by (induction s) (simp_all add: bland_def)

lemma blands_digits [simp]: "blands (dec n)"
  by (auto simp: blands_def bland_def list_all_iff is_digit_def dest!: dec_digits_set)

lemma blands_valid:
  "atom.valid s \<Longrightarrow> blands s" "atom_ext.valid s \<Longrightarrow> blands s" "tag.valid s \<Longrightarrow> blands s"
  "list_char.valid s \<Longrightarrow> blands s"
proof -
  have *: "list_all is_list_char s \<Longrightarrow> blands s" for s
    by (auto simp: blands_def bland_def list_all_iff dest: list_char_bland)
  show "atom.valid s \<Longrightarrow> blands s" "atom_ext.valid s \<Longrightarrow> blands s" "tag.valid s \<Longrightarrow> blands s"
    "list_char.valid s \<Longrightarrow> blands s"
    by (rule *; auto simp: valid_defs tag.valid_def list_char.valid_def is_tag_char_def
        list_all_iff atom_char_astring_char astring_char_list_char)+
qed

lemma escape_quoted_set: "c \<in> set (escape_quoted s) \<Longrightarrow> c \<in> set s \<or> c = backslash"
  by (auto simp: escape_quoted_spec quoted_char_bytes_def split: if_splits)

lemma quiet_quoted:
  assumes "cr \<notin> set s" "lf \<notin> set s"
  shows "quiet (escape_quoted s @ [dquote])"
  using assms by (intro quiet_dquote) (auto dest: escape_quoted_set)

lemma emits_literal:
  "length (data l) < 2 ^ 32 \<Longrightarrow> emits (Literal_encode l)"
  using emits_Announced [of "[]" "data l" "mode l"]
  by (cases "mode l") (simp_all add: Literal_encode_def announcement_def)

lemma emits_literal8:
  "length (data8 l) < 2 ^ 32 \<Longrightarrow> emits (Literal8_encode l)"
  using emits_Announced [of "''~''" "data8 l" "mode8 l"]
  by (cases "mode8 l") (simp_all add: Literal8_encode_def announcement_def)

text \<open>
  What a string has to satisfy: its type's own validity, a literal shorter than the 32-bit length
  an announcement can carry, and no line break in a \<open>QuotedUtf8\<close>, which its type does not check.
\<close>

fun ok_istring :: "IString \<Rightarrow> bool" where
  "ok_istring (IString_Literal l) \<longleftrightarrow> wf_literal l \<and> length (data l) < 2 ^ 32"
| "ok_istring (IString_Quoted q) \<longleftrightarrow> wf_quoted q"
| "ok_istring (IString_QuotedUtf8 q) \<longleftrightarrow>
     cr \<notin> set (quoted_utf8_inner q) \<and> lf \<notin> set (quoted_utf8_inner q)"

fun ok_astring :: "AString \<Rightarrow> bool" where
  "ok_astring (AString_Atom a) \<longleftrightarrow> wf_atom_ext a"
| "ok_astring (AString_String i) \<longleftrightarrow> ok_istring i"

fun ok_nstring :: "NString \<Rightarrow> bool" where
  "ok_nstring (NString None) \<longleftrightarrow> True"
| "ok_nstring (NString (Some i)) \<longleftrightarrow> ok_istring i"

definition ok_literal8 :: "Literal8 \<Rightarrow> bool" where
  "ok_literal8 l \<longleftrightarrow> length (data8 l) < 2 ^ 32"

fun ok_nstring8 :: "NString8 \<Rightarrow> bool" where
  "ok_nstring8 (NString8_NString n) \<longleftrightarrow> ok_nstring n"
| "ok_nstring8 (NString8_Literal8 l) \<longleftrightarrow> ok_literal8 l"

fun ok_literal_or_literal8 :: "LiteralOrLiteral8 \<Rightarrow> bool" where
  "ok_literal_or_literal8 (LL_Literal l) \<longleftrightarrow> wf_literal l \<and> length (data l) < 2 ^ 32"
| "ok_literal_or_literal8 (LL_Literal8 l) \<longleftrightarrow> ok_literal8 l"

fun ok_mailbox :: "Mailbox \<Rightarrow> bool" where
  "ok_mailbox Inbox \<longleftrightarrow> True"
| "ok_mailbox (Mailbox_Other m) \<longleftrightarrow> ok_astring (mailbox_inner m)"

fun ok_list_mailbox :: "ListMailbox \<Rightarrow> bool" where
  "ok_list_mailbox (ListMailbox_Token t) \<longleftrightarrow> wf_list_char t"
| "ok_list_mailbox (ListMailbox_String i) \<longleftrightarrow> ok_istring i"

definition ok_quoted_char :: "QuotedChar \<Rightarrow> bool" where
  "ok_quoted_char q \<longleftrightarrow> QuotedChar_validate (quoted_char_inner q) = Inr ()"

lemma text_valid_no_break: "list_all is_text_char s \<Longrightarrow> cr \<notin> set s \<and> lf \<notin> set s"
  by (auto simp: list_all_iff dest: text_char_not_crlf)

lemma quoted_no_break: "quoted.valid s \<Longrightarrow> cr \<notin> set s \<and> lf \<notin> set s"
  by (rule text_valid_no_break) (simp add: quoted.valid_def)

lemmas [emit_intros] = emits_literal emits_literal8

interpretation quoted_encoder: encoder Quoted_encode wf_quoted
  by unfold_locales (auto simp: Quoted_encode_def quiet_quoted quoted_no_break intro!: emits_write)

interpretation istring_encoder: encoder IString_encode ok_istring
proof
  fix i
  assume "ok_istring i"
  then show "emits (IString_encode i)"
    by (cases i) (auto simp: emits_literal quoted_encoder.ok_emits QuotedUtf8_encode_def quiet_quoted
        intro!: emits_write)
qed

interpretation atom_encoder: encoder Atom_encode wf_atom
  by unfold_locales (auto simp: Atom_encode_def blands_valid intro!: emits_write)

interpretation atom_ext_encoder: encoder AtomExt_encode wf_atom_ext
  by unfold_locales (auto simp: AtomExt_encode_def blands_valid intro!: emits_write)

interpretation tag_encoder: encoder Tag_encode wf_tag
  by unfold_locales (auto simp: Tag_encode_def blands_valid intro!: emits_write)

interpretation astring_encoder: encoder AString_encode ok_astring
proof
  fix a
  assume "ok_astring a"
  then show "emits (AString_encode a)"
    by (cases a) (simp_all add: atom_ext_encoder.ok_emits istring_encoder.ok_emits)
qed

interpretation nstring_encoder: encoder NString_encode ok_nstring
proof
  fix n
  assume "ok_nstring n"
  then show "emits (NString_encode n)"
    by (cases n rule: NString_encode.cases)
      (simp_all add: istring_encoder.ok_emits emits_write bland_def)
qed

interpretation nstring8_encoder: encoder NString8_encode ok_nstring8
proof
  fix n
  assume "ok_nstring8 n"
  then show "emits (NString8_encode n)"
    by (cases n) (simp_all add: nstring_encoder.ok_emits emits_literal8 ok_literal8_def)
qed

interpretation literal_encoder: encoder LiteralOrLiteral8_encode ok_literal_or_literal8
proof
  fix l
  assume "ok_literal_or_literal8 l"
  then show "emits (LiteralOrLiteral8_encode l)"
    by (cases l) (simp_all add: emits_literal emits_literal8 ok_literal8_def)
qed

interpretation charset_encoder: encoder Charset_encode wf_charset
proof
  fix c
  assume "wf_charset c"
  then show "emits (Charset_encode c)"
    by (cases c) (simp_all add: atom_encoder.ok_emits quoted_encoder.ok_emits)
qed

interpretation mailbox_encoder: encoder Mailbox_encode ok_mailbox
proof
  fix m
  assume "ok_mailbox m"
  then show "emits (Mailbox_encode m)"
    by (cases m) (simp_all add: MailboxOther_encode_def astring_encoder.ok_emits emits_write bland_def)
qed

interpretation list_mailbox_encoder: encoder ListMailbox_encode ok_list_mailbox
proof
  fix m
  assume "ok_list_mailbox m"
  then show "emits (ListMailbox_encode m)"
    by (cases m) (simp_all add: ListCharString_encode_def istring_encoder.ok_emits emits_write
        blands_valid)
qed

interpretation u32_encoder: encoder u32_encode "\<lambda>_. True"
  by unfold_locales (simp add: u32_encode_def emits_write)

interpretation u64_encoder: encoder u64_encode "\<lambda>_. True"
  by unfold_locales (simp add: u64_encode_def emits_write)

text \<open>A delimiter between double quotes; on its own it might be an opening brace.\<close>

lemma write_all_seq: "each (write_all s # write_all t # es) = each (write_all (s @ t) # es)"
  by (simp add: write_all_def fun_eq_iff)

lemma quoted_char_delimited [emit_intros]:
  assumes "ok_quoted_char q"
  shows "emits (each [write_all [dquote], QuotedChar_encode q, write_all [dquote]])"
proof -
  from assms have "quoted.valid [char_of (quoted_char_inner q)]"
    by (simp add: ok_quoted_char_def QuotedChar_validate_iff)
  then have "quiet ([char_of (quoted_char_inner q)] @ [dquote])"
    by (intro quiet_dquote) (auto dest: quoted_no_break)
  then show ?thesis
    by (auto simp: QuotedChar_encode_def write_all_seq intro!: emits_write)
qed

end
