(* ===== verification/Imap_Encode_Command.thy ===== *)
theory Imap_Encode_Command
  imports Imap_Encode
begin

text \<open>
  The encoders of what a client sends: commands with all their arguments, authentication data and
  the end of \<open>IDLE\<close> (\<open>encode.rs\<close> and the encoders of the extensions).
\<close>

section \<open>The outside world\<close>

text \<open>
  What the encoder takes from other crates: base64 (\<open>base64\<close>), the formatting of dates
  (\<open>chrono\<close>, with the formats \<open>%d-%b-%Y\<close> and \<open>%d-%b-%Y %H:%M:%S %z\<close>) and the order in which a
  \<open>HashSet\<close> is iterated.
\<close>

record Env =
  base64_encode :: "bytes \<Rightarrow> bytes"
  format_date :: "ChronoNaiveDate \<Rightarrow> bytes"
  format_datetime :: "ChronoDateTime \<Rightarrow> bytes"
  hash_order :: "u32 list \<Rightarrow> u32 list"

definition is_base64_char :: "char \<Rightarrow> bool" where
  "is_base64_char c \<longleftrightarrow> is_alphanumeric c \<or> c = CHR ''+'' \<or> c = CHR ''/'' \<or> c = CHR ''=''"

definition is_date_char :: "char \<Rightarrow> bool" where
  "is_date_char c \<longleftrightarrow> is_alphanumeric c \<or> c = CHR ''+'' \<or> c = CHR ''-'' \<or> c = CHR '':'' \<or> c = sp"

text \<open>The documented alphabets of the standard base64 encoding and of the two date formats.\<close>

definition env_ok :: "Env \<Rightarrow> bool" where
  "env_ok env \<longleftrightarrow> (\<forall>bs. list_all is_base64_char (base64_encode env bs)) \<and>
     (\<forall>d. list_all is_date_char (format_date env d)) \<and>
     (\<forall>d. list_all is_date_char (format_datetime env d))"

section \<open>Sequence sets and dates\<close>

definition SeqOrUid_encode :: "SeqOrUid \<Rightarrow> emitter" where
  "SeqOrUid_encode s = (case s of Value number \<Rightarrow> write_all (dec (unat number)) | Asterisk \<Rightarrow> write_all ''*'')"

definition Sequence_encode :: "Sequence \<Rightarrow> emitter" where
  "Sequence_encode self =
     (case Sequence_normalize self of
        Single seq_no \<Rightarrow> SeqOrUid_encode seq_no
      | Range a b \<Rightarrow> each [SeqOrUid_encode a, write_all '':'', SeqOrUid_encode b])"

definition SequenceSet_encode :: "Env \<Rightarrow> SequenceSet \<Rightarrow> emitter" where
  "SequenceSet_encode env self =
     join_serializable
       (map Sequence_encode (sequences (SequenceSet_normalize (hash_order env) self))) '',''"

definition NaiveDate_encode :: "Env \<Rightarrow> NaiveDate \<Rightarrow> emitter" where
  "NaiveDate_encode env d =
     write_all ([dquote] @ format_date env (naive_date_inner d) @ [dquote])"

definition DateTime_encode :: "Env \<Rightarrow> DateTime \<Rightarrow> emitter" where
  "DateTime_encode env d =
     write_all ([dquote] @ format_datetime env (datetime_inner d) @ [dquote])"

section \<open>Flags, capabilities, search keys\<close>

definition Flag_encode :: "Flag \<Rightarrow> emitter" where
  "Flag_encode f = write_all (Flag_display f)"

definition Capability_encode :: "Capability \<Rightarrow> emitter" where
  "Capability_encode c = write_all (Capability_display c)"

definition AuthMechanism_encode :: "AuthMechanism \<Rightarrow> emitter" where
  "AuthMechanism_encode m = write_all (AuthMechanism_as_ref m)"

primrec SearchKey_encode :: "Env \<Rightarrow> SearchKey \<Rightarrow> emitter" where
  "SearchKey_encode env SearchKey_All = write_all ''ALL''"
| "SearchKey_encode env SearchKey_Answered = write_all ''ANSWERED''"
| "SearchKey_encode env (SearchKey_Bcc astring) = each [write_all ''BCC '', AString_encode astring]"
| "SearchKey_encode env (SearchKey_Before date) = each [write_all ''BEFORE '', NaiveDate_encode env date]"
| "SearchKey_encode env (SearchKey_Body astring) = each [write_all ''BODY '', AString_encode astring]"
| "SearchKey_encode env (SearchKey_Cc astring) = each [write_all ''CC '', AString_encode astring]"
| "SearchKey_encode env SearchKey_Deleted = write_all ''DELETED''"
| "SearchKey_encode env SearchKey_Flagged = write_all ''FLAGGED''"
| "SearchKey_encode env (SearchKey_From astring) = each [write_all ''FROM '', AString_encode astring]"
| "SearchKey_encode env (SearchKey_Keyword flag_keyword) =
     each [write_all ''KEYWORD '', Atom_encode flag_keyword]"
| "SearchKey_encode env SearchKey_New = write_all ''NEW''"
| "SearchKey_encode env SearchKey_Old = write_all ''OLD''"
| "SearchKey_encode env (SearchKey_On date) = each [write_all ''ON '', NaiveDate_encode env date]"
| "SearchKey_encode env SearchKey_Recent = write_all ''RECENT''"
| "SearchKey_encode env SearchKey_Seen = write_all ''SEEN''"
| "SearchKey_encode env (SearchKey_Since date) = each [write_all ''SINCE '', NaiveDate_encode env date]"
| "SearchKey_encode env (SearchKey_Subject astring) = each [write_all ''SUBJECT '', AString_encode astring]"
| "SearchKey_encode env (SearchKey_Text astring) = each [write_all ''TEXT '', AString_encode astring]"
| "SearchKey_encode env (SearchKey_To astring) = each [write_all ''TO '', AString_encode astring]"
| "SearchKey_encode env SearchKey_Unanswered = write_all ''UNANSWERED''"
| "SearchKey_encode env SearchKey_Undeleted = write_all ''UNDELETED''"
| "SearchKey_encode env SearchKey_Unflagged = write_all ''UNFLAGGED''"
| "SearchKey_encode env (SearchKey_Unkeyword flag_keyword) =
     each [write_all ''UNKEYWORD '', Atom_encode flag_keyword]"
| "SearchKey_encode env SearchKey_Unseen = write_all ''UNSEEN''"
| "SearchKey_encode env SearchKey_Draft = write_all ''DRAFT''"
| "SearchKey_encode env (SearchKey_Header header_fld_name astring) =
     each [write_all ''HEADER '', AString_encode header_fld_name, write_all '' '', AString_encode astring]"
| "SearchKey_encode env (SearchKey_Larger number) = write_all (''LARGER '' @ dec (unat number))"
| "SearchKey_encode env (SearchKey_Not search_key) =
     each [write_all ''NOT '', SearchKey_encode env search_key]"
| "SearchKey_encode env (SearchKey_Or search_key_a search_key_b) =
     each [write_all ''OR '', SearchKey_encode env search_key_a, write_all '' '',
         SearchKey_encode env search_key_b]"
| "SearchKey_encode env (SearchKey_SentBefore date) =
     each [write_all ''SENTBEFORE '', NaiveDate_encode env date]"
| "SearchKey_encode env (SearchKey_SentOn date) = each [write_all ''SENTON '', NaiveDate_encode env date]"
| "SearchKey_encode env (SearchKey_SentSince date) =
     each [write_all ''SENTSINCE '', NaiveDate_encode env date]"
| "SearchKey_encode env (SearchKey_Smaller number) = write_all (''SMALLER '' @ dec (unat number))"
| "SearchKey_encode env (SearchKey_Older seconds) = write_all (''OLDER '' @ dec (unat seconds))"
| "SearchKey_encode env (SearchKey_Younger seconds) = write_all (''YOUNGER '' @ dec (unat seconds))"
| "SearchKey_encode env (SearchKey_Uid sequence_set) =
     each [write_all ''UID '', SequenceSet_encode env sequence_set]"
| "SearchKey_encode env SearchKey_Undraft = write_all ''UNDRAFT''"
| "SearchKey_encode env (SearchKey_ModSequence entry modseq) =
     each [write_all ''MODSEQ'',
         (case entry of
             Some (attribute_flag, entry_type_req) \<Rightarrow>
               each [write_all ('' '' @ [dquote] @ ''/flags/'' @ AttributeFlag_display attribute_flag @ [dquote]),
                 write_all ('' '' @ EntryTypeReq_display entry_type_req)]
           | None \<Rightarrow> skip),
         write_all '' '', u64_encode modseq]"
| "SearchKey_encode env (SearchKey_SequenceSet sequence_set) = SequenceSet_encode env sequence_set"
| "SearchKey_encode env (SearchKey_And search_keys) =
     each [write_all ''('', join_serializable (map (SearchKey_encode env) search_keys) '' '', write_all '')'']"

section \<open>Fetch items\<close>

primrec Part_encode :: "Part \<Rightarrow> emitter" where
  "Part_encode (Part numbers) = join_serializable (map u32_encode numbers) ''.''"

primrec Section_encode :: "Section \<Rightarrow> emitter" where
  "Section_encode (Section_Part part) = Part_encode part"
| "Section_encode (Section_Header maybe_part) =
     (case maybe_part of
        Some part \<Rightarrow> each [Part_encode part, write_all ''.HEADER'']
      | None \<Rightarrow> write_all ''HEADER'')"
| "Section_encode (Section_HeaderFields maybe_part header_list) =
     each [(case maybe_part of
        Some part \<Rightarrow> each [Part_encode part, write_all ''.HEADER.FIELDS ('']
      | None \<Rightarrow> write_all ''HEADER.FIELDS (''),
       join_serializable (map AString_encode header_list) '' '', write_all '')'']"
| "Section_encode (Section_HeaderFieldsNot maybe_part header_list) =
     each [(case maybe_part of
        Some part \<Rightarrow> each [Part_encode part, write_all ''.HEADER.FIELDS.NOT ('']
      | None \<Rightarrow> write_all ''HEADER.FIELDS.NOT (''),
       join_serializable (map AString_encode header_list) '' '', write_all '')'']"
| "Section_encode (Section_Text maybe_part) =
     (case maybe_part of
        Some part \<Rightarrow> each [Part_encode part, write_all ''.TEXT'']
      | None \<Rightarrow> write_all ''TEXT'')"
| "Section_encode (Section_Mime part) = each [Part_encode part, write_all ''.MIME'']"

primrec MessageDataItemName_encode :: "MessageDataItemName \<Rightarrow> emitter" where
  "MessageDataItemName_encode ItemName_Body = write_all ''BODY''"
| "MessageDataItemName_encode (ItemName_BodyExt sect partial peek) =
     each [(if peek then write_all ''BODY.PEEK['' else write_all ''BODY[''),
       (case sect of Some s \<Rightarrow> Section_encode s | None \<Rightarrow> skip),
       write_all '']'',
       (case partial of
           Some (a, b) \<Rightarrow> write_all (''<'' @ dec (unat a) @ ''.'' @ dec (unat b) @ ''>'')
         | None \<Rightarrow> skip)]"
| "MessageDataItemName_encode ItemName_BodyStructure = write_all ''BODYSTRUCTURE''"
| "MessageDataItemName_encode ItemName_Envelope = write_all ''ENVELOPE''"
| "MessageDataItemName_encode ItemName_Flags = write_all ''FLAGS''"
| "MessageDataItemName_encode ItemName_InternalDate = write_all ''INTERNALDATE''"
| "MessageDataItemName_encode ItemName_Rfc822 = write_all ''RFC822''"
| "MessageDataItemName_encode ItemName_Rfc822Header = write_all ''RFC822.HEADER''"
| "MessageDataItemName_encode ItemName_Rfc822Size = write_all ''RFC822.SIZE''"
| "MessageDataItemName_encode ItemName_Rfc822Text = write_all ''RFC822.TEXT''"
| "MessageDataItemName_encode ItemName_Uid = write_all ''UID''"
| "MessageDataItemName_encode (ItemName_Binary sect partial peek) =
     each [write_all ''BINARY'', only_if peek (write_all ''.PEEK''),
       write_all ''['', join_serializable (map u32_encode sect) ''.'', write_all '']'',
       (case partial of
           Some (a, b) \<Rightarrow>
             each [write_all ''<'', u32_encode a, write_all ''.'', u32_encode b, write_all ''>'']
         | None \<Rightarrow> skip)]"
| "MessageDataItemName_encode (ItemName_BinarySize sect) =
     each [write_all ''BINARY.SIZE'',
       write_all ''['', join_serializable (map u32_encode sect) ''.'', write_all '']'']"
| "MessageDataItemName_encode ItemName_ModSeq = write_all ''MODSEQ''"

definition Macro_encode :: "Macro \<Rightarrow> emitter" where
  "Macro_encode m = write_all (Macro_display m)"

primrec MacroOrMessageDataItemNames_encode :: "MacroOrMessageDataItemNames \<Rightarrow> emitter" where
  "MacroOrMessageDataItemNames_encode (Fetch_Macro m) = Macro_encode m"
| "MacroOrMessageDataItemNames_encode (Fetch_ItemNames item_names) =
     (if length item_names = 1 then MessageDataItemName_encode (item_names ! 0)
      else each [write_all ''('', join_serializable (map MessageDataItemName_encode item_names) '' '',
          write_all '')''])"

section \<open>Command arguments\<close>

primrec StatusDataItemName_encode :: "StatusDataItemName \<Rightarrow> emitter" where
  "StatusDataItemName_encode StatusName_Messages = write_all ''MESSAGES''"
| "StatusDataItemName_encode StatusName_Recent = write_all ''RECENT''"
| "StatusDataItemName_encode StatusName_UidNext = write_all ''UIDNEXT''"
| "StatusDataItemName_encode StatusName_UidValidity = write_all ''UIDVALIDITY''"
| "StatusDataItemName_encode StatusName_Unseen = write_all ''UNSEEN''"
| "StatusDataItemName_encode StatusName_Deleted = write_all ''DELETED''"
| "StatusDataItemName_encode StatusName_DeletedStorage = write_all ''DELETED-STORAGE''"
| "StatusDataItemName_encode StatusName_Size = write_all ''SIZE''"
| "StatusDataItemName_encode StatusName_HighestModSeq = write_all ''HIGHESTMODSEQ''"

primrec FetchModifier_encode :: "FetchModifier \<Rightarrow> emitter" where
  "FetchModifier_encode (ChangedSince since) = write_all (''CHANGEDSINCE '' @ dec (unat since))"
| "FetchModifier_encode Vanished = write_all ''VANISHED''"

primrec StoreModifier_encode :: "StoreModifier \<Rightarrow> emitter" where
  "StoreModifier_encode (UnchangedSince since) = write_all (''UNCHANGEDSINCE '' @ dec (unat since))"

primrec SelectParameter_encode :: "Env \<Rightarrow> SelectParameter \<Rightarrow> emitter" where
  "SelectParameter_encode env Select_CondStore = write_all ''CONDSTORE''"
| "SelectParameter_encode env
     (Select_QResync uid_validity mod_sequence_value known_uids seq_match_data) =
     each [write_all ''QRESYNC ('', u32_encode uid_validity, write_all '' '',
       u64_encode mod_sequence_value,
       (case known_uids of
           Some known_uids \<Rightarrow> each [write_all '' '', SequenceSet_encode env known_uids]
         | None \<Rightarrow> skip),
       (case seq_match_data of
           Some (known_sequence_set, known_uid_set) \<Rightarrow>
             each [write_all '' ('', SequenceSet_encode env known_sequence_set, write_all '' '',
               SequenceSet_encode env known_uid_set, write_all '')'']
         | None \<Rightarrow> skip),
       write_all '')'']"

definition SortCriterion_encode :: "SortCriterion \<Rightarrow> emitter" where
  "SortCriterion_encode c =
     each [only_if (sc_reverse c) (write_all ''REVERSE ''), write_all (SortKey_as_ref (sc_key c))]"

primrec ThreadingAlgorithm_encode :: "ThreadingAlgorithm \<Rightarrow> emitter" where
  "ThreadingAlgorithm_encode OrderedSubject = write_all ''ORDEREDSUBJECT''"
| "ThreadingAlgorithm_encode References = write_all ''REFERENCES''"
| "ThreadingAlgorithm_encode (ThreadingAlgorithm_Other other) = write_all (atom_inner other)"

definition CapabilityEnable_encode :: "CapabilityEnable \<Rightarrow> emitter" where
  "CapabilityEnable_encode c = write_all (CapabilityEnable_display c)"

definition CompressionAlgorithm_encode :: "CompressionAlgorithm \<Rightarrow> emitter" where
  "CompressionAlgorithm_encode a = write_all (CompressionAlgorithm_display a)"

definition Resource_encode :: "Resource \<Rightarrow> emitter" where
  "Resource_encode r = write_all (Resource_display r)"

definition QuotaSet_encode :: "QuotaSet \<Rightarrow> emitter" where
  "QuotaSet_encode q =
     each [Resource_encode (qs_resource q), write_all ('' '' @ dec (unat (qs_limit q)))]"

definition Entry_encode :: "Entry \<Rightarrow> emitter" where
  "Entry_encode e = AString_encode (entry_inner e)"

definition EntryValue_encode :: "EntryValue \<Rightarrow> emitter" where
  "EntryValue_encode e =
     each [Entry_encode (ev_entry e), write_all '' '', NString8_encode (ev_value e)]"

primrec Depth_encode :: "Depth \<Rightarrow> emitter" where
  "Depth_encode Depth_Null = write_all ''0''"
| "Depth_encode Depth_One = write_all ''1''"
| "Depth_encode Depth_Infinity = write_all ''INFINITY''"

primrec GetMetadataOption_encode :: "GetMetadataOption \<Rightarrow> emitter" where
  "GetMetadataOption_encode (GetMetadata_MaxSize number) = each [write_all ''MAXSIZE '', u32_encode number]"
| "GetMetadataOption_encode (GetMetadata_Depth depth) = each [write_all ''DEPTH '', Depth_encode depth]"

text \<open>The parameters of \<open>ID\<close>, the same code in the command and in the response.\<close>

fun id_parameters :: "(IString \<times> NString) list option \<Rightarrow> emitter" where
  "id_parameters None = write_all ''NIL''"
| "id_parameters (Some []) = write_all ''()''"
| "id_parameters (Some (head # tail)) =
     each [write_all ''('', IString_encode (fst head), write_all '' '', NString_encode (snd head),
       each (map (\<lambda>parameter. each [write_all '' '', IString_encode (fst parameter), write_all '' '',
             NString_encode (snd parameter)]) tail),
       write_all '')'']"

text \<open>An optional list in parentheses after a space, as several commands end.\<close>

definition parenthesized :: "emitter list \<Rightarrow> emitter" where
  "parenthesized es =
     only_if (es \<noteq> []) (each [write_all '' ('', join_serializable es '' '', write_all '')''])"

section \<open>Commands\<close>

primrec CommandBody_encode :: "Env \<Rightarrow> CommandBody \<Rightarrow> emitter" where
  "CommandBody_encode env Command_Capability = write_all ''CAPABILITY''"
| "CommandBody_encode env Command_Noop = write_all ''NOOP''"
| "CommandBody_encode env Command_Logout = write_all ''LOGOUT''"
| "CommandBody_encode env Command_StartTLS = write_all ''STARTTLS''"
| "CommandBody_encode env (Command_Authenticate mechanism initial_response) =
     each [write_all ''AUTHENTICATE '', AuthMechanism_encode mechanism,
       (case initial_response of
           Some ir \<Rightarrow> each [write_all '' '',
               (if declassify ir = [] then write_all ''=''
                else write_all (base64_encode env (declassify ir)))]
         | None \<Rightarrow> skip)]"
| "CommandBody_encode env (Command_Login username password) =
     each [write_all ''LOGIN '', AString_encode username, write_all '' '',
       AString_encode (declassify password)]"
| "CommandBody_encode env (Command_Select mailbox parameters) =
     each [write_all ''SELECT '', Mailbox_encode mailbox,
       parenthesized (map (SelectParameter_encode env) parameters)]"
| "CommandBody_encode env Command_Unselect = write_all ''UNSELECT''"
| "CommandBody_encode env (Command_Examine mailbox parameters) =
     each [write_all ''EXAMINE '', Mailbox_encode mailbox,
       parenthesized (map (SelectParameter_encode env) parameters)]"
| "CommandBody_encode env (Command_Create mailbox) = each [write_all ''CREATE '', Mailbox_encode mailbox]"
| "CommandBody_encode env (Command_Delete mailbox) = each [write_all ''DELETE '', Mailbox_encode mailbox]"
| "CommandBody_encode env (Command_Rename mailbox new_mailbox) =
     each [write_all ''RENAME '', Mailbox_encode mailbox, write_all '' '', Mailbox_encode new_mailbox]"
| "CommandBody_encode env (Command_Subscribe mailbox) =
     each [write_all ''SUBSCRIBE '', Mailbox_encode mailbox]"
| "CommandBody_encode env (Command_Unsubscribe mailbox) =
     each [write_all ''UNSUBSCRIBE '', Mailbox_encode mailbox]"
| "CommandBody_encode env (Command_List reference mailbox_wildcard) =
     each [write_all ''LIST '', Mailbox_encode reference, write_all '' '',
       ListMailbox_encode mailbox_wildcard]"
| "CommandBody_encode env (Command_Lsub reference mailbox_wildcard) =
     each [write_all ''LSUB '', Mailbox_encode reference, write_all '' '',
       ListMailbox_encode mailbox_wildcard]"
| "CommandBody_encode env (Command_Status mailbox item_names) =
     each [write_all ''STATUS '', Mailbox_encode mailbox, write_all '' ('',
       join_serializable (map StatusDataItemName_encode item_names) '' '', write_all '')'']"
| "CommandBody_encode env (Command_Append mailbox flags date message) =
     each [write_all ''APPEND '', Mailbox_encode mailbox,
       parenthesized (map Flag_encode flags),
       (case date of Some date \<Rightarrow> each [write_all '' '', DateTime_encode env date] | None \<Rightarrow> skip),
       write_all '' '', LiteralOrLiteral8_encode message]"
| "CommandBody_encode env Command_Check = write_all ''CHECK''"
| "CommandBody_encode env Command_Close = write_all ''CLOSE''"
| "CommandBody_encode env Command_Expunge = write_all ''EXPUNGE''"
| "CommandBody_encode env (Command_ExpungeUid sequence_set) =
     each [write_all ''UID EXPUNGE '', SequenceSet_encode env sequence_set]"
| "CommandBody_encode env (Command_Search charset criteria uid) =
     each [(if uid then write_all ''UID SEARCH'' else write_all ''SEARCH''),
       (case charset of
           Some charset \<Rightarrow> each [write_all '' CHARSET '', Charset_encode charset]
         | None \<Rightarrow> skip),
       write_all '' '', join_serializable (map (SearchKey_encode env) criteria) '' '']"
| "CommandBody_encode env (Command_Sort sort_criteria charset search_criteria uid) =
     each [(if uid then write_all ''UID SORT ('' else write_all ''SORT (''),
       join_serializable (map SortCriterion_encode sort_criteria) '' '', write_all '') '',
       Charset_encode charset, write_all '' '',
       join_serializable (map (SearchKey_encode env) search_criteria) '' '']"
| "CommandBody_encode env (Command_Thread algorithm charset search_criteria uid) =
     each [(if uid then write_all ''UID THREAD '' else write_all ''THREAD ''),
       ThreadingAlgorithm_encode algorithm, write_all '' '',
       Charset_encode charset, write_all '' '',
       join_serializable (map (SearchKey_encode env) search_criteria) '' '']"
| "CommandBody_encode env (Command_Fetch sequence_set macro_or_item_names uid modifiers) =
     each [(if uid then write_all ''UID FETCH '' else write_all ''FETCH ''),
       SequenceSet_encode env sequence_set, write_all '' '',
       MacroOrMessageDataItemNames_encode macro_or_item_names,
       parenthesized (map FetchModifier_encode modifiers)]"
| "CommandBody_encode env (Command_Store sequence_set kind response flags uid modifiers) =
     each [(if uid then write_all ''UID STORE '' else write_all ''STORE ''),
       SequenceSet_encode env sequence_set, write_all '' '',
       only_if (modifiers \<noteq> []) (each [write_all ''('',
            join_serializable (map StoreModifier_encode modifiers) '' '', write_all '') '']),
       (case kind of
           Store_Add \<Rightarrow> write_all ''+'' | Store_Remove \<Rightarrow> write_all ''-'' | Store_Replace \<Rightarrow> skip),
       write_all ''FLAGS'',
       (case response of Answer \<Rightarrow> skip | Silent \<Rightarrow> write_all ''.SILENT''),
       write_all '' ('', join_serializable (map Flag_encode flags) '' '', write_all '')'']"
| "CommandBody_encode env (Command_Copy sequence_set mailbox uid) =
     each [(if uid then write_all ''UID COPY '' else write_all ''COPY ''),
       SequenceSet_encode env sequence_set, write_all '' '', Mailbox_encode mailbox]"
| "CommandBody_encode env Command_Idle = write_all ''IDLE''"
| "CommandBody_encode env (Command_Enable capabilities) =
     each [write_all ''ENABLE '', join_serializable (map CapabilityEnable_encode capabilities) '' '']"
| "CommandBody_encode env (Command_Compress algorithm) =
     each [write_all ''COMPRESS '', CompressionAlgorithm_encode algorithm]"
| "CommandBody_encode env (Command_GetQuota root) = each [write_all ''GETQUOTA '', AString_encode root]"
| "CommandBody_encode env (Command_GetQuotaRoot mailbox) =
     each [write_all ''GETQUOTAROOT '', Mailbox_encode mailbox]"
| "CommandBody_encode env (Command_SetQuota root quotas) =
     each [write_all ''SETQUOTA '', AString_encode root, write_all '' ('',
       join_serializable (map QuotaSet_encode quotas) '' '', write_all '')'']"
| "CommandBody_encode env (Command_Move sequence_set mailbox uid) =
     each [(if uid then write_all ''UID MOVE '' else write_all ''MOVE ''),
       SequenceSet_encode env sequence_set, write_all '' '', Mailbox_encode mailbox]"
| "CommandBody_encode env (Command_Id parameters) = each [write_all ''ID '', id_parameters parameters]"
| "CommandBody_encode env (Command_SetMetadata mailbox entry_values) =
     each [write_all ''SETMETADATA '', Mailbox_encode mailbox, write_all '' ('',
       join_serializable (map EntryValue_encode entry_values) '' '', write_all '')'']"
| "CommandBody_encode env (Command_GetMetadata options mailbox entries) =
     each [write_all ''GETMETADATA'', parenthesized (map GetMetadataOption_encode options),
       write_all '' '', Mailbox_encode mailbox, write_all '' '',
       (if length entries = 1 then Entry_encode (entries ! 0)
        else each [write_all ''('', join_serializable (map Entry_encode entries) '' '', write_all '')''])]"
| "CommandBody_encode env Command_Namespace = write_all ''NAMESPACE''"

definition Command_encode :: "Env \<Rightarrow> Command \<Rightarrow> emitter" where
  "Command_encode env c =
     each [Tag_encode (cmd_tag c), write_all '' '', CommandBody_encode env (cmd_body c),
       write_all crlf]"

primrec AuthenticateData_encode :: "Env \<Rightarrow> AuthenticateData \<Rightarrow> emitter" where
  "AuthenticateData_encode env (Continue sasl) =
     each [write_all (base64_encode env (declassify sasl)), write_all crlf]"
| "AuthenticateData_encode env Cancel = write_all (''*'' @ crlf)"

definition IdleDone_encode :: "IdleDone \<Rightarrow> emitter" where
  "IdleDone_encode _ = write_all (''DONE'' @ crlf)"

section \<open>The argument encoders keep the contract\<close>

lemma env_ok_blands:
  assumes "env_ok env"
  shows "blands (base64_encode env bs)" "blands (format_date env d)" "blands (format_datetime env t)"
proof -
  have "is_alphanumeric c \<Longrightarrow> bland c" for c
    by (auto simp: is_alphanumeric_def is_digit_def bland_def)
  then have *: "is_base64_char c \<Longrightarrow> bland c" "is_date_char c \<Longrightarrow> bland c" for c
    by (auto simp: is_base64_char_def is_date_char_def bland_def)
  show "blands (base64_encode env bs)" "blands (format_date env d)" "blands (format_datetime env t)"
    using assms unfolding env_ok_def blands_def list_all_iff by (auto intro: *)
qed

lemma bland_literals [simp]:
  "bland sp" "bland dquote" "bland backslash" "bland CHR ''*''" "bland CHR '':''" "bland CHR '',''"
  by (simp_all add: bland_def)

lemma blands_flag: "wf_flag f \<Longrightarrow> blands (Flag_display f)"
  by (cases f) (auto simp: bland_def blands_valid)

lemma blands_attribute_flag: "wf_attribute_flag f \<Longrightarrow> blands (AttributeFlag_display f)"
  by (cases f) (auto simp: bland_def blands_valid)

lemma blands_entry_type: "blands (EntryTypeReq_display e)"
  by (cases e) (simp_all add: bland_def)

lemma blands_names:
  "wf_auth m \<Longrightarrow> blands (AuthMechanism_as_ref m)"
  "wf_resource r \<Longrightarrow> blands (Resource_display r)"
  "wf_enable e \<Longrightarrow> blands (CapabilityEnable_display e)"
  "wf_capability c \<Longrightarrow> blands (Capability_display c)"
  by (simp_all add: blands_valid auth_display_valid resource_names.display_valid
      enable_names.display_valid Capability_display_valid)

lemma blands_sort_key: "blands (SortKey_as_ref k)"
  by (cases k) (simp_all add: bland_def)

lemma SeqOrUid_emits: "emits (SeqOrUid_encode s)"
  by (cases s) (simp_all add: SeqOrUid_encode_def emits_write)

interpretation sequence_encoder: encoder Sequence_encode "\<lambda>_. True"
  by unfold_locales
    (auto simp: Sequence_encode_def SeqOrUid_emits emits_write intro!: emit_intros split: Sequence.splits)

interpretation sequence_set_encoder: encoder "SequenceSet_encode env" "\<lambda>_. True" for env
  by unfold_locales
    (auto simp: SequenceSet_encode_def list_all_iff intro!: emits_join sequence_encoder.ok_emits)

interpretation flag_encoder: encoder Flag_encode wf_flag
  by unfold_locales (simp add: Flag_encode_def emits_write blands_flag)

interpretation capability_encoder: encoder Capability_encode wf_capability
  by unfold_locales (simp add: Capability_encode_def emits_write blands_names)

lemma dates_emit [emit_intros]:
  "env_ok env \<Longrightarrow> emits (NaiveDate_encode env d)" "env_ok env \<Longrightarrow> emits (DateTime_encode env t)"
  by (simp_all add: NaiveDate_encode_def DateTime_encode_def emits_write env_ok_blands)

text \<open>All encoders that have the contract so far.\<close>

lemmas encoders_ok = quoted_encoder.ok_emits istring_encoder.ok_emits atom_encoder.ok_emits
  tag_encoder.ok_emits astring_encoder.ok_emits nstring_encoder.ok_emits
  nstring8_encoder.ok_emits literal_encoder.ok_emits charset_encoder.ok_emits
  mailbox_encoder.ok_emits list_mailbox_encoder.ok_emits u32_encoder.ok_emits [OF TrueI]
  u64_encoder.ok_emits [OF TrueI] sequence_set_encoder.ok_emits [OF TrueI]
  flag_encoder.ok_emits capability_encoder.ok_emits dates_emit

primrec ok_search :: "SearchKey \<Rightarrow> bool" where
  "ok_search SearchKey_All = True"
| "ok_search SearchKey_Answered = True"
| "ok_search (SearchKey_Bcc a) = ok_astring a"
| "ok_search (SearchKey_Before d) = True"
| "ok_search (SearchKey_Body a) = ok_astring a"
| "ok_search (SearchKey_Cc a) = ok_astring a"
| "ok_search SearchKey_Deleted = True"
| "ok_search SearchKey_Flagged = True"
| "ok_search (SearchKey_From a) = ok_astring a"
| "ok_search (SearchKey_Keyword a) = wf_atom a"
| "ok_search SearchKey_New = True"
| "ok_search SearchKey_Old = True"
| "ok_search (SearchKey_On d) = True"
| "ok_search SearchKey_Recent = True"
| "ok_search SearchKey_Seen = True"
| "ok_search (SearchKey_Since d) = True"
| "ok_search (SearchKey_Subject a) = ok_astring a"
| "ok_search (SearchKey_Text a) = ok_astring a"
| "ok_search (SearchKey_To a) = ok_astring a"
| "ok_search SearchKey_Unanswered = True"
| "ok_search SearchKey_Undeleted = True"
| "ok_search SearchKey_Unflagged = True"
| "ok_search (SearchKey_Unkeyword a) = wf_atom a"
| "ok_search SearchKey_Unseen = True"
| "ok_search SearchKey_Draft = True"
| "ok_search (SearchKey_Header h a) = (ok_astring h \<and> ok_astring a)"
| "ok_search (SearchKey_Larger n) = True"
| "ok_search (SearchKey_Not k) = ok_search k"
| "ok_search (SearchKey_Or k l) = (ok_search k \<and> ok_search l)"
| "ok_search (SearchKey_SentBefore d) = True"
| "ok_search (SearchKey_SentOn d) = True"
| "ok_search (SearchKey_SentSince d) = True"
| "ok_search (SearchKey_Smaller n) = True"
| "ok_search (SearchKey_Older n) = True"
| "ok_search (SearchKey_Younger n) = True"
| "ok_search (SearchKey_Uid s) = True"
| "ok_search SearchKey_Undraft = True"
| "ok_search (SearchKey_ModSequence entry n) =
     (case entry of None \<Rightarrow> True | Some (flag, _) \<Rightarrow> wf_attribute_flag flag)"
| "ok_search (SearchKey_SequenceSet s) = True"
| "ok_search (SearchKey_And ks) = list_all (\<lambda>b. b) (map ok_search ks)"

lemmas [emit_intros] = emits_write encoders_ok

lemma SearchKey_emits: "env_ok env \<Longrightarrow> ok_search k \<Longrightarrow> emits (SearchKey_encode env k)"
proof (induction k)
  case (SearchKey_And ks)
  then have "list_all emits (map (SearchKey_encode env) ks)" by (auto simp: list_all_iff)
  then show ?case
    unfolding SearchKey_encode.simps by (intro emit_intros) (simp_all add: bland_def)
qed (unfold SearchKey_encode.simps,
    (intro emit_intros; simp add: bland_def blands_attribute_flag blands_entry_type)+)

lemma emits_numbers [simp]: "list_all emits (map u32_encode ns)"
  by (simp add: list_all_iff u32_encoder.ok_emits)

lemma Part_emits [emit_intros]: "emits (Part_encode p)"
  unfolding Part_encode_def by (cases p) (auto simp: bland_def intro!: emit_intros)

primrec ok_section :: "Section \<Rightarrow> bool" where
  "ok_section (Section_Part p) = True"
| "ok_section (Section_Header p) = True"
| "ok_section (Section_HeaderFields p hs) = list_all ok_astring hs"
| "ok_section (Section_HeaderFieldsNot p hs) = list_all ok_astring hs"
| "ok_section (Section_Text p) = True"
| "ok_section (Section_Mime p) = True"

interpretation section_encoder: encoder Section_encode ok_section
proof
  fix s
  assume "ok_section s"
  then show "emits (Section_encode s)"
    by (cases s; hypsubst; unfold Section_encode.simps;
      (intro emit_intros; simp add: bland_def astring_encoder.emits_map)+)
qed

primrec ok_item_name :: "MessageDataItemName \<Rightarrow> bool" where
  "ok_item_name ItemName_Body = True"
| "ok_item_name (ItemName_BodyExt s p b) = (case s of None \<Rightarrow> True | Some s \<Rightarrow> ok_section s)"
| "ok_item_name ItemName_BodyStructure = True"
| "ok_item_name ItemName_Envelope = True"
| "ok_item_name ItemName_Flags = True"
| "ok_item_name ItemName_InternalDate = True"
| "ok_item_name ItemName_Rfc822 = True"
| "ok_item_name ItemName_Rfc822Header = True"
| "ok_item_name ItemName_Rfc822Size = True"
| "ok_item_name ItemName_Rfc822Text = True"
| "ok_item_name ItemName_Uid = True"
| "ok_item_name (ItemName_Binary s p b) = True"
| "ok_item_name (ItemName_BinarySize s) = True"
| "ok_item_name ItemName_ModSeq = True"

interpretation item_name_encoder: encoder MessageDataItemName_encode ok_item_name
proof
  fix n
  assume "ok_item_name n"
  then show "emits (MessageDataItemName_encode n)"
    by (cases n; hypsubst; unfold MessageDataItemName_encode.simps;
      (intro emit_intros section_encoder.ok_emits; simp add: bland_def)+)
qed

primrec ok_items :: "MacroOrMessageDataItemNames \<Rightarrow> bool" where
  "ok_items (Fetch_Macro m) = True"
| "ok_items (Fetch_ItemNames ns) = list_all ok_item_name ns"

interpretation items_encoder: encoder MacroOrMessageDataItemNames_encode ok_items
proof
  fix n
  assume "ok_items n"
  then show "emits (MacroOrMessageDataItemNames_encode n)"
  proof (cases n)
    case (Fetch_Macro m)
    then show ?thesis by (cases m) (simp_all add: Macro_encode_def emits_write bland_def)
  next
    case (Fetch_ItemNames ns)
    with \<open>ok_items n\<close> show ?thesis
      unfolding Fetch_ItemNames MacroOrMessageDataItemNames_encode.simps
      by (intro emit_intros item_name_encoder.ok_emits)
        (auto simp: bland_def item_name_encoder.ok_emits list_all_length)
  qed
qed

interpretation status_name_encoder: encoder StatusDataItemName_encode "\<lambda>_. True"
proof
  fix n
  show "emits (StatusDataItemName_encode n)" by (cases n) (simp_all add: emits_write bland_def)
qed

interpretation fetch_modifier_encoder: encoder FetchModifier_encode "\<lambda>_. True"
proof
  fix m
  show "emits (FetchModifier_encode m)" by (cases m) (simp_all add: emits_write bland_def)
qed

interpretation store_modifier_encoder: encoder StoreModifier_encode "\<lambda>_. True"
proof
  fix m
  show "emits (StoreModifier_encode m)" by (cases m) (simp add: emits_write bland_def)
qed

interpretation select_parameter_encoder: encoder "SelectParameter_encode env" "\<lambda>_. True" for env
proof
  fix p
  show "emits (SelectParameter_encode env p)"
    by (cases p; hypsubst; unfold SelectParameter_encode.simps; (intro emit_intros; simp add: bland_def)+)
qed

interpretation sort_criterion_encoder: encoder SortCriterion_encode "\<lambda>_. True"
  by unfold_locales
    (auto simp: SortCriterion_encode_def blands_sort_key bland_def intro!: emit_intros emits_write)

interpretation threading_encoder: encoder ThreadingAlgorithm_encode wf_threading
proof
  fix a
  assume "wf_threading a"
  then show "emits (ThreadingAlgorithm_encode a)"
    by (cases a) (simp_all add: emits_write bland_def blands_valid)
qed

interpretation enable_encoder: encoder CapabilityEnable_encode wf_enable
  by unfold_locales (simp add: CapabilityEnable_encode_def emits_write blands_names)

interpretation compression_encoder: encoder CompressionAlgorithm_encode "\<lambda>_. True"
proof
  fix a
  show "emits (CompressionAlgorithm_encode a)"
    by (cases a) (simp add: CompressionAlgorithm_encode_def emits_write bland_def)
qed

interpretation quota_set_encoder: encoder QuotaSet_encode "\<lambda>q. wf_resource (qs_resource q)"
  by unfold_locales
    (auto simp: QuotaSet_encode_def Resource_encode_def blands_names intro!: emit_intros emits_write)

interpretation entry_encoder: encoder Entry_encode "\<lambda>e. ok_astring (entry_inner e)"
  by unfold_locales (simp add: Entry_encode_def encoders_ok)

interpretation entry_value_encoder:
  encoder EntryValue_encode "\<lambda>e. ok_astring (entry_inner (ev_entry e)) \<and> ok_nstring8 (ev_value e)"
  by unfold_locales
    (auto simp: EntryValue_encode_def entry_encoder.ok_emits encoders_ok intro!: emit_intros emits_write)

interpretation metadata_option_encoder: encoder GetMetadataOption_encode "\<lambda>_. True"
proof
  fix m
  have "emits (Depth_encode d)" for d by (cases d) (simp_all add: emits_write bland_def)
  then show "emits (GetMetadataOption_encode m)"
    by (cases m; hypsubst; unfold GetMetadataOption_encode.simps; (intro emit_intros; simp add: bland_def)+)
qed

lemma parenthesized_emits [emit_intros]: "list_all emits es \<Longrightarrow> emits (parenthesized es)"
  unfolding parenthesized_def by (intro emit_intros) (simp_all add: bland_def)

lemma id_parameters_emits:
  assumes "\<And>ps. v = Some ps \<Longrightarrow> list_all (\<lambda>(k, n). ok_istring k \<and> ok_nstring n) ps"
  shows "emits (id_parameters v)"
proof (cases v rule: id_parameters.cases)
  case (3 p ps)
  with assms have ok: "list_all (\<lambda>(k, n). ok_istring k \<and> ok_nstring n) (p # ps)" by simp
  have "list_all emits (map (\<lambda>parameter. each [write_all '' '', IString_encode (fst parameter),
        write_all '' '', NString_encode (snd parameter)]) ps)"
    using ok by (auto simp: list_all_iff encoders_ok intro!: emit_intros emits_write)
  with 3 ok show ?thesis
    unfolding 3 id_parameters.simps by (intro emit_intros) (auto simp: bland_def)
qed (simp_all add: emits_write bland_def)

section \<open>Commands keep the contract\<close>

text \<open>
  What a command has to satisfy: its strings are what their types promise (\<open>ok_istring\<close> and the
  like), and its flags, names and mechanisms were built by their constructors. Everything else
  may have any value.
\<close>

primrec ok_command_body :: "CommandBody \<Rightarrow> bool" where
  "ok_command_body Command_Capability = True"
| "ok_command_body Command_Noop = True"
| "ok_command_body Command_Logout = True"
| "ok_command_body Command_StartTLS = True"
| "ok_command_body (Command_Authenticate m ir) = wf_auth m"
| "ok_command_body (Command_Login u p) = (ok_astring u \<and> ok_astring (declassify p))"
| "ok_command_body (Command_Select m ps) = ok_mailbox m"
| "ok_command_body Command_Unselect = True"
| "ok_command_body (Command_Examine m ps) = ok_mailbox m"
| "ok_command_body (Command_Create m) = ok_mailbox m"
| "ok_command_body (Command_Delete m) = ok_mailbox m"
| "ok_command_body (Command_Rename m n) = (ok_mailbox m \<and> ok_mailbox n)"
| "ok_command_body (Command_Subscribe m) = ok_mailbox m"
| "ok_command_body (Command_Unsubscribe m) = ok_mailbox m"
| "ok_command_body (Command_List m w) = (ok_mailbox m \<and> ok_list_mailbox w)"
| "ok_command_body (Command_Lsub m w) = (ok_mailbox m \<and> ok_list_mailbox w)"
| "ok_command_body (Command_Status m ns) = ok_mailbox m"
| "ok_command_body (Command_Append m fs d l) =
     (ok_mailbox m \<and> list_all wf_flag fs \<and> ok_literal_or_literal8 l)"
| "ok_command_body Command_Check = True"
| "ok_command_body Command_Close = True"
| "ok_command_body Command_Expunge = True"
| "ok_command_body (Command_ExpungeUid s) = True"
| "ok_command_body (Command_Search c ks u) =
     ((case c of None \<Rightarrow> True | Some c \<Rightarrow> wf_charset c) \<and> list_all ok_search ks)"
| "ok_command_body (Command_Sort ss c ks u) = (wf_charset c \<and> list_all ok_search ks)"
| "ok_command_body (Command_Thread a c ks u) =
     (wf_threading a \<and> wf_charset c \<and> list_all ok_search ks)"
| "ok_command_body (Command_Fetch s i u ms) = ok_items i"
| "ok_command_body (Command_Store s k r fs u ms) = list_all wf_flag fs"
| "ok_command_body (Command_Copy s m u) = ok_mailbox m"
| "ok_command_body Command_Idle = True"
| "ok_command_body (Command_Enable cs) = list_all wf_enable cs"
| "ok_command_body (Command_Compress a) = True"
| "ok_command_body (Command_GetQuota r) = ok_astring r"
| "ok_command_body (Command_GetQuotaRoot m) = ok_mailbox m"
| "ok_command_body (Command_SetQuota r qs) =
     (ok_astring r \<and> list_all (\<lambda>q. wf_resource (qs_resource q)) qs)"
| "ok_command_body (Command_Move s m u) = ok_mailbox m"
| "ok_command_body (Command_Id ps) =
     (case ps of None \<Rightarrow> True | Some ps \<Rightarrow> list_all (\<lambda>(k, n). ok_istring k \<and> ok_nstring n) ps)"
| "ok_command_body (Command_SetMetadata m es) =
     (ok_mailbox m \<and>
      list_all (\<lambda>e. ok_astring (entry_inner (ev_entry e)) \<and> ok_nstring8 (ev_value e)) es)"
| "ok_command_body (Command_GetMetadata os m es) =
     (ok_mailbox m \<and> list_all (\<lambda>e. ok_astring (entry_inner e)) es)"
| "ok_command_body Command_Namespace = True"

definition ok_command :: "Command \<Rightarrow> bool" where
  "ok_command c \<longleftrightarrow> wf_tag (cmd_tag c) \<and> ok_command_body (cmd_body c)"

lemma mapped_emits [simp]:
  "list_all emits (map (SelectParameter_encode env) ps)"
  "list_all emits (map StatusDataItemName_encode ns)"
  "list_all emits (map FetchModifier_encode fms)"
  "list_all emits (map StoreModifier_encode sms)"
  "list_all emits (map SortCriterion_encode scs)"
  "list_all emits (map GetMetadataOption_encode gos)"
  by (simp_all add: list_all_iff select_parameter_encoder.ok_emits status_name_encoder.ok_emits
      fetch_modifier_encoder.ok_emits store_modifier_encoder.ok_emits
      sort_criterion_encoder.ok_emits metadata_option_encoder.ok_emits)

lemma mapped_search [simp]:
  "env_ok env \<Longrightarrow> list_all ok_search ks \<Longrightarrow> list_all emits (map (SearchKey_encode env) ks)"
  by (auto simp: list_all_iff SearchKey_emits)

lemma StoreType_emits [emit_intros]: "emits a \<Longrightarrow> emits b \<Longrightarrow> emits c \<Longrightarrow>
    emits (case k of Store_Replace \<Rightarrow> a | Store_Add \<Rightarrow> b | Store_Remove \<Rightarrow> c)"
  by (cases k) simp_all

lemma StoreResponse_emits [emit_intros]: "emits a \<Longrightarrow> emits b \<Longrightarrow>
    emits (case r of Answer \<Rightarrow> a | Silent \<Rightarrow> b)"
  by (cases r) simp_all

lemma first_entry [simp]:
  "list_all (\<lambda>e. ok_astring (entry_inner e)) es \<Longrightarrow> length es = Suc 0 \<Longrightarrow>
     ok_astring (entry_inner (es ! 0))"
  by (simp add: list_all_length)

lemma CommandBody_emits:
  assumes "env_ok env" "ok_command_body body"
  shows "emits (CommandBody_encode env body)"
  using assms
  by (cases body; hypsubst; unfold CommandBody_encode.simps;
    (intro emit_intros items_encoder.ok_emits threading_encoder.ok_emits compression_encoder.ok_emits
        entry_encoder.ok_emits id_parameters_emits;
      simp add: bland_def AuthMechanism_encode_def emits_write blands_names env_ok_blands
        flag_encoder.emits_map enable_encoder.emits_map quota_set_encoder.emits_map
        entry_encoder.emits_map entry_value_encoder.emits_map)+)

interpretation commands: framed_message "Command_encode env" "\<lambda>c. env_ok env \<and> ok_command c" for env
proof
  fix c
  assume "env_ok env \<and> ok_command c"
  then show "whole (Command_encode env c)"
    unfolding Command_encode_def
    by (intro whole_Cons whole_end CommandBody_emits emit_intros tag_encoder.ok_emits)
      (simp_all add: ok_command_def bland_def)
qed

interpretation authenticate_data: framed_message "AuthenticateData_encode env" "\<lambda>_. env_ok env" for env
proof
  fix a
  assume "env_ok env"
  show "whole (AuthenticateData_encode env a)"
  proof (cases a)
    case (Continue sasl)
    show ?thesis
      unfolding Continue AuthenticateData_encode.simps
      by (rule whole_last) (simp add: emits_write env_ok_blands \<open>env_ok env\<close>)
  next
    case Cancel
    show ?thesis
      unfolding Cancel AuthenticateData_encode.simps by (rule whole_line) (simp add: bland_def)
  qed
qed

interpretation idle_done: framed_message IdleDone_encode "\<lambda>_. True"
  by unfold_locales (simp add: IdleDone_encode_def whole_line bland_def del: append.simps)

end
