(* ===== verification/Imap_Encode_Response.thy ===== *)
theory Imap_Encode_Response
  imports Imap_Encode_Command
begin

text \<open>
  The encoders of what a server sends: greetings, status responses with their codes, data
  responses with mailbox and message data, and continuation requests (\<open>encode.rs\<close> from its section
  \<open>Responses\<close> on, and the encoders of the extensions metadata, namespace, quota, thread, uidplus).
\<close>

section \<open>Names, codes and the smaller extensions\<close>

primrec FlagFetch_encode :: "FlagFetch \<Rightarrow> emitter" where
  "FlagFetch_encode (FlagFetch_Flag flag) = Flag_encode flag"
| "FlagFetch_encode FlagFetch_Recent = write_all (backslash # ''Recent'')"

primrec FlagPerm_encode :: "FlagPerm \<Rightarrow> emitter" where
  "FlagPerm_encode (FlagPerm_Flag flag) = Flag_encode flag"
| "FlagPerm_encode FlagPerm_Asterisk = write_all (backslash # ''*'')"

definition FlagNameAttribute_encode :: "FlagNameAttribute \<Rightarrow> emitter" where
  "FlagNameAttribute_encode f = write_all (FlagNameAttribute_display f)"

primrec UidElement_encode :: "UidElement \<Rightarrow> emitter" where
  "UidElement_encode (UidElement_Single uid) = u32_encode uid"
| "UidElement_encode (UidElement_Range a b) = each [u32_encode a, write_all '':'', u32_encode b]"

primrec UidSet_encode :: "UidSet \<Rightarrow> emitter" where
  "UidSet_encode (UidSet elements) = join_serializable (map UidElement_encode elements) '',''"

primrec MetadataCode_encode :: "MetadataCode \<Rightarrow> emitter" where
  "MetadataCode_encode (MetadataCode_LongEntries number) = each [write_all ''LONGENTRIES '', u32_encode number]"
| "MetadataCode_encode (MetadataCode_MaxSize number) = each [write_all ''MAXSIZE '', u32_encode number]"
| "MetadataCode_encode MetadataCode_TooMany = write_all ''TOOMANY''"
| "MetadataCode_encode MetadataCode_NoPrivate = write_all ''NOPRIVATE''"

primrec MetadataResponse_encode :: "MetadataResponse \<Rightarrow> emitter" where
  "MetadataResponse_encode (WithValues entries) =
     each [write_all ''('', join_serializable (map EntryValue_encode entries) '' '', write_all '')'']"
| "MetadataResponse_encode (WithoutValues entries) = join_serializable (map Entry_encode entries) '' ''"

text \<open>A delimiter in quotes or \<open>NIL\<close>, the same code in \<open>LIST\<close>, \<open>LSUB\<close> and \<open>NAMESPACE\<close>.\<close>

definition delimiter_encode :: "QuotedChar option \<Rightarrow> emitter" where
  "delimiter_encode delimiter =
     (case delimiter of
        Some delimiter \<Rightarrow> each [write_all [dquote], QuotedChar_encode delimiter, write_all [dquote]]
      | None \<Rightarrow> write_all ''NIL'')"

definition NamespaceResponseExtension_encode :: "NamespaceResponseExtension \<Rightarrow> emitter" where
  "NamespaceResponseExtension_encode self =
     each [write_all '' '', IString_encode (nre_key self), write_all '' ('',
       (if nre_values self = [] then skip
        else each [each (map (\<lambda>value. each [IString_encode value, write_all '' '']) (butlast (nre_values self))),
            IString_encode (last (nre_values self))]),
       write_all '')'']"

definition Namespace_encode :: "Namespace \<Rightarrow> emitter" where
  "Namespace_encode self =
     each [write_all ''('', IString_encode (ns_prefix self), write_all '' '',
       delimiter_encode (ns_delimiter self),
       each (map NamespaceResponseExtension_encode (ns_extensions self)),
       write_all '')'']"

definition encode_namespaces :: "Namespace list \<Rightarrow> emitter" where
  "encode_namespaces list =
     (if list = [] then write_all ''NIL''
      else each [write_all ''('', each (map Namespace_encode list), write_all '')''])"

definition QuotaGet_encode :: "QuotaGet \<Rightarrow> emitter" where
  "QuotaGet_encode q =
     each [Resource_encode (qg_resource q),
       write_all ('' '' @ dec (unat (qg_usage q)) @ '' '' @ dec (unat (qg_limit q)))]"

text \<open>\<open>Display\<close> of a thread returns whenever its \<open>Vec1\<close> and \<open>Vec2\<close> have their lengths.\<close>

definition Thread_encode :: "Thread \<Rightarrow> emitter" where
  "Thread_encode t = write_all (the (Thread_display t))"

definition CodeOther_encode :: "CodeOther \<Rightarrow> emitter" where
  "CodeOther_encode c = write_all (code_other_inner c)"

primrec Code_encode :: "Env \<Rightarrow> Code \<Rightarrow> emitter" where
  "Code_encode env Code_Alert = write_all ''ALERT''"
| "Code_encode env (Code_BadCharset allowed) =
     (if allowed = [] then write_all ''BADCHARSET''
      else each [write_all ''BADCHARSET ('', join_serializable (map Charset_encode allowed) '' '',
          write_all '')''])"
| "Code_encode env (Code_Capability caps) =
     each [write_all ''CAPABILITY '', join_serializable (map Capability_encode caps) '' '']"
| "Code_encode env Code_Parse = write_all ''PARSE''"
| "Code_encode env (Code_PermanentFlags flags) =
     each [write_all ''PERMANENTFLAGS ('', join_serializable (map FlagPerm_encode flags) '' '',
       write_all '')'']"
| "Code_encode env Code_ReadOnly = write_all ''READ-ONLY''"
| "Code_encode env Code_ReadWrite = write_all ''READ-WRITE''"
| "Code_encode env Code_TryCreate = write_all ''TRYCREATE''"
| "Code_encode env (Code_UidNext next_uid) = each [write_all ''UIDNEXT '', u32_encode next_uid]"
| "Code_encode env (Code_UidValidity validity) = each [write_all ''UIDVALIDITY '', u32_encode validity]"
| "Code_encode env (Code_Unseen seq) = each [write_all ''UNSEEN '', u32_encode seq]"
| "Code_encode env (Code_Referral url) = each [write_all ''REFERRAL '', write_all url]"
| "Code_encode env (Code_HighestModSeq modseq) = each [write_all ''HIGHESTMODSEQ '', u64_encode modseq]"
| "Code_encode env Code_NoModSeq = write_all ''NOMODSEQ''"
| "Code_encode env (Code_Modified sequence_set) =
     each [write_all ''MODIFIED '', SequenceSet_encode env sequence_set]"
| "Code_encode env Code_Closed = write_all ''CLOSED''"
| "Code_encode env Code_CompressionActive = write_all ''COMPRESSIONACTIVE''"
| "Code_encode env Code_OverQuota = write_all ''OVERQUOTA''"
| "Code_encode env Code_TooBig = write_all ''TOOBIG''"
| "Code_encode env (Code_Metadata c) = each [write_all ''METADATA '', MetadataCode_encode c]"
| "Code_encode env Code_UnknownCte = write_all ''UNKNOWN-CTE''"
| "Code_encode env (Code_AppendUid uid_validity uid) =
     each [write_all ''APPENDUID '', u32_encode uid_validity, write_all '' '', u32_encode uid]"
| "Code_encode env (Code_CopyUid uid_validity source destination) =
     each [write_all ''COPYUID '', u32_encode uid_validity, write_all '' '',
       UidSet_encode source, write_all '' '', UidSet_encode destination]"
| "Code_encode env Code_UidNotSticky = write_all ''UIDNOTSTICKY''"
| "Code_encode env (Code_Other unknown) = CodeOther_encode unknown"

primrec GreetingKind_encode :: "GreetingKind \<Rightarrow> emitter" where
  "GreetingKind_encode Greeting_Ok = write_all ''OK''"
| "GreetingKind_encode Greeting_PreAuth = write_all ''PREAUTH''"
| "GreetingKind_encode Greeting_Bye = write_all ''BYE''"

text \<open>\<open>[code] \<close> before a text, the same code in greetings and status responses.\<close>

definition bracketed_code :: "Env \<Rightarrow> Code option \<Rightarrow> emitter" where
  "bracketed_code env c =
     (case c of
        Some c \<Rightarrow> each [write_all ''['', Code_encode env c, write_all ''] '']
      | None \<Rightarrow> skip)"

definition Greeting_encode :: "Env \<Rightarrow> Greeting \<Rightarrow> emitter" where
  "Greeting_encode env g =
     each [write_all ''* '', GreetingKind_encode (gr_kind g), write_all '' '',
       bracketed_code env (gr_code g), Text_encode (gr_text g), write_all crlf]"

definition format_status :: "Env \<Rightarrow> Tag option \<Rightarrow> bytes \<Rightarrow> Code option \<Rightarrow> Text \<Rightarrow> emitter" where
  "format_status env tag status c comment =
     each [(case tag of Some tag \<Rightarrow> Tag_encode tag | None \<Rightarrow> write_all ''*''),
       write_all '' '', write_all status, write_all '' '',
       bracketed_code env c, Text_encode comment, write_all crlf]"

primrec StatusKind_name :: "StatusKind \<Rightarrow> bytes" where
  "StatusKind_name Status_Ok = ''OK''"
| "StatusKind_name Status_No = ''NO''"
| "StatusKind_name Status_Bad = ''BAD''"

primrec Status_encode :: "Env \<Rightarrow> Status \<Rightarrow> emitter" where
  "Status_encode env (Status_Untagged body) =
     format_status env None (StatusKind_name (sb_kind body)) (sb_code body) (sb_text body)"
| "Status_encode env (Status_Tagged tagged) =
     format_status env (Some (tagged_tag tagged)) (StatusKind_name (sb_kind (tagged_body tagged)))
       (sb_code (tagged_body tagged)) (sb_text (tagged_body tagged))"
| "Status_encode env (Status_Bye bye) =
     format_status env None ''BYE'' (bye_code bye) (bye_text bye)"

section \<open>Message data\<close>

definition Address_encode :: "Address \<Rightarrow> emitter" where
  "Address_encode a =
     each [write_all ''('', NString_encode (addr_name a), write_all '' '', NString_encode (addr_adl a),
       write_all '' '', NString_encode (addr_mailbox a), write_all '' '',
       NString_encode (addr_host a), write_all '')'']"

definition Envelope_encode :: "Envelope \<Rightarrow> emitter" where
  "Envelope_encode e =
     each [write_all ''('', NString_encode (env_date e), write_all '' '', NString_encode (env_subject e),
       write_all '' '', List1OrNil (map Address_encode (env_from e)) [],
       write_all '' '', List1OrNil (map Address_encode (env_sender e)) [],
       write_all '' '', List1OrNil (map Address_encode (env_reply_to e)) [],
       write_all '' '', List1OrNil (map Address_encode (env_to e)) [],
       write_all '' '', List1OrNil (map Address_encode (env_cc e)) [],
       write_all '' '', List1OrNil (map Address_encode (env_bcc e)) [],
       write_all '' '', NString_encode (env_in_reply_to e),
       write_all '' '', NString_encode (env_message_id e), write_all '')'']"

definition attributes :: "(IString \<times> IString) list \<Rightarrow> (emitter \<times> emitter) list" where
  "attributes ps = map (\<lambda>(attribute, value). (IString_encode attribute, IString_encode value)) ps"

definition BasicFields_encode :: "BasicFields \<Rightarrow> emitter" where
  "BasicFields_encode b =
     each [List1AttributeValueOrNil (attributes (bf_parameter_list b)),
       write_all '' '', NString_encode (bf_id b), write_all '' '',
       NString_encode (bf_description b), write_all '' '',
       IString_encode (bf_content_transfer_encoding b), write_all '' '',
       write_all (dec (unat (bf_size b)))]"

primrec BodyExtension_encode :: "BodyExtension \<Rightarrow> emitter" where
  "BodyExtension_encode (BodyExtension_NString nstring) = NString_encode nstring"
| "BodyExtension_encode (BodyExtension_Number number) = u32_encode number"
| "BodyExtension_encode (BodyExtension_List list) =
     each [write_all ''('', join_serializable (map BodyExtension_encode list) '' '', write_all '')'']"

definition Location_encode :: "Location \<Rightarrow> emitter" where
  "Location_encode l =
     each [NString_encode (loc_location l),
       each (map (\<lambda>body_extension. each [write_all '' '', BodyExtension_encode body_extension])
          (loc_extensions l))]"

text \<open>The optional tail of extension data.\<close>

definition tail_encode :: "('a \<Rightarrow> emitter) \<Rightarrow> 'a option \<Rightarrow> emitter" where
  "tail_encode enc t = (case t of Some x \<Rightarrow> each [write_all '' '', enc x] | None \<Rightarrow> skip)"

definition Language_encode :: "Language \<Rightarrow> emitter" where
  "Language_encode l =
     each [List1OrNil (map IString_encode (lang_language l)) '' '',
       tail_encode Location_encode (lang_tail l)]"

definition Disposition_encode :: "Disposition \<Rightarrow> emitter" where
  "Disposition_encode d =
     each [(case disp_disposition d of
        Some (s, param) \<Rightarrow>
          each [write_all ''('', IString_encode s, write_all '' '',
            List1AttributeValueOrNil (attributes param), write_all '')'']
      | None \<Rightarrow> write_all ''NIL''),
       tail_encode Language_encode (disp_tail d)]"

definition SinglePartExtensionData_encode :: "SinglePartExtensionData \<Rightarrow> emitter" where
  "SinglePartExtensionData_encode d =
     each [NString_encode (sp_md5 d), tail_encode Disposition_encode (sp_tail d)]"

definition MultiPartExtensionData_encode :: "MultiPartExtensionData \<Rightarrow> emitter" where
  "MultiPartExtensionData_encode d =
     each [List1AttributeValueOrNil (attributes (mp_parameter_list d)),
       tail_encode Disposition_encode (mp_tail d)]"

text \<open>
  A \<open>Body\<close> is its basic and its specific fields; the match on the specific fields places the
  basic ones.
\<close>

primrec Body_encode :: "Body \<Rightarrow> emitter"
  and SpecificFields_encode :: "SpecificFields \<Rightarrow> BasicFields \<Rightarrow> emitter"
  and BodyStructure_encode :: "BodyStructure \<Rightarrow> emitter" where
  "Body_encode (Body basic specific) = SpecificFields_encode specific basic"
| "SpecificFields_encode (SpecificFields_Basic typ subtype) = (\<lambda>basic.
     each [IString_encode typ, write_all '' '', IString_encode subtype, write_all '' '',
       BasicFields_encode basic])"
| "SpecificFields_encode (SpecificFields_Message envelope body_structure number_of_lines) = (\<lambda>basic.
     each [write_all ([dquote] @ ''MESSAGE'' @ [dquote, sp, dquote] @ ''RFC822'' @ [dquote, sp]),
       BasicFields_encode basic, write_all '' '', Envelope_encode envelope, write_all '' '',
       BodyStructure_encode body_structure, write_all '' '',
       write_all (dec (unat number_of_lines))])"
| "SpecificFields_encode (SpecificFields_Text subtype number_of_lines) = (\<lambda>basic.
     each [write_all ([dquote] @ ''TEXT'' @ [dquote, sp]),
       IString_encode subtype, write_all '' '', BasicFields_encode basic, write_all '' '',
       write_all (dec (unat number_of_lines))])"
| "BodyStructure_encode (BodyStructure_Single body extension) =
     each [write_all ''('', Body_encode body,
       tail_encode SinglePartExtensionData_encode extension, write_all '')'']"
| "BodyStructure_encode (BodyStructure_Multi bodies subtype extension_data) =
     each [write_all ''('', each (map BodyStructure_encode bodies), write_all '' '',
       IString_encode subtype,
       tail_encode MultiPartExtensionData_encode extension_data, write_all '')'']"

primrec StatusDataItem_encode :: "StatusDataItem \<Rightarrow> emitter" where
  "StatusDataItem_encode (StatusItem_Messages n) = each [write_all ''MESSAGES '', u32_encode n]"
| "StatusDataItem_encode (StatusItem_Recent n) = each [write_all ''RECENT '', u32_encode n]"
| "StatusDataItem_encode (StatusItem_UidNext next_uid) = each [write_all ''UIDNEXT '', u32_encode next_uid]"
| "StatusDataItem_encode (StatusItem_UidValidity identifier) =
     each [write_all ''UIDVALIDITY '', u32_encode identifier]"
| "StatusDataItem_encode (StatusItem_Unseen n) = each [write_all ''UNSEEN '', u32_encode n]"
| "StatusDataItem_encode (StatusItem_Deleted n) = each [write_all ''DELETED '', u32_encode n]"
| "StatusDataItem_encode (StatusItem_DeletedStorage n) =
     each [write_all ''DELETED-STORAGE '', u64_encode n]"
| "StatusDataItem_encode (StatusItem_Size s) = each [write_all ''SIZE '', u64_encode s]"
| "StatusDataItem_encode (StatusItem_HighestModSeq value) =
     each [write_all ''HIGHESTMODSEQ '', u64_encode value]"

primrec MessageDataItem_encode :: "Env \<Rightarrow> MessageDataItem \<Rightarrow> emitter" where
  "MessageDataItem_encode env (Item_BodyExt sect origin d) =
     each [write_all ''BODY['', (case sect of Some sect \<Rightarrow> Section_encode sect | None \<Rightarrow> skip),
       write_all '']'',
       (case origin of Some origin \<Rightarrow> write_all (''<'' @ dec (unat origin) @ ''>'') | None \<Rightarrow> skip),
       write_all '' '', NString_encode d]"
| "MessageDataItem_encode env (Item_Body body) = each [write_all ''BODY '', BodyStructure_encode body]"
| "MessageDataItem_encode env (Item_BodyStructure body) =
     each [write_all ''BODYSTRUCTURE '', BodyStructure_encode body]"
| "MessageDataItem_encode env (Item_Envelope envelope) =
     each [write_all ''ENVELOPE '', Envelope_encode envelope]"
| "MessageDataItem_encode env (Item_Flags flags) =
     each [write_all ''FLAGS ('', join_serializable (map FlagFetch_encode flags) '' '', write_all '')'']"
| "MessageDataItem_encode env (Item_InternalDate datetime) =
     each [write_all ''INTERNALDATE '', DateTime_encode env datetime]"
| "MessageDataItem_encode env (Item_Rfc822 nstring) = each [write_all ''RFC822 '', NString_encode nstring]"
| "MessageDataItem_encode env (Item_Rfc822Header nstring) =
     each [write_all ''RFC822.HEADER '', NString_encode nstring]"
| "MessageDataItem_encode env (Item_Rfc822Size s) = write_all (''RFC822.SIZE '' @ dec (unat s))"
| "MessageDataItem_encode env (Item_Rfc822Text nstring) =
     each [write_all ''RFC822.TEXT '', NString_encode nstring]"
| "MessageDataItem_encode env (Item_Uid uid) = write_all (''UID '' @ dec (unat uid))"
| "MessageDataItem_encode env (Item_Binary sect value) =
     each [write_all ''BINARY['', join_serializable (map u32_encode sect) ''.'', write_all ''] '',
       NString8_encode value]"
| "MessageDataItem_encode env (Item_BinarySize sect s) =
     each [write_all ''BINARY.SIZE['', join_serializable (map u32_encode sect) ''.'', write_all ''] '',
       u32_encode s]"
| "MessageDataItem_encode env (Item_ModSeq value) = write_all (''MODSEQ ('' @ dec (unat value) @ '')'')"

section \<open>Data, continuation requests, responses\<close>

text \<open>The result of a search, the same code in \<open>SEARCH\<close> and \<open>SORT\<close>.\<close>

definition numbers_and_modseq :: "bytes \<Rightarrow> u32 list \<Rightarrow> u64 option \<Rightarrow> emitter" where
  "numbers_and_modseq prefix seqs modseq =
     each [(if seqs = [] then write_all prefix
      else each [write_all (prefix @ '' ''), join_serializable (map u32_encode seqs) '' '']),
       (case modseq of
           Some modseq \<Rightarrow> each [write_all '' (MODSEQ '', u64_encode modseq, write_all '')'']
         | None \<Rightarrow> skip)]"

text \<open>The match of \<open>Data\<close>; the line break after it is the last step of \<open>Data_encode\<close>.\<close>

primrec Data_match :: "Env \<Rightarrow> Data \<Rightarrow> emitter" where
  "Data_match env (Data_Capability caps) =
     each [write_all ''* CAPABILITY '', join_serializable (map Capability_encode caps) '' '']"
| "Data_match env (Data_List items delimiter mailbox) =
     each [write_all ''* LIST ('', join_serializable (map FlagNameAttribute_encode items) '' '',
       write_all '') '', delimiter_encode delimiter, write_all '' '', Mailbox_encode mailbox]"
| "Data_match env (Data_Lsub items delimiter mailbox) =
     each [write_all ''* LSUB ('', join_serializable (map FlagNameAttribute_encode items) '' '',
       write_all '') '', delimiter_encode delimiter, write_all '' '', Mailbox_encode mailbox]"
| "Data_match env (Data_Status mailbox items) =
     each [write_all ''* STATUS '', Mailbox_encode mailbox, write_all '' ('',
       join_serializable (map StatusDataItem_encode items) '' '', write_all '')'']"
| "Data_match env (Data_Search seqs modseq) = numbers_and_modseq ''* SEARCH'' seqs modseq"
| "Data_match env (Data_Sort seqs modseq) = numbers_and_modseq ''* SORT'' seqs modseq"
| "Data_match env (Data_Thread threads) =
     (if threads = [] then write_all ''* THREAD''
      else each [write_all ''* THREAD '', each (map Thread_encode threads)])"
| "Data_match env (Data_Flags flags) =
     each [write_all ''* FLAGS ('', join_serializable (map Flag_encode flags) '' '', write_all '')'']"
| "Data_match env (Data_Exists n) = write_all (''* '' @ dec (unat n) @ '' EXISTS'')"
| "Data_match env (Data_Recent n) = write_all (''* '' @ dec (unat n) @ '' RECENT'')"
| "Data_match env (Data_Expunge msg) = write_all (''* '' @ dec (unat msg) @ '' EXPUNGE'')"
| "Data_match env (Data_Fetch seq items) =
     each [write_all (''* '' @ dec (unat seq) @ '' FETCH (''),
       join_serializable (map (MessageDataItem_encode env) items) '' '', write_all '')'']"
| "Data_match env (Data_Enabled capabilities) =
     each [write_all ''* ENABLED'',
       each (map (\<lambda>cap. each [write_all '' '', CapabilityEnable_encode cap]) capabilities)]"
| "Data_match env (Data_Quota root quotas) =
     each [write_all ''* QUOTA '', AString_encode root, write_all '' ('',
       join_serializable (map QuotaGet_encode quotas) '' '', write_all '')'']"
| "Data_match env (Data_QuotaRoot mailbox roots) =
     each [write_all ''* QUOTAROOT '', Mailbox_encode mailbox,
       each (map (\<lambda>root. each [write_all '' '', AString_encode root]) roots)]"
| "Data_match env (Data_Id parameters) = each [write_all ''* ID '', id_parameters parameters]"
| "Data_match env (Data_Metadata mailbox items) =
     each [write_all ''* METADATA '', Mailbox_encode mailbox, write_all '' '',
       MetadataResponse_encode items]"
| "Data_match env (Data_Vanished earlier known_uids) =
     each [write_all ''* VANISHED'', only_if earlier (write_all '' (EARLIER)''), write_all '' '',
       SequenceSet_encode env known_uids]"
| "Data_match env (Data_Namespace personal other shared) =
     each [write_all ''* NAMESPACE '', encode_namespaces personal, write_all '' '',
       encode_namespaces other, write_all '' '', encode_namespaces shared]"

definition Data_encode :: "Env \<Rightarrow> Data \<Rightarrow> emitter" where
  "Data_encode env d = each [Data_match env d, write_all crlf]"

primrec CommandContinuationRequest_encode :: "Env \<Rightarrow> CommandContinuationRequest \<Rightarrow> emitter" where
  "CommandContinuationRequest_encode env (Continue_Basic basic) =
     (case ccrb_code basic of
        Some c \<Rightarrow> each [write_all ''+ ['', Code_encode env c, write_all ''] '',
            Text_encode (ccrb_text basic), write_all crlf]
      | None \<Rightarrow> each [write_all ''+ '', Text_encode (ccrb_text basic), write_all crlf])"
| "CommandContinuationRequest_encode env (Continue_Base64 d) =
     each [write_all ''+ '', write_all (base64_encode env d), write_all crlf]"

primrec Response_encode :: "Env \<Rightarrow> Response \<Rightarrow> emitter" where
  "Response_encode env (Response_Status status) = Status_encode env status"
| "Response_encode env (Response_Data d) = Data_encode env d"
| "Response_encode env (Response_CommandContinuationRequest continue_request) =
     CommandContinuationRequest_encode env continue_request"

section \<open>The smaller encoders keep the contract\<close>

lemma blands_name_attribute: "wf_name_attribute f \<Longrightarrow> blands (FlagNameAttribute_display f)"
  by (cases f) (auto simp: bland_def blands_valid)

fun ok_flag_fetch :: "FlagFetch \<Rightarrow> bool" where
  "ok_flag_fetch (FlagFetch_Flag f) \<longleftrightarrow> wf_flag f"
| "ok_flag_fetch FlagFetch_Recent \<longleftrightarrow> True"

fun ok_flag_perm :: "FlagPerm \<Rightarrow> bool" where
  "ok_flag_perm (FlagPerm_Flag f) \<longleftrightarrow> wf_flag f"
| "ok_flag_perm FlagPerm_Asterisk \<longleftrightarrow> True"

interpretation flag_fetch_encoder: encoder FlagFetch_encode ok_flag_fetch
proof
  fix f
  assume "ok_flag_fetch f"
  then show "emits (FlagFetch_encode f)"
    by (cases f) (simp_all add: flag_encoder.ok_emits emits_write bland_def)
qed

interpretation flag_perm_encoder: encoder FlagPerm_encode ok_flag_perm
proof
  fix f
  assume "ok_flag_perm f"
  then show "emits (FlagPerm_encode f)"
    by (cases f) (simp_all add: flag_encoder.ok_emits emits_write bland_def)
qed

interpretation name_attribute_encoder: encoder FlagNameAttribute_encode wf_name_attribute
  by unfold_locales (simp add: FlagNameAttribute_encode_def emits_write blands_name_attribute)

interpretation uid_element_encoder: encoder UidElement_encode "\<lambda>_. True"
proof
  fix u
  show "emits (UidElement_encode u)"
    by (cases u; hypsubst; unfold UidElement_encode.simps; (intro emit_intros; simp add: bland_def)+)
qed

interpretation uid_set_encoder: encoder UidSet_encode "\<lambda>_. True"
proof
  fix u
  show "emits (UidSet_encode u)"
    by (cases u) (auto simp: uid_element_encoder.emits_map list_all_iff bland_def
        intro!: emits_join uid_element_encoder.ok_emits)
qed

interpretation metadata_code_encoder: encoder MetadataCode_encode "\<lambda>_. True"
proof
  fix c
  show "emits (MetadataCode_encode c)"
    by (cases c; hypsubst; unfold MetadataCode_encode.simps; (intro emit_intros; simp add: bland_def)+)
qed

fun ok_metadata_response :: "MetadataResponse \<Rightarrow> bool" where
  "ok_metadata_response (WithValues es) \<longleftrightarrow>
     list_all (\<lambda>e. ok_astring (entry_inner (ev_entry e)) \<and> ok_nstring8 (ev_value e)) es"
| "ok_metadata_response (WithoutValues es) \<longleftrightarrow> list_all (\<lambda>e. ok_astring (entry_inner e)) es"

interpretation metadata_response_encoder: encoder MetadataResponse_encode ok_metadata_response
proof
  fix r
  assume "ok_metadata_response r"
  then show "emits (MetadataResponse_encode r)"
    by (cases r; hypsubst; unfold MetadataResponse_encode.simps;
      (intro emit_intros; simp add: bland_def entry_value_encoder.emits_map entry_encoder.emits_map)+)
qed

definition ok_delimiter :: "QuotedChar option \<Rightarrow> bool" where
  "ok_delimiter d \<longleftrightarrow> (case d of None \<Rightarrow> True | Some q \<Rightarrow> ok_quoted_char q)"

interpretation delimiter_encoder: encoder delimiter_encode ok_delimiter
  by unfold_locales
    (auto simp: delimiter_encode_def ok_delimiter_def bland_def intro!: emits_write
      quoted_char_delimited split: option.splits)

definition ok_extension :: "NamespaceResponseExtension \<Rightarrow> bool" where
  "ok_extension x \<longleftrightarrow> ok_istring (nre_key x) \<and> list_all ok_istring (nre_values x)"

lemma list_all_last: "list_all P xs \<Longrightarrow> xs \<noteq> [] \<Longrightarrow> P (last xs)"
  by (simp add: list_all_iff)

lemma list_all_butlast: "list_all P xs \<Longrightarrow> list_all P (butlast xs)"
  by (auto simp: list_all_iff dest: in_set_butlastD)

lemma list_all_map_comp: "list_all P (map f xs) \<longleftrightarrow> list_all (\<lambda>x. P (f x)) xs"
  by (simp add: list_all_iff)

interpretation namespace_extension_encoder: encoder NamespaceResponseExtension_encode ok_extension
proof
  fix x
  assume "ok_extension x"
  then have "ok_istring (nre_key x)" "list_all ok_istring (nre_values x)"
    by (simp_all add: ok_extension_def)
  moreover from this(2) have "list_all emits
      (map (\<lambda>value. each [IString_encode value, write_all '' '']) (butlast (nre_values x)))"
    by (auto simp: list_all_iff dest: in_set_butlastD intro!: emit_intros)
  ultimately show "emits (NamespaceResponseExtension_encode x)"
    unfolding NamespaceResponseExtension_encode_def
    by (intro emit_intros; simp add: bland_def list_all_last)
qed

definition ok_namespace :: "Namespace \<Rightarrow> bool" where
  "ok_namespace n \<longleftrightarrow> ok_istring (ns_prefix n) \<and> ok_delimiter (ns_delimiter n) \<and>
     list_all ok_extension (ns_extensions n)"

interpretation namespace_encoder: encoder Namespace_encode ok_namespace
proof
  fix n
  assume "ok_namespace n"
  then show "emits (Namespace_encode n)"
    unfolding Namespace_encode_def
    by (intro emit_intros delimiter_encoder.ok_emits)
      (simp_all add: ok_namespace_def bland_def namespace_extension_encoder.emits_map)
qed

interpretation namespaces_encoder: encoder encode_namespaces "list_all ok_namespace"
proof
  fix ns
  assume "list_all ok_namespace ns"
  then show "emits (encode_namespaces ns)"
    unfolding encode_namespaces_def
    by (intro emit_intros) (simp_all add: bland_def namespace_encoder.emits_map)
qed

interpretation quota_get_encoder: encoder QuotaGet_encode "\<lambda>q. wf_resource (qg_resource q)"
  by unfold_locales
    (auto simp: QuotaGet_encode_def Resource_encode_def blands_names intro!: emit_intros emits_write)

interpretation thread_encoder: encoder Thread_encode wf_thread
proof
  fix t
  assume t: "wf_thread t"
  have "blands (print_thread t)"
    using print_thread_bland [OF t]
    by (auto simp: blands_def bland_def list_all_iff is_digit_def)
  then show "emits (Thread_encode t)"
    by (simp add: Thread_encode_def Thread_display_print [OF t] emits_write)
qed

interpretation status_item_encoder: encoder StatusDataItem_encode "\<lambda>_. True"
proof
  fix i
  show "emits (StatusDataItem_encode i)"
    by (cases i; hypsubst; unfold StatusDataItem_encode.simps; (intro emit_intros; simp add: bland_def)+)
qed

section \<open>Message data keeps the contract\<close>

definition ok_address :: "Address \<Rightarrow> bool" where
  "ok_address a \<longleftrightarrow> ok_nstring (addr_name a) \<and> ok_nstring (addr_adl a) \<and>
     ok_nstring (addr_mailbox a) \<and> ok_nstring (addr_host a)"

definition ok_envelope :: "Envelope \<Rightarrow> bool" where
  "ok_envelope e \<longleftrightarrow> ok_nstring (env_date e) \<and> ok_nstring (env_subject e) \<and>
     list_all ok_address (env_from e) \<and> list_all ok_address (env_sender e) \<and>
     list_all ok_address (env_reply_to e) \<and> list_all ok_address (env_to e) \<and>
     list_all ok_address (env_cc e) \<and> list_all ok_address (env_bcc e) \<and>
     ok_nstring (env_in_reply_to e) \<and> ok_nstring (env_message_id e)"

definition ok_attributes :: "(IString \<times> IString) list \<Rightarrow> bool" where
  "ok_attributes ps \<longleftrightarrow> list_all (\<lambda>(a, v). ok_istring a \<and> ok_istring v) ps"

definition ok_basic :: "BasicFields \<Rightarrow> bool" where
  "ok_basic b \<longleftrightarrow> ok_attributes (bf_parameter_list b) \<and> ok_nstring (bf_id b) \<and>
     ok_nstring (bf_description b) \<and> ok_istring (bf_content_transfer_encoding b)"

primrec ok_body_extension :: "BodyExtension \<Rightarrow> bool" where
  "ok_body_extension (BodyExtension_NString n) = ok_nstring n"
| "ok_body_extension (BodyExtension_Number n) = True"
| "ok_body_extension (BodyExtension_List l) = list_all (\<lambda>b. b) (map ok_body_extension l)"

definition ok_location :: "Location \<Rightarrow> bool" where
  "ok_location l \<longleftrightarrow> ok_nstring (loc_location l) \<and> list_all ok_body_extension (loc_extensions l)"

definition ok_language :: "Language \<Rightarrow> bool" where
  "ok_language l \<longleftrightarrow> list_all ok_istring (lang_language l) \<and> pred_option ok_location (lang_tail l)"

definition ok_disposition :: "Disposition \<Rightarrow> bool" where
  "ok_disposition d \<longleftrightarrow>
     pred_option (\<lambda>(s, ps). ok_istring s \<and> ok_attributes ps) (disp_disposition d) \<and>
     pred_option ok_language (disp_tail d)"

definition ok_single :: "SinglePartExtensionData \<Rightarrow> bool" where
  "ok_single d \<longleftrightarrow> ok_nstring (sp_md5 d) \<and> pred_option ok_disposition (sp_tail d)"

definition ok_multi :: "MultiPartExtensionData \<Rightarrow> bool" where
  "ok_multi d \<longleftrightarrow> ok_attributes (mp_parameter_list d) \<and> pred_option ok_disposition (mp_tail d)"

primrec ok_body :: "Body \<Rightarrow> bool"
  and ok_specific :: "SpecificFields \<Rightarrow> bool"
  and ok_body_structure :: "BodyStructure \<Rightarrow> bool" where
  "ok_body (Body basic specific) = (ok_basic basic \<and> ok_specific specific)"
| "ok_specific (SpecificFields_Basic t s) = (ok_istring t \<and> ok_istring s)"
| "ok_specific (SpecificFields_Message e b n) = (ok_envelope e \<and> ok_body_structure b)"
| "ok_specific (SpecificFields_Text s n) = ok_istring s"
| "ok_body_structure (BodyStructure_Single b x) = (ok_body b \<and> pred_option ok_single x)"
| "ok_body_structure (BodyStructure_Multi bs s x) =
     (list_all (\<lambda>b. b) (map ok_body_structure bs) \<and> ok_istring s \<and> pred_option ok_multi x)"

interpretation address_encoder: encoder Address_encode ok_address
proof
  fix a
  assume "ok_address a"
  then show "emits (Address_encode a)"
    unfolding Address_encode_def
    by (intro emit_intros) (simp_all add: ok_address_def bland_def)
qed

interpretation envelope_encoder: encoder Envelope_encode ok_envelope
proof
  fix e
  assume "ok_envelope e"
  then show "emits (Envelope_encode e)"
    unfolding Envelope_encode_def
    by (intro emit_intros) (simp_all add: ok_envelope_def bland_def address_encoder.emits_map)
qed

lemma attributes_emit [emit_intros]:
  "ok_attributes ps \<Longrightarrow> emits (List1AttributeValueOrNil (attributes ps))"
  by (rule emits_attributes)
    (auto simp: ok_attributes_def attributes_def list_all_iff istring_encoder.ok_emits)

interpretation basic_encoder: encoder BasicFields_encode ok_basic
proof
  fix b
  assume "ok_basic b"
  then show "emits (BasicFields_encode b)"
    unfolding BasicFields_encode_def
    by (intro emit_intros) (simp_all add: ok_basic_def bland_def)
qed

interpretation body_extension_encoder: encoder BodyExtension_encode ok_body_extension
proof
  fix x
  assume "ok_body_extension x"
  then show "emits (BodyExtension_encode x)"
  proof (induction x)
    case (BodyExtension_List l)
    then have "list_all emits (map BodyExtension_encode l)" by (auto simp: list_all_iff)
    then show ?case
      unfolding BodyExtension_encode.simps by (intro emit_intros) (simp_all add: bland_def)
  qed (unfold BodyExtension_encode.simps, (intro emit_intros; simp)+)
qed

interpretation location_encoder: encoder Location_encode ok_location
proof
  fix l
  assume "ok_location l"
  then show "emits (Location_encode l)"
    unfolding Location_encode_def
    by (intro emit_intros body_extension_encoder.emits_each_map)
      (simp_all add: ok_location_def list_all_map_comp body_extension_encoder.emits_each_map bland_def)
qed

lemma tail_emits [emit_intros]:
  "(\<And>x. t = Some x \<Longrightarrow> emits (enc x)) \<Longrightarrow> emits (tail_encode enc t)"
  unfolding tail_encode_def by (intro emit_intros) (simp_all add: bland_def)

interpretation language_encoder: encoder Language_encode ok_language
proof
  fix l
  assume "ok_language l"
  then show "emits (Language_encode l)"
    unfolding Language_encode_def
    by (intro emit_intros location_encoder.ok_emits)
      (simp_all add: ok_language_def bland_def istring_encoder.emits_map)
qed

interpretation disposition_encoder: encoder Disposition_encode ok_disposition
proof
  fix d
  assume "ok_disposition d"
  then show "emits (Disposition_encode d)"
    unfolding Disposition_encode_def
    by (intro emit_intros language_encoder.ok_emits) (simp_all add: ok_disposition_def bland_def)
qed

interpretation single_encoder: encoder SinglePartExtensionData_encode ok_single
proof
  fix d
  assume "ok_single d"
  then show "emits (SinglePartExtensionData_encode d)"
    unfolding SinglePartExtensionData_encode_def
    by (intro emit_intros disposition_encoder.ok_emits) (simp_all add: ok_single_def)
qed

interpretation multi_encoder: encoder MultiPartExtensionData_encode ok_multi
proof
  fix d
  assume "ok_multi d"
  then show "emits (MultiPartExtensionData_encode d)"
    unfolding MultiPartExtensionData_encode_def
    by (intro emit_intros disposition_encoder.ok_emits) (simp_all add: ok_multi_def)
qed

lemma body_emits:
  "ok_body b \<Longrightarrow> emits (Body_encode b)"
  "ok_specific s \<Longrightarrow> ok_basic f \<Longrightarrow> emits (SpecificFields_encode s f)"
  "ok_body_structure t \<Longrightarrow> emits (BodyStructure_encode t)"
proof (induction b and s and t arbitrary: and f and)
  case (SpecificFields_Message e b n)
  then show ?case
    unfolding SpecificFields_encode.simps
    by (intro emit_intros basic_encoder.ok_emits envelope_encoder.ok_emits) (simp_all add: bland_def)
next
  case (SpecificFields_Basic t s)
  then show ?case
    unfolding SpecificFields_encode.simps
    by (intro emit_intros basic_encoder.ok_emits) (simp_all add: bland_def)
next
  case (SpecificFields_Text s n)
  then show ?case
    unfolding SpecificFields_encode.simps
    by (intro emit_intros basic_encoder.ok_emits) (simp_all add: bland_def)
next
  case (BodyStructure_Single b x)
  then show ?case
    unfolding BodyStructure_encode.simps
    by (intro emit_intros single_encoder.ok_emits) (simp_all add: bland_def)
next
  case (BodyStructure_Multi bs s x)
  then have "list_all emits (map BodyStructure_encode bs)" by (auto simp: list_all_iff)
  with BodyStructure_Multi.prems show ?case
    unfolding BodyStructure_encode.simps
    by (intro emit_intros multi_encoder.ok_emits) (simp_all add: bland_def)
qed simp

fun ok_item :: "MessageDataItem \<Rightarrow> bool" where
  "ok_item (Item_Body b) \<longleftrightarrow> ok_body_structure b"
| "ok_item (Item_BodyExt s _ d) \<longleftrightarrow> pred_option ok_section s \<and> ok_nstring d"
| "ok_item (Item_BodyStructure b) \<longleftrightarrow> ok_body_structure b"
| "ok_item (Item_Envelope e) \<longleftrightarrow> ok_envelope e"
| "ok_item (Item_Flags fs) \<longleftrightarrow> list_all ok_flag_fetch fs"
| "ok_item (Item_Rfc822 n) \<longleftrightarrow> ok_nstring n"
| "ok_item (Item_Rfc822Header n) \<longleftrightarrow> ok_nstring n"
| "ok_item (Item_Rfc822Text n) \<longleftrightarrow> ok_nstring n"
| "ok_item (Item_Binary _ v) \<longleftrightarrow> ok_nstring8 v"
| "ok_item _ \<longleftrightarrow> True"

interpretation item_encoder: encoder "MessageDataItem_encode env" "\<lambda>i. env_ok env \<and> ok_item i" for env
proof
  fix i
  assume "env_ok env \<and> ok_item i"
  then show "emits (MessageDataItem_encode env i)"
    by (cases i; hypsubst; unfold MessageDataItem_encode.simps;
      (intro emit_intros section_encoder.ok_emits body_emits envelope_encoder.ok_emits;
        simp add: bland_def flag_fetch_encoder.emits_map)+)
qed

section \<open>Whole responses\<close>

text \<open>
  What a response has to satisfy beyond its types. A \<open>Text\<close> may end in bytes that the fragmentizer
  takes for an announcement, and neither \<open>CodeOther\<close> nor the URL of a referral is checked for line
  breaks; the encoder writes all three as they are.
\<close>

fun ok_code :: "Code \<Rightarrow> bool" where
  "ok_code (Code_BadCharset cs) \<longleftrightarrow> list_all wf_charset cs"
| "ok_code (Code_Capability cs) \<longleftrightarrow> list_all wf_capability cs"
| "ok_code (Code_PermanentFlags fs) \<longleftrightarrow> list_all ok_flag_perm fs"
| "ok_code (Code_Referral url) \<longleftrightarrow> quiet url"
| "ok_code (Code_Other c) \<longleftrightarrow> quiet (code_other_inner c)"
| "ok_code _ \<longleftrightarrow> True"

definition ok_text :: "Text \<Rightarrow> bool" where
  "ok_text t \<longleftrightarrow> quiet (text_inner t)"

definition ok_greeting :: "Greeting \<Rightarrow> bool" where
  "ok_greeting g \<longleftrightarrow> pred_option ok_code (gr_code g) \<and> ok_text (gr_text g)"

fun ok_status :: "Status \<Rightarrow> bool" where
  "ok_status (Status_Untagged b) \<longleftrightarrow> pred_option ok_code (sb_code b) \<and> ok_text (sb_text b)"
| "ok_status (Status_Tagged t) \<longleftrightarrow> wf_tag (tagged_tag t) \<and>
     pred_option ok_code (sb_code (tagged_body t)) \<and> ok_text (sb_text (tagged_body t))"
| "ok_status (Status_Bye b) \<longleftrightarrow> pred_option ok_code (bye_code b) \<and> ok_text (bye_text b)"

fun ok_data :: "Data \<Rightarrow> bool" where
  "ok_data (Data_Capability cs) \<longleftrightarrow> list_all wf_capability cs"
| "ok_data (Data_List is d m) \<longleftrightarrow> list_all wf_name_attribute is \<and> ok_delimiter d \<and> ok_mailbox m"
| "ok_data (Data_Lsub is d m) \<longleftrightarrow> list_all wf_name_attribute is \<and> ok_delimiter d \<and> ok_mailbox m"
| "ok_data (Data_Status m is) \<longleftrightarrow> ok_mailbox m"
| "ok_data (Data_Thread ts) \<longleftrightarrow> list_all wf_thread ts"
| "ok_data (Data_Flags fs) \<longleftrightarrow> list_all wf_flag fs"
| "ok_data (Data_Fetch n is) \<longleftrightarrow> list_all ok_item is"
| "ok_data (Data_Enabled cs) \<longleftrightarrow> list_all wf_enable cs"
| "ok_data (Data_Quota r qs) \<longleftrightarrow> ok_astring r \<and> list_all (\<lambda>q. wf_resource (qg_resource q)) qs"
| "ok_data (Data_QuotaRoot m rs) \<longleftrightarrow> ok_mailbox m \<and> list_all ok_astring rs"
| "ok_data (Data_Id ps) \<longleftrightarrow> pred_option (list_all (\<lambda>(k, n). ok_istring k \<and> ok_nstring n)) ps"
| "ok_data (Data_Metadata m r) \<longleftrightarrow> ok_mailbox m \<and> ok_metadata_response r"
| "ok_data (Data_Namespace ps os ss) \<longleftrightarrow>
     list_all ok_namespace ps \<and> list_all ok_namespace os \<and> list_all ok_namespace ss"
| "ok_data _ \<longleftrightarrow> True"

fun ok_response :: "Response \<Rightarrow> bool" where
  "ok_response (Response_Status s) \<longleftrightarrow> ok_status s"
| "ok_response (Response_Data d) \<longleftrightarrow> ok_data d"
| "ok_response (Response_CommandContinuationRequest (Continue_Basic b)) \<longleftrightarrow>
     pred_option ok_code (ccrb_code b) \<and> ok_text (ccrb_text b)"
| "ok_response (Response_CommandContinuationRequest (Continue_Base64 _)) \<longleftrightarrow> True"

interpretation code_encoder: encoder "Code_encode env" ok_code for env
proof
  fix c
  assume "ok_code c"
  then show "emits (Code_encode env c)"
    by (cases c; hypsubst; unfold Code_encode.simps CodeOther_encode_def;
      (intro emit_intros metadata_code_encoder.ok_emits uid_set_encoder.ok_emits;
        simp add: bland_def charset_encoder.emits_map capability_encoder.emits_map
          flag_perm_encoder.emits_map)+)
qed

lemma text_emits [emit_intros]: "ok_text t \<Longrightarrow> emits (Text_encode t)"
  by (simp add: ok_text_def Text_encode_def emits_write)

lemma bracketed_emits [emit_intros]: "pred_option ok_code c \<Longrightarrow> emits (bracketed_code env c)"
  unfolding bracketed_code_def
  by (intro emit_intros code_encoder.ok_emits) (simp_all add: bland_def)

lemma blands_kind: "blands (StatusKind_name k)"
  by (cases k) (simp_all add: bland_def)

lemma format_status_whole:
  assumes "\<And>t. tag = Some t \<Longrightarrow> wf_tag t" "blands status" "pred_option ok_code c" "ok_text text"
  shows "whole (format_status env tag status c text)"
  unfolding format_status_def using assms
  by (intro whole_Cons whole_end emit_intros) (simp_all add: bland_def)

interpretation greetings: framed_message "Greeting_encode env" ok_greeting for env
proof
  fix g
  assume "ok_greeting g"
  moreover have "emits (GreetingKind_encode k)" for k
    by (cases k) (simp_all add: emits_write bland_def)
  ultimately show "whole (Greeting_encode env g)"
    unfolding Greeting_encode_def
    by (intro whole_Cons whole_end emit_intros) (simp_all add: ok_greeting_def bland_def)
qed

lemma status_whole: "ok_status s \<Longrightarrow> whole (Status_encode env s)"
  by (cases s) (auto simp: blands_kind bland_def intro!: format_status_whole)

lemma delimiter_emits [emit_intros]: "ok_delimiter d \<Longrightarrow> emits (delimiter_encode d)"
  by (rule delimiter_encoder.ok_emits)

lemma spaced_emits [simp]:
  "list_all wf_enable cs \<Longrightarrow> list_all emits (map (\<lambda>x. each [write_all '' '', CapabilityEnable_encode x]) cs)"
  "list_all ok_astring as \<Longrightarrow> list_all emits (map (\<lambda>x. each [write_all '' '', AString_encode x]) as)"
  by (auto simp: list_all_iff bland_def enable_encoder.ok_emits intro!: emit_intros)

lemma mapped_response [simp]:
  "list_all wf_capability cs \<Longrightarrow> list_all emits (map Capability_encode cs)"
  "list_all wf_name_attribute as \<Longrightarrow> list_all emits (map FlagNameAttribute_encode as)"
  "list_all emits (map StatusDataItem_encode is)"
  "list_all wf_thread ts \<Longrightarrow> list_all emits (map Thread_encode ts)"
  "list_all wf_flag fs \<Longrightarrow> list_all emits (map Flag_encode fs)"
  "list_all (\<lambda>q. wf_resource (qg_resource q)) qs \<Longrightarrow> list_all emits (map QuotaGet_encode qs)"
  "env_ok env \<Longrightarrow> list_all ok_item ms \<Longrightarrow> list_all emits (map (MessageDataItem_encode env) ms)"
  using item_encoder.ok_emits status_item_encoder.ok_emits
  by (auto simp: list_all_iff capability_encoder.ok_emits name_attribute_encoder.ok_emits
      thread_encoder.ok_emits flag_encoder.ok_emits quota_get_encoder.ok_emits)

lemma numbers_and_modseq_emits [emit_intros]:
  "blands prefix \<Longrightarrow> emits (numbers_and_modseq prefix ns m)"
  unfolding numbers_and_modseq_def by (intro emit_intros) (simp_all add: bland_def)

lemma data_emits:
  assumes "env_ok env" "ok_data d"
  shows "emits (Data_match env d)"
  using assms
  by (cases d; hypsubst; unfold Data_match.simps;
    (intro emit_intros id_parameters_emits metadata_response_encoder.ok_emits
        namespaces_encoder.ok_emits;
      simp add: bland_def)+)

lemma continue_whole:
  assumes "env_ok env" "ok_response (Response_CommandContinuationRequest c)"
  shows "whole (CommandContinuationRequest_encode env c)"
proof (cases c)
  case (Continue_Basic b)
  with assms show ?thesis
    unfolding Continue_Basic CommandContinuationRequest_encode.simps
    by (cases "ccrb_code b"; simp only: option.case;
      intro whole_Cons whole_end emit_intros code_encoder.ok_emits; simp add: bland_def)
next
  case (Continue_Base64 d)
  show ?thesis
    unfolding Continue_Base64 CommandContinuationRequest_encode.simps using assms(1)
    by (intro whole_Cons whole_end emit_intros) (simp_all add: bland_def env_ok_blands)
qed

interpretation responses:
  framed_message "Response_encode env" "\<lambda>r. env_ok env \<and> ok_response r" for env
proof
  fix r
  assume "env_ok env \<and> ok_response r"
  then show "whole (Response_encode env r)"
    by (cases r; hypsubst; unfold Response_encode.simps Data_encode_def)
      (simp_all add: status_whole whole_last data_emits continue_whole)
qed

end
