(* ===== verification/Imap_Wire.thy ===== *)
theory Imap_Wire
  imports Imap_Encode_Response
begin

text \<open>
  The encoder (\<open>codec/encode.rs\<close>) against the fragmentizer (\<open>fragmentizer.rs\<close>): what a peer sees
  of an encoded message. The interpretations of \<open>framed_message\<close> carry the theorems.
\<close>

section \<open>The encoder as one buffer\<close>

definition buffer :: "EncodeContext \<Rightarrow> bytes" where
  "buffer ctx = dump (into_items ctx)"

text \<open>C30: An encode context refines a single append-only buffer: it starts empty, writing appends,
  and closing a line or a literal moves no byte, so splitting the message into fragments neither
  loses nor reorders anything.\<close>

theorem EncodeContext_refines_buffer:
  "buffer EncodeContext_new = [] \<and> buffer (write_all s ctx) = buffer ctx @ s \<and>
   buffer (push_line ctx) = buffer ctx \<and> buffer (push_literal m ctx) = buffer ctx"
  by (simp add: buffer_def EncodeContext_new_def write_all_def push_line_def push_literal_def
      into_items_def dump_def)

section \<open>A client's stream\<close>

text \<open>What a client sends with the codecs for commands, authentication data and \<open>IDLE\<close>.\<close>

datatype ClientMessage =
    Client_Command Command
  | Client_AuthenticateData AuthenticateData
  | Client_IdleDone IdleDone

primrec client_encode :: "Env \<Rightarrow> ClientMessage \<Rightarrow> emitter" where
  "client_encode env (Client_Command c) = Command_encode env c"
| "client_encode env (Client_AuthenticateData a) = AuthenticateData_encode env a"
| "client_encode env (Client_IdleDone d) = IdleDone_encode d"

primrec ok_client :: "ClientMessage \<Rightarrow> bool" where
  "ok_client (Client_Command c) = ok_command c"
| "ok_client (Client_AuthenticateData a) = True"
| "ok_client (Client_IdleDone d) = True"

interpretation client: framed_message "client_encode env" "\<lambda>m. env_ok env \<and> ok_client m" for env
proof
  fix m
  assume "env_ok env \<and> ok_client m"
  then show "whole (client_encode env m)"
    by (cases m) (simp_all add: commands.ok_whole authenticate_data.ok_whole idle_done.ok_whole)
qed

lemma list_all_with: "P \<Longrightarrow> list_all Q xs \<Longrightarrow> list_all (\<lambda>x. P \<and> Q x) xs"
  by (simp add: list_all_iff)


section \<open>A server's stream\<close>


section \<open>Tag and name of a command\<close>

text \<open>
  \<open>leads s e\<close>: the encoder \<open>e\<close> writes \<open>s\<close> first, in one line, and then something that keeps to
  the contract.
\<close>

definition leads :: "bytes \<Rightarrow> emitter \<Rightarrow> bool" where
  "leads s e \<longleftrightarrow> (\<exists>f. emits f \<and> e = each [write_all s, f])"

lemma leads_Cons: "leads s e \<Longrightarrow> emits (each es) \<Longrightarrow> leads s (each (e # es))"
proof -
  assume "leads s e" "emits (each es)"
  then obtain f where f: "emits f" "e = each [write_all s, f]" by (auto simp: leads_def)
  then have "each (e # es) = each [write_all s, each (f # es)]" by (simp add: fun_eq_iff)
  moreover have "emits (each (f # es))" by (intro emit_intros) fact+
  ultimately show ?thesis unfolding leads_def by blast
qed

lemma leads_write: "t = s @ u \<Longrightarrow> quiet u \<Longrightarrow> leads s (write_all t)"
  unfolding leads_def
  by (intro exI [of _ "write_all u"]) (simp add: emits_write write_all_def fun_eq_iff)

lemma leads_both: "leads t (each es) \<Longrightarrow> leads (s @ t) (each (write_all s # es))"
proof -
  assume "leads t (each es)"
  then obtain f where f: "emits f" "each es = each [write_all t, f]" by (auto simp: leads_def)
  then have "each (write_all s # es) = each [write_all (s @ t), f]"
    by (simp add: fun_eq_iff write_all_def)
  with f(1) show ?thesis unfolding leads_def by blast
qed

lemma leads_if: "(b \<Longrightarrow> leads s e) \<Longrightarrow> (\<not> b \<Longrightarrow> leads s f) \<Longrightarrow> leads s (if b then e else f)"
  by simp

lemma leads_flat:
  assumes "leads s e" "emits e"
  obtains r where "flat e = s @ r"
proof -
  from assms obtain f where f: "emits f" "e = each [write_all s, f]" by (auto simp: leads_def)
  have "writes e (s @ flat f @ [])"
    unfolding f(2) by (intro writes_Cons writes_Nil writes_write emits_writes f(1))
  then show thesis using that writes_flat by metis
qed


fun uid_prefix :: "CommandBody \<Rightarrow> bytes" where
  "uid_prefix (Command_ExpungeUid _) = ''UID ''"
| "uid_prefix (Command_Search _ _ uid) = (if uid then ''UID '' else [])"
| "uid_prefix (Command_Sort _ _ _ uid) = (if uid then ''UID '' else [])"
| "uid_prefix (Command_Thread _ _ _ uid) = (if uid then ''UID '' else [])"
| "uid_prefix (Command_Fetch _ _ uid _) = (if uid then ''UID '' else [])"
| "uid_prefix (Command_Store _ _ _ _ uid _) = (if uid then ''UID '' else [])"
| "uid_prefix (Command_Copy _ _ uid) = (if uid then ''UID '' else [])"
| "uid_prefix (Command_Move _ _ uid) = (if uid then ''UID '' else [])"
| "uid_prefix _ = []"

definition command_start :: "CommandBody \<Rightarrow> bytes" where
  "command_start body = uid_prefix body @ CommandBody_name body"

lemma each_skip: "each (e # skip # es) = each (e # es)"
  by (simp add: skip_def fun_eq_iff)

lemma parenthesized_Nil: "parenthesized [] = skip"
  by (simp add: parenthesized_def only_if_def)

lemma leads_parenthesized:
  "list_all emits es \<Longrightarrow> es \<noteq> [] \<Longrightarrow> leads '' '' (parenthesized es)"
  unfolding parenthesized_def only_if_def
  by (simp only: if_True not_False_eq_True simp_thms)
    (intro leads_Cons leads_write [where u = "''(''"] emit_intros; simp add: bland_def)

lemma search_leads:
  assumes "env_ok env" "ok_command_body (Command_Search c ks u)"
  shows "leads (command_start (Command_Search c ks u) @ '' '') (CommandBody_encode env (Command_Search c ks u))"
proof -
  have start: "(if u then write_all ''UID SEARCH'' else write_all ''SEARCH'') =
      write_all (command_start (Command_Search c ks u))"
    by (simp add: command_start_def)
  show ?thesis
  proof (cases c)
    case None
    show ?thesis
      unfolding None CommandBody_encode.simps option.case each_skip start [unfolded None] write_all_seq
      using assms by (intro leads_Cons leads_write [where u = "[]"] emit_intros) simp_all
  next
    case (Some d)
    show ?thesis
      unfolding Some CommandBody_encode.simps option.case start [unfolded Some]
      using assms Some
      by (intro leads_both leads_Cons leads_write [where u = "''CHARSET ''"] emit_intros)
        (simp_all add: bland_def)
  qed
qed

lemma get_metadata_leads:
  assumes "ok_command_body (Command_GetMetadata os m es)"
  shows "leads (command_start (Command_GetMetadata os m es) @ '' '')
    (CommandBody_encode env (Command_GetMetadata os m es))"
proof (cases "os = []")
  case True
  have start: "''GETMETADATA'' @ '' '' = command_start (Command_GetMetadata os m es) @ '' ''"
    by (simp add: command_start_def)
  show ?thesis
    unfolding True CommandBody_encode.simps list.map parenthesized_Nil each_skip write_all_seq
      start [unfolded True]
    using assms
    by (intro leads_Cons leads_write [where u = "[]"] emit_intros entry_encoder.ok_emits)
      (simp_all add: bland_def entry_encoder.emits_map)
next
  case False
  have start: "command_start (Command_GetMetadata os m es) = ''GETMETADATA''"
    by (simp add: command_start_def)
  show ?thesis
    unfolding CommandBody_encode.simps start using assms False
    by (intro leads_both leads_Cons leads_parenthesized mapped_emits emit_intros entry_encoder.ok_emits)
      (simp_all add: bland_def entry_encoder.emits_map)
qed

lemma leads_take: "take (length s) t = s \<Longrightarrow> quiet (drop (length s) t) \<Longrightarrow> leads s (write_all t)"
  by (rule leads_write [where u = "drop (length s) t"]) (metis append_take_drop_id, simp)

lemma auth_emits [emit_intros]: "wf_auth m \<Longrightarrow> emits (AuthMechanism_encode m)"
  by (simp add: AuthMechanism_encode_def emits_write blands_names)

lemma CommandBody_leads:
  assumes "env_ok env" "ok_command_body body"
  shows "leads (command_start body @ '' '') (CommandBody_encode env body) \<or>
    CommandBody_encode env body = write_all (command_start body)"
proof (cases body)
  case (Command_Search c ks u)
  then show ?thesis using assms search_leads by blast
next
  case (Command_GetMetadata os m es)
  then show ?thesis using assms get_metadata_leads by blast
qed ((hypsubst; insert assms; unfold CommandBody_encode.simps;
  ((rule disjI1, rule leads_Cons);
    (rule leads_take; simp add: command_start_def bland_def; fail |
     rule leads_if; rule leads_take; simp add: command_start_def bland_def; fail |
     (intro emit_intros items_encoder.ok_emits threading_encoder.ok_emits
        compression_encoder.ok_emits entry_encoder.ok_emits id_parameters_emits;
      simp add: bland_def emits_write env_ok_blands
        flag_encoder.emits_map enable_encoder.emits_map quota_set_encoder.emits_map
        entry_encoder.emits_map entry_value_encoder.emits_map)+)
   | (rule disjI2, simp add: command_start_def)))+)

lemma encode_message_flat: "dump (encode_message enc m) = flat (enc m)"
  by (simp add: encode_message_def flat_def encoded_def)

lemma command_flat:
  assumes "env_ok env" "ok_command c"
  shows "flat (Command_encode env c) =
    tag_inner (cmd_tag c) @ sp # flat (CommandBody_encode env (cmd_body c)) @ crlf"
proof -
  have "emits (Tag_encode (cmd_tag c))" "emits (write_all '' '')"
    using assms(2) by (simp_all add: ok_command_def tag_encoder.ok_emits emits_write bland_def)
  moreover have "emits (CommandBody_encode env (cmd_body c))"
    using assms by (intro CommandBody_emits) (simp_all add: ok_command_def)
  ultimately have "writes (Command_encode env c)
      (flat (Tag_encode (cmd_tag c)) @ flat (write_all '' '') @
       flat (CommandBody_encode env (cmd_body c)) @ crlf @ [])"
    unfolding Command_encode_def by (intro writes_Cons writes_Nil writes_write emits_writes)
  from writes_flat [OF this] show ?thesis by (simp add: Tag_encode_def)
qed

lemma command_start_follows:
  assumes "env_ok env" "ok_command_body body"
  shows "\<exists>r. flat (CommandBody_encode env body) = command_start body @ r \<and> (r = [] \<or> hd r = sp)"
  using CommandBody_leads [OF assms]
proof
  assume "leads (command_start body @ '' '') (CommandBody_encode env body)"
  from leads_flat [OF this CommandBody_emits [OF assms]] show ?thesis
    by (metis append_Cons append_assoc list.sel(1) append_Nil)
qed simp

text \<open>C23: every command is written as its tag, a space, \<open>UID\<close> and a space where it is a \<open>UID\<close>
  command, the name that \<open>CommandBody::name\<close> reports, and then either the end of the line or a
  space and its arguments.\<close>

theorem command_on_the_wire:
  assumes "env_ok env" "ok_command c"
  shows "\<exists>r. dump (encode_message (Command_encode env) c) =
      tag_inner (cmd_tag c) @ sp # uid_prefix (cmd_body c) @ CommandBody_name (cmd_body c) @ r \<and>
    (r = crlf \<or> hd r = sp)"
proof -
  from assms obtain r where "flat (CommandBody_encode env (cmd_body c)) = command_start (cmd_body c) @ r"
    "r = [] \<or> hd r = sp"
    using command_start_follows [of env "cmd_body c"] by (auto simp: ok_command_def)
  then show ?thesis
    by (intro exI [of _ "r @ crlf"])
      (auto simp: encode_message_flat command_flat [OF assms] command_start_def hd_append)
qed

text \<open>C24: a server can answer a command it could not receive in full. Whatever part of an encoded
  command its message buffer holds (a limit may have cut it off, or only the first line is there),
  as long as that is more than the tag, \<open>decode_tag\<close> returns the tag of the command.\<close>

theorem command_tag_recovered:
  assumes "env_ok env" "ok_command c"
    "message_bytes f = take n (dump (encode_message (Command_encode env) c))"
    "length (tag_inner (cmd_tag c)) < n"
  shows "decode_tag f = Some (cmd_tag c)"
proof -
  obtain rest where "message_bytes f = tag_inner (cmd_tag c) @ sp # rest"
    using assms(3,4)
    by (auto simp: encode_message_flat command_flat [OF assms(1,2)] take_Cons' split: if_splits)
  with assms(2) show ?thesis
    by (simp add: decode_tag_def message_bytes_def parse_tag_valid ok_command_def)
qed

section \<open>Sequence sets on the wire\<close>

fun print_end :: "SeqOrUid \<Rightarrow> bytes" where
  "print_end (Value n) = dec (unat n)"
| "print_end Asterisk = ''*''"

fun print_sequence :: "Sequence \<Rightarrow> bytes" where
  "print_sequence (Single a) = print_end a"
| "print_sequence (Range a b) = print_end a @ '':'' @ print_end b"

fun print_sequences :: "Sequence list \<Rightarrow> bytes" where
  "print_sequences [] = []"
| "print_sequences [x] = print_sequence x"
| "print_sequences (x # xs) = print_sequence x @ '','' @ print_sequences xs"

lemma SeqOrUid_encode_print: "SeqOrUid_encode a = write_all (print_end a)"
  by (cases a) (simp_all add: SeqOrUid_encode_def)

lemma Sequence_encode_print: "Sequence_encode s = write_all (print_sequence (Sequence_normalize s))"
  by (simp add: Sequence_encode_def SeqOrUid_encode_print write_all_seq split: Sequence.split)

lemma join_writes:
  "xs \<noteq> [] \<Longrightarrow> join_serializable (map (\<lambda>x. write_all (print_sequence x)) xs) '','' =
     write_all (print_sequences xs)"
proof (induction xs rule: print_sequences.induct)
  case (3 x y ys)
  have "join_serializable (e # f # es) sep = each [e, write_all sep, join_serializable (f # es) sep]" for e f es sep
    by (simp add: join_serializable_def fun_eq_iff each_append)
  with 3 show ?case by (simp add: write_all_seq)
qed (simp_all add: join_serializable_def skip_def fun_eq_iff)

lemma split_on_absent: "c \<notin> set s \<Longrightarrow> split_on c s = [s]"
  by (induction s) auto

lemma split_on_append: "c \<notin> set s \<Longrightarrow> split_on c (s @ c # t) = s # split_on c t"
  by (induction s) auto

lemma print_end_set: "x \<in> set (print_end a) \<Longrightarrow> is_digit x \<or> x = CHR ''*''"
  by (cases a) (auto dest: dec_digits_set)

lemma print_end_separators: "CHR '':'' \<notin> set (print_end a)" "CHR '','' \<notin> set (print_end a)"
  using print_end_set [of "CHR '':''" a] print_end_set [of "CHR '',''" a]
  by (auto simp: is_digit_def)

lemma print_sequence_comma: "CHR '','' \<notin> set (print_sequence s)"
  by (cases s) (auto simp: print_end_separators)

lemma read_end: "wf_seq_or_uid a \<Longrightarrow> SeqOrUid_from_str (print_end a) = Inr a"
proof (cases a)
  case (Value n)
  assume "wf_seq_or_uid a"
  with Value have n: "n \<noteq> 0" "0 < unat n" by (simp_all add: unat_gt_0)
  then have "dec (unat n) \<noteq> ''*''" "\<not> starts_with ''0'' (dec (unat n))"
    using dec_hd_zero [of "unat n"] dec_digits_set [of "CHR ''*''" "unat n"]
    by (cases "dec (unat n)"; auto simp: starts_with_def is_digit_def)+
  moreover have "unat n < 2 ^ 32" using unsigned_less [of n] by simp
  ultimately show ?thesis
    using n by (simp add: Value SeqOrUid_from_str_def NonZeroU32_from_str_def)
qed (simp add: SeqOrUid_from_str_def)

lemma read_sequence: "wf_sequence s \<Longrightarrow> Sequence_from_str (print_sequence s) = Inr s"
  by (cases s)
    (simp_all add: Sequence_from_str_def split_on_absent split_on_append print_end_separators read_end)

lemma read_sequences:
  "xs \<noteq> [] \<Longrightarrow> list_all wf_sequence xs \<Longrightarrow>
     collect_ok (map Sequence_from_str (split_on CHR '','' (print_sequences xs))) = Inr xs"
  by (induction xs rule: print_sequences.induct)
    (simp_all add: split_on_absent split_on_append print_sequence_comma read_sequence)

lemma SequenceSet_flat:
  assumes "wf_sequence_set s" "small_set s" "visits_all (hash_order env)"
  defines "t \<equiv> SequenceSet_normalize (hash_order env) s"
  shows "flat (SequenceSet_encode env s) = print_sequences (sequences t)" "wf_sequence_set t"
    "denote largest t \<inter> {..largest} = denote largest s \<inter> {..largest}"
proof -
  note t = normalize_result [OF assms(1-3), folded t_def]
  have wf: "sequences t \<noteq> []" using t(1) by (auto simp: wf_sequence_set_def)
  have "map Sequence_encode (sequences t) = map (\<lambda>x. write_all (print_sequence x)) (sequences t)"
    using t(4) by (auto simp: Sequence_encode_print)
  then show "flat (SequenceSet_encode env s) = print_sequences (sequences t)"
    using wf by (simp only: SequenceSet_encode_def t_def [symmetric] join_writes not_False_eq_True flat_write)
  show "wf_sequence_set t" "denote largest t \<inter> {..largest} = denote largest s \<inter> {..largest}"
    using t(1,2) by blast+
qed

text \<open>A sequence set survives the wire up to normalization: \<open>from_str\<close> reads back from the encoder's
  bytes exactly the normalized set, and that set denotes the same messages as the one the client
  built, in every mailbox.\<close>

theorem SequenceSet_wire_roundtrip:
  assumes "wf_sequence_set s" "small_set s" "visits_all (hash_order env)"
  shows "\<exists>t. SequenceSet_from_str (flat (SequenceSet_encode env s)) = Inr t \<and>
    t = SequenceSet_normalize (hash_order env) s \<and>
    denote largest t \<inter> {..largest} = denote largest s \<inter> {..largest}"
proof -
  let ?t = "SequenceSet_normalize (hash_order env) s"
  note t = SequenceSet_flat [OF assms]
  have wf: "sequences ?t \<noteq> []" "list_all wf_sequence (sequences ?t)"
    using t(2) by (auto simp: wf_sequence_set_def)
  then have "SequenceSet_from_str (flat (SequenceSet_encode env s)) = SequenceSet_try_from (sequences ?t)"
    using read_sequences [OF wf] by (simp add: t(1) SequenceSet_from_str_def)
  also have "\<dots> = Inr ?t"
    using wf(1) by (cases ?t) (simp add: SequenceSet_try_from_def VecN_try_from_def VecN_validate_def Suc_le_eq)
  finally show ?thesis using t(3) by blast
qed

section \<open>Continuation requests\<close>

lemma base64_quiet_bracket: "env_ok env \<Longrightarrow> CHR ''['' \<notin> set (base64_encode env d)"
proof
  have "\<not> is_base64_char CHR ''[''"
    by (simp add: is_base64_char_def is_alphanumeric_def is_digit_def)
  moreover assume "env_ok env" "CHR ''['' \<in> set (base64_encode env d)"
  ultimately show False by (auto simp: env_ok_def list_all_iff)
qed

lemma continue_basic_flat:
  assumes "ok_response (Response_CommandContinuationRequest (Continue_Basic b))"
  shows "flat (CommandContinuationRequest_encode env (Continue_Basic b)) =
    (case ccrb_code b of
       None \<Rightarrow> ''+ '' @ text_inner (ccrb_text b) @ crlf
     | Some c \<Rightarrow> ''+ ['' @ flat (Code_encode env c) @ ''] '' @ text_inner (ccrb_text b) @ crlf)"
proof (cases "ccrb_code b")
  case None
  then show ?thesis by (simp add: Text_encode_def write_all_seq)
next
  case (Some c)
  with assms have c: "emits (Code_encode env c)" by (intro code_encoder.ok_emits) simp
  have "writes (each [write_all ''+ ['', Code_encode env c, write_all ''] '', Text_encode (ccrb_text b),
        write_all crlf])
    (''+ ['' @ flat (Code_encode env c) @ ''] '' @ text_inner (ccrb_text b) @ crlf @ [])"
    unfolding Text_encode_def by (intro writes_Cons writes_Nil writes_write emits_writes c)
  from writes_flat [OF this] Some show ?thesis by simp
qed


section \<open>A text that announces a literal\<close>


section \<open>Concrete messages\<close>

text \<open>An environment whose base64 is hexadecimal in letters, so that it can be decoded.\<close>

definition demo_base64 :: "bytes \<Rightarrow> bytes" where
  "demo_base64 bs = concat (map (\<lambda>b. [char_of (65 + of_char b div (16::nat)), char_of (65 + of_char b mod (16::nat))]) bs)"

fun demo_decode :: "bytes \<Rightarrow> bytes option" where
  "demo_decode [] = Some []"
| "demo_decode (h # l # cs) =
     map_option (\<lambda>bs. char_of ((of_char h - 65) * 16 + (of_char l - 65 :: nat)) # bs) (demo_decode cs)"
| "demo_decode _ = None"

definition demo_env :: Env where
  "demo_env = \<lparr>base64_encode = demo_base64, format_date = \<lambda>_. ''1-Jan-2024'',
     format_datetime = \<lambda>_. ''1-Jan-2024 00:00:00 +0000'', hash_order = \<lambda>xs. xs\<rparr>"

lemma demo_nibble: "(n :: nat) < 16 \<Longrightarrow> of_char (char_of (65 + n) :: char) = 65 + n"
  by (simp add: of_char_of)

lemma demo_decode_base64: "demo_decode (demo_base64 d) = Some d"
proof (induction d)
  case (Cons b d)
  have b: "of_char b div (16::nat) < 16" using nat_of_char_less_256 [of b] by linarith
  have "of_char b div (16::nat) * 16 + of_char b mod 16 = of_char b" by simp
  with Cons b show ?case by (simp add: demo_base64_def demo_nibble)
qed (simp add: demo_base64_def)

lemma demo_env_ok: "env_ok demo_env"
proof -
  have "is_base64_char (char_of (65 + n))" if "n < 16" for n :: nat
    using that by (simp add: is_base64_char_def is_alphanumeric_def demo_nibble)
  moreover have "of_char b div (16::nat) < 16" for b :: char
    using nat_of_char_less_256 [of b] by linarith
  ultimately have "list_all is_base64_char (demo_base64 bs)" for bs
    by (auto simp: demo_base64_def list_all_iff)
  then show ?thesis
    by (simp add: env_ok_def demo_env_def is_date_char_def is_alphanumeric_def is_digit_def)
qed

text \<open>A login whose password is a literal with a line break, and the end of an \<open>IDLE\<close>.\<close>

definition demo_login :: Command where
  "demo_login = \<lparr>cmd_tag = Tag ''A1'', cmd_body = Command_Login (AString_Atom (AtomExt ''u''))
     (Secret (AString_String (IString_Literal \<lparr>data = ''x'' @ crlf, mode = Sync\<rparr>)))\<rparr>"

lemma demo_login_ok: "ok_command demo_login"
  by (simp add: demo_login_def ok_command_def valid_defs indicator_defs is_tag_char_def)

lemma demo_login_fragments:
  "encode_message (Command_encode demo_env) demo_login =
     [Fragment_Line (''A1 LOGIN u {3}'' @ crlf), Fragment_Literal (''x'' @ crlf) Sync, Fragment_Line crlf]"
proof -
  have "length (''x'' @ crlf) = 3" "dec 3 = ''3''" by (simp, code_simp)
  then show ?thesis
    by (simp add: demo_login_def encode_message_def Command_encode_def Tag_encode_def
        AtomExt_encode_def Literal_encode_def write_all_def push_line_def push_literal_def
        into_items_def EncodeContext_new_def del: length_append list.size)
qed

definition demo_client :: "ClientMessage list" where
  "demo_client = [Client_Command demo_login, Client_IdleDone IdleDone]"

definition demo_chunks :: "bytes list" where
  "demo_chunks = [''A1 LOG'', ''IN u {3}'' @ crlf @ ''x'', crlf @ crlf @ ''DO'', ''NE'' @ crlf]"

lemma demo_client_message:
  "encode_message (client_encode demo_env) (Client_Command demo_login) =
     encode_message (Command_encode demo_env) demo_login"
  "encode_message (client_encode demo_env) (Client_IdleDone IdleDone) = [Fragment_Line (''DONE'' @ crlf)]"
  by (simp_all add: encode_message_def IdleDone_encode_def write_all_def into_items_def
      EncodeContext_new_def)

lemma demo_client_wire: "concat demo_chunks = wire (client_encode demo_env) demo_client"
  by (simp add: demo_chunks_def wire_def demo_client_def demo_client_message demo_login_fragments dump_def)

lemma demo_client_sent:
  "sent (client_encode demo_env) demo_client =
     [(Line 0 16 (Some \<lparr>ann_mode = Sync, ann_length = 3\<rparr>) CrLf, ''A1 LOGIN u {3}'' @ crlf),
      (Lit 16 19, ''x'' @ crlf), (Line 19 21 None CrLf, crlf), (Line 0 6 None CrLf, ''DONE'' @ crlf)]"
  unfolding sent_def demo_client_def list.map demo_client_message demo_login_fragments by code_simp


lemma command_on_the_wire_witness:
  "\<exists>r. dump (encode_message (Command_encode demo_env) demo_login) = ''A1 LOGIN'' @ r \<and> (r = crlf \<or> hd r = sp)"
  using command_on_the_wire [OF demo_env_ok demo_login_ok] by (simp add: demo_login_def)

lemma command_tag_recovered_witness:
  "decode_tag (without_max_message_size\<lparr>message_buffer := ''A1 LOG''\<rparr>) = Some (Tag ''A1'')"
  using command_tag_recovered [OF demo_env_ok demo_login_ok,
      of "without_max_message_size\<lparr>message_buffer := ''A1 LOG''\<rparr>" 6]
  by (simp add: demo_login_fragments dump_def message_bytes_def) (simp add: demo_login_def)

text \<open>A greeting and a search result.\<close>

definition demo_greeting :: Greeting where
  "demo_greeting = \<lparr>gr_kind = Greeting_Ok, gr_code = None, gr_text = Text ''hi''\<rparr>"

lemma demo_greeting_fragments:
  "encode_message (Greeting_encode demo_env) demo_greeting = [Fragment_Line (''* OK hi'' @ crlf)]"
  by (simp add: demo_greeting_def Greeting_encode_def bracketed_code_def Text_encode_def skip_def
      write_all_def encode_message_def into_items_def EncodeContext_new_def)

lemma demo_search_fragments:
  "encode_message (Response_encode demo_env) (Response_Data (Data_Search [] None)) =
     [Fragment_Line (''* SEARCH'' @ crlf)]"
  by (simp add: Data_encode_def numbers_and_modseq_def skip_def write_all_def encode_message_def
      into_items_def EncodeContext_new_def)


lemma SequenceSet_wire_roundtrip_witness:
  "\<exists>t. SequenceSet_from_str (flat (SequenceSet_encode demo_env (SequenceSet [Range (Value 5) (Value 3)]))) = Inr t \<and>
     denote 9 t \<inter> {..9} = denote 9 (SequenceSet [Range (Value 5) (Value 3)]) \<inter> {..9}"
  using SequenceSet_wire_roundtrip [of "SequenceSet [Range (Value 5) (Value 3)]" demo_env 9]
  by (auto simp: wf_sequence_set_def small_set_def visits_all_def U32_MAX_def demo_env_def)


end
