(* ===== verification/Imap_Build.thy ===== *)
theory Imap_Build
  imports Imap_Wire
begin

text \<open>
  The constructors of commands and responses: \<open>impl CommandBody\<close>, \<open>Command::new\<close> and the error
  enums in \<open>command.rs\<close>; \<open>Greeting\<close>, \<open>Status\<close>, \<open>Data\<close>, \<open>Code\<close> and
  \<open>CommandContinuationRequest\<close> in \<open>response.rs\<close>; the constructors of the extensions.

  A generic argument \<open>T: TryInto<A>\<close> is a value and its conversion, a function into a result; a
  generic argument \<open>T: Into<A>\<close> is the converted value. The bytes that applications pass are
  converted by the \<open>try_from\<close> functions of the components.
\<close>

type_synonym ('a, 'e, 'b) try_into = "'a \<Rightarrow> ('e, 'b) result"

section \<open>Commands\<close>

datatype ('u, 'p) LoginError = LoginError_Username 'u | LoginError_Password 'p

datatype ('f, 't) RenameError = RenameError_From 'f | RenameError_To 't

datatype ('r, 'm) ListError = ListError_Reference 'r | ListError_Mailbox 'm

datatype ('m, 'd) AppendError = AppendError_Mailbox 'm | AppendError_Data 'd

datatype ('s, 'm) CopyError = CopyError_Sequence 's | CopyError_Mailbox 'm

datatype ('s, 'm) MoveError = MoveError_Sequence 's | MoveError_Mailbox 'm

datatype ('r, 's) SetQuotaError = SetQuotaError_Root 'r | SetQuotaError_QuotaSet 's

definition Command_new ::
  "('t, 'e, Tag) try_into \<Rightarrow> 't \<Rightarrow> CommandBody \<Rightarrow> ('e, Command) result" where
  "Command_new to_tag tag body =
     res_bind (to_tag tag) (\<lambda>tag. Inr \<lparr>cmd_tag = tag, cmd_body = body\<rparr>)"

definition Command_name :: "Command \<Rightarrow> bytes" where
  "Command_name c = CommandBody_name (cmd_body c)"

definition CommandBody_tag ::
  "('t, 'e, Tag) try_into \<Rightarrow> CommandBody \<Rightarrow> 't \<Rightarrow> ('e, Command) result" where
  "CommandBody_tag to_tag body tag =
     res_bind (to_tag tag) (\<lambda>tag. Inr \<lparr>cmd_tag = tag, cmd_body = body\<rparr>)"

definition CommandBody_authenticate :: "AuthMechanism \<Rightarrow> CommandBody" where
  "CommandBody_authenticate mechanism = Command_Authenticate mechanism None"

definition CommandBody_authenticate_with_ir :: "AuthMechanism \<Rightarrow> bytes \<Rightarrow> CommandBody" where
  "CommandBody_authenticate_with_ir mechanism initial_response =
     Command_Authenticate mechanism (Some (Secret initial_response))"

definition CommandBody_login ::
  "('u, 'ue, AString) try_into \<Rightarrow> ('p, 'pe, AString) try_into \<Rightarrow> 'u \<Rightarrow> 'p \<Rightarrow>
     (('ue, 'pe) LoginError, CommandBody) result" where
  "CommandBody_login to_u to_p username password =
     res_bind (map_err LoginError_Username (to_u username)) (\<lambda>username.
     res_bind (map_err LoginError_Password (to_p password)) (\<lambda>password.
       Inr (Command_Login username (Secret password))))"

definition CommandBody_select :: "('m, 'e, Mailbox) try_into \<Rightarrow> 'm \<Rightarrow> ('e, CommandBody) result" where
  "CommandBody_select to_m mailbox = res_bind (to_m mailbox) (\<lambda>mailbox. Inr (Command_Select mailbox []))"

definition CommandBody_examine :: "('m, 'e, Mailbox) try_into \<Rightarrow> 'm \<Rightarrow> ('e, CommandBody) result" where
  "CommandBody_examine to_m mailbox = res_bind (to_m mailbox) (\<lambda>mailbox. Inr (Command_Examine mailbox []))"

definition CommandBody_create :: "('m, 'e, Mailbox) try_into \<Rightarrow> 'm \<Rightarrow> ('e, CommandBody) result" where
  "CommandBody_create to_m mailbox = res_bind (to_m mailbox) (\<lambda>mailbox. Inr (Command_Create mailbox))"

definition CommandBody_delete :: "('m, 'e, Mailbox) try_into \<Rightarrow> 'm \<Rightarrow> ('e, CommandBody) result" where
  "CommandBody_delete to_m mailbox = res_bind (to_m mailbox) (\<lambda>mailbox. Inr (Command_Delete mailbox))"

definition CommandBody_rename ::
  "('f, 'fe, Mailbox) try_into \<Rightarrow> ('t, 'te, Mailbox) try_into \<Rightarrow> 'f \<Rightarrow> 't \<Rightarrow>
     (('fe, 'te) RenameError, CommandBody) result" where
  "CommandBody_rename to_f to_t mailbox new_mailbox =
     res_bind (map_err RenameError_From (to_f mailbox)) (\<lambda>mailbox.
     res_bind (map_err RenameError_To (to_t new_mailbox)) (\<lambda>new_mailbox.
       Inr (Command_Rename mailbox new_mailbox)))"

definition CommandBody_subscribe :: "('m, 'e, Mailbox) try_into \<Rightarrow> 'm \<Rightarrow> ('e, CommandBody) result" where
  "CommandBody_subscribe to_m mailbox =
     res_bind (to_m mailbox) (\<lambda>mailbox. Inr (Command_Subscribe mailbox))"

definition CommandBody_unsubscribe :: "('m, 'e, Mailbox) try_into \<Rightarrow> 'm \<Rightarrow> ('e, CommandBody) result" where
  "CommandBody_unsubscribe to_m mailbox =
     res_bind (to_m mailbox) (\<lambda>mailbox. Inr (Command_Unsubscribe mailbox))"

definition CommandBody_list ::
  "('r, 're, Mailbox) try_into \<Rightarrow> ('m, 'me, ListMailbox) try_into \<Rightarrow> 'r \<Rightarrow> 'm \<Rightarrow>
     (('re, 'me) ListError, CommandBody) result" where
  "CommandBody_list to_r to_m reference mailbox_wildcard =
     res_bind (map_err ListError_Reference (to_r reference)) (\<lambda>reference.
     res_bind (map_err ListError_Mailbox (to_m mailbox_wildcard)) (\<lambda>mailbox_wildcard.
       Inr (Command_List reference mailbox_wildcard)))"

definition CommandBody_lsub ::
  "('r, 're, Mailbox) try_into \<Rightarrow> ('m, 'me, ListMailbox) try_into \<Rightarrow> 'r \<Rightarrow> 'm \<Rightarrow>
     (('re, 'me) ListError, CommandBody) result" where
  "CommandBody_lsub to_r to_m reference mailbox_wildcard =
     res_bind (map_err ListError_Reference (to_r reference)) (\<lambda>reference.
     res_bind (map_err ListError_Mailbox (to_m mailbox_wildcard)) (\<lambda>mailbox_wildcard.
       Inr (Command_Lsub reference mailbox_wildcard)))"

definition CommandBody_status ::
  "('m, 'e, Mailbox) try_into \<Rightarrow> 'm \<Rightarrow> StatusDataItemName list \<Rightarrow> ('e, CommandBody) result" where
  "CommandBody_status to_m mailbox item_names =
     res_bind (to_m mailbox) (\<lambda>mailbox. Inr (Command_Status mailbox item_names))"

definition CommandBody_append ::
  "('m, 'me, Mailbox) try_into \<Rightarrow> ('d, 'de, Literal) try_into \<Rightarrow>
     'm \<Rightarrow> Flag list \<Rightarrow> DateTime option \<Rightarrow> 'd \<Rightarrow> (('me, 'de) AppendError, CommandBody) result" where
  "CommandBody_append to_m to_d mailbox flags date message =
     res_bind (map_err AppendError_Mailbox (to_m mailbox)) (\<lambda>mailbox.
     res_bind (map_err AppendError_Data (to_d message)) (\<lambda>message.
       Inr (Command_Append mailbox flags date (LL_Literal message))))"

definition CommandBody_search :: "Charset option \<Rightarrow> SearchKey list \<Rightarrow> bool \<Rightarrow> CommandBody" where
  "CommandBody_search charset criteria uid = Command_Search charset criteria uid"

definition CommandBody_fetch ::
  "('s, 'e, SequenceSet) try_into \<Rightarrow> 's \<Rightarrow> MacroOrMessageDataItemNames \<Rightarrow> bool \<Rightarrow>
     ('e, CommandBody) result" where
  "CommandBody_fetch to_s sequence_set macro_or_item_names uid =
     res_bind (to_s sequence_set) (\<lambda>sequence_set.
       Inr (Command_Fetch sequence_set macro_or_item_names uid []))"

definition CommandBody_store ::
  "('s, 'e, SequenceSet) try_into \<Rightarrow> 's \<Rightarrow> StoreType \<Rightarrow> StoreResponse \<Rightarrow> Flag list \<Rightarrow> bool \<Rightarrow>
     ('e, CommandBody) result" where
  "CommandBody_store to_s sequence_set kind response flags uid =
     res_bind (to_s sequence_set) (\<lambda>sequence_set.
       Inr (Command_Store sequence_set kind response flags uid []))"

definition CommandBody_copy ::
  "('s, 'se, SequenceSet) try_into \<Rightarrow> ('m, 'me, Mailbox) try_into \<Rightarrow> 's \<Rightarrow> 'm \<Rightarrow> bool \<Rightarrow>
     (('se, 'me) CopyError, CommandBody) result" where
  "CommandBody_copy to_s to_m sequence_set mailbox uid =
     res_bind (map_err CopyError_Sequence (to_s sequence_set)) (\<lambda>sequence_set.
     res_bind (map_err CopyError_Mailbox (to_m mailbox)) (\<lambda>mailbox.
       Inr (Command_Copy sequence_set mailbox uid)))"

definition CommandBody_move ::
  "('s, 'se, SequenceSet) try_into \<Rightarrow> ('m, 'me, Mailbox) try_into \<Rightarrow> 's \<Rightarrow> 'm \<Rightarrow> bool \<Rightarrow>
     (('se, 'me) MoveError, CommandBody) result" where
  "CommandBody_move to_s to_m sequence_set mailbox uid =
     res_bind (map_err MoveError_Sequence (to_s sequence_set)) (\<lambda>sequence_set.
     res_bind (map_err MoveError_Mailbox (to_m mailbox)) (\<lambda>mailbox.
       Inr (Command_Move sequence_set mailbox uid)))"

definition CommandBody_compress :: "CompressionAlgorithm \<Rightarrow> CommandBody" where
  "CommandBody_compress algorithm = Command_Compress algorithm"

definition CommandBody_unselect :: CommandBody where
  "CommandBody_unselect = Command_Unselect"

definition CommandBody_namespace :: CommandBody where
  "CommandBody_namespace = Command_Namespace"

definition CommandBody_enable ::
  "('c, 'e, CapabilityEnable VecN) try_into \<Rightarrow> 'c \<Rightarrow> ('e, CommandBody) result" where
  "CommandBody_enable to_c capabilities =
     res_bind (to_c capabilities) (\<lambda>capabilities. Inr (Command_Enable capabilities))"

definition CommandBody_get_quota :: "('a, 'e, AString) try_into \<Rightarrow> 'a \<Rightarrow> ('e, CommandBody) result" where
  "CommandBody_get_quota to_a root = res_bind (to_a root) (\<lambda>root. Inr (Command_GetQuota root))"

definition CommandBody_get_quota_root :: "('m, 'e, Mailbox) try_into \<Rightarrow> 'm \<Rightarrow> ('e, CommandBody) result" where
  "CommandBody_get_quota_root to_m mailbox =
     res_bind (to_m mailbox) (\<lambda>mailbox. Inr (Command_GetQuotaRoot mailbox))"

definition CommandBody_set_quota ::
  "('r, 're, AString) try_into \<Rightarrow> ('s, 'se, QuotaSet list) try_into \<Rightarrow> 'r \<Rightarrow> 's \<Rightarrow>
     (('re, 'se) SetQuotaError, CommandBody) result" where
  "CommandBody_set_quota to_r to_s root quotas =
     res_bind (map_err SetQuotaError_Root (to_r root)) (\<lambda>root.
     res_bind (map_err SetQuotaError_QuotaSet (to_s quotas)) (\<lambda>quotas.
       Inr (Command_SetQuota root quotas)))"

section \<open>Responses\<close>

datatype ('s, 'i) FetchError = FetchError_SeqOrUid 's | FetchError_InvalidItems 'i

datatype ('r, 'q) QuotaError = QuotaError_Root 'r | QuotaError_Quotas 'q

datatype ('m, 'r) QuotaRootError = QuotaRootError_Mailbox 'm | QuotaRootError_Roots 'r

datatype ('p, 'o, 's) NamespaceError =
  NamespaceError_Personal 'p | NamespaceError_Other 'o | NamespaceError_Shared 's

text \<open>The standard library's \<open>TryFromIntError\<close>, and \<open>NonZeroU32::try_from\<close>.\<close>

datatype TryFromIntError = TryFromIntError

definition NonZeroU32_try_from :: "u32 \<Rightarrow> (TryFromIntError, u32) result" where
  "NonZeroU32_try_from n = (if n = 0 then Inl TryFromIntError else Inr n)"

definition Greeting_new :: "GreetingKind \<Rightarrow> Code option \<Rightarrow> bytes \<Rightarrow> (ValidationError, Greeting) result" where
  "Greeting_new kind c text =
     res_bind (Text_try_from text) (\<lambda>text. Inr \<lparr>gr_kind = kind, gr_code = c, gr_text = text\<rparr>)"

definition Greeting_ok :: "Code option \<Rightarrow> bytes \<Rightarrow> (ValidationError, Greeting) result" where
  "Greeting_ok c text =
     res_bind (Text_try_from text) (\<lambda>text. Inr \<lparr>gr_kind = Greeting_Ok, gr_code = c, gr_text = text\<rparr>)"

definition Greeting_preauth :: "Code option \<Rightarrow> bytes \<Rightarrow> (ValidationError, Greeting) result" where
  "Greeting_preauth c text =
     res_bind (Text_try_from text) (\<lambda>text. Inr \<lparr>gr_kind = Greeting_PreAuth, gr_code = c, gr_text = text\<rparr>)"

definition Greeting_bye :: "Code option \<Rightarrow> bytes \<Rightarrow> (ValidationError, Greeting) result" where
  "Greeting_bye c text =
     res_bind (Text_try_from text) (\<lambda>text. Inr \<lparr>gr_kind = Greeting_Bye, gr_code = c, gr_text = text\<rparr>)"

definition Status_ok :: "Tag option \<Rightarrow> Code option \<Rightarrow> bytes \<Rightarrow> (ValidationError, Status) result" where
  "Status_ok tag c text = Status_new tag Status_Ok c text"

definition Status_no :: "Tag option \<Rightarrow> Code option \<Rightarrow> bytes \<Rightarrow> (ValidationError, Status) result" where
  "Status_no tag c text = Status_new tag Status_No c text"

definition Status_bad :: "Tag option \<Rightarrow> Code option \<Rightarrow> bytes \<Rightarrow> (ValidationError, Status) result" where
  "Status_bad tag c text = Status_new tag Status_Bad c text"

definition Status_bye :: "Code option \<Rightarrow> bytes \<Rightarrow> (ValidationError, Status) result" where
  "Status_bye c text =
     res_bind (Text_try_from text) (\<lambda>text. Inr (Status_Bye \<lparr>bye_code = c, bye_text = text\<rparr>))"

fun Status_tag :: "Status \<Rightarrow> Tag option" where
  "Status_tag (Status_Tagged t) = Some (tagged_tag t)"
| "Status_tag _ = None"

fun Status_code :: "Status \<Rightarrow> Code option" where
  "Status_code (Status_Untagged b) = sb_code b"
| "Status_code (Status_Tagged t) = sb_code (tagged_body t)"
| "Status_code (Status_Bye b) = bye_code b"

fun Status_text :: "Status \<Rightarrow> Text" where
  "Status_text (Status_Untagged b) = sb_text b"
| "Status_text (Status_Tagged t) = sb_text (tagged_body t)"
| "Status_text (Status_Bye b) = bye_text b"

definition Data_capability :: "('c, 'e, Capability VecN) try_into \<Rightarrow> 'c \<Rightarrow> ('e, Data) result" where
  "Data_capability to_c caps = res_bind (to_c caps) (\<lambda>caps. Inr (Data_Capability caps))"

definition Data_expunge :: "u32 \<Rightarrow> (TryFromIntError, Data) result" where
  "Data_expunge seq = res_bind (NonZeroU32_try_from seq) (\<lambda>seq. Inr (Data_Expunge seq))"

definition Data_fetch ::
  "('s, 'se, u32) try_into \<Rightarrow> ('i, 'ie, MessageDataItem VecN) try_into \<Rightarrow> 's \<Rightarrow> 'i \<Rightarrow>
     (('se, 'ie) FetchError, Data) result" where
  "Data_fetch to_s to_i seq items =
     res_bind (map_err FetchError_SeqOrUid (to_s seq)) (\<lambda>seq.
     res_bind (map_err FetchError_InvalidItems (to_i items)) (\<lambda>items.
       Inr (Data_Fetch seq items)))"

definition Data_quota ::
  "('r, 're, AString) try_into \<Rightarrow> ('q, 'qe, QuotaGet VecN) try_into \<Rightarrow> 'r \<Rightarrow> 'q \<Rightarrow>
     (('re, 'qe) QuotaError, Data) result" where
  "Data_quota to_r to_q root quotas =
     res_bind (map_err QuotaError_Root (to_r root)) (\<lambda>root.
     res_bind (map_err QuotaError_Quotas (to_q quotas)) (\<lambda>quotas. Inr (Data_Quota root quotas)))"

definition Data_quota_root ::
  "('m, 'me, Mailbox) try_into \<Rightarrow> ('r, 're, AString list) try_into \<Rightarrow> 'm \<Rightarrow> 'r \<Rightarrow>
     (('me, 're) QuotaRootError, Data) result" where
  "Data_quota_root to_m to_r mailbox roots =
     res_bind (map_err QuotaRootError_Mailbox (to_m mailbox)) (\<lambda>mailbox.
     res_bind (map_err QuotaRootError_Roots (to_r roots)) (\<lambda>roots. Inr (Data_QuotaRoot mailbox roots)))"

definition Data_namespace ::
  "('p, 'pe, Namespace list) try_into \<Rightarrow> ('o, 'oe, Namespace list) try_into \<Rightarrow>
     ('s, 'se, Namespace list) try_into \<Rightarrow> 'p \<Rightarrow> 'o \<Rightarrow> 's \<Rightarrow> (('pe, 'oe, 'se) NamespaceError, Data) result" where
  "Data_namespace to_p to_o to_s personal other shared =
     res_bind (map_err NamespaceError_Personal (to_p personal)) (\<lambda>personal.
     res_bind (map_err NamespaceError_Other (to_o other)) (\<lambda>other.
     res_bind (map_err NamespaceError_Shared (to_s shared)) (\<lambda>shared.
       Inr (Data_Namespace personal other shared))))"

definition Namespace_new :: "IString \<Rightarrow> QuotedChar option \<Rightarrow> Namespace" where
  "Namespace_new prefix delimiter = \<lparr>ns_prefix = prefix, ns_delimiter = delimiter, ns_extensions = []\<rparr>"

definition QuotaGet_new :: "Resource \<Rightarrow> u64 \<Rightarrow> u64 \<Rightarrow> QuotaGet" where
  "QuotaGet_new resource usage limit = \<lparr>qg_resource = resource, qg_usage = usage, qg_limit = limit\<rparr>"

definition QuotaSet_new :: "Resource \<Rightarrow> u64 \<Rightarrow> QuotaSet" where
  "QuotaSet_new resource limit = \<lparr>qs_resource = resource, qs_limit = limit\<rparr>"

definition CommandContinuationRequest_basic ::
  "(bytes \<Rightarrow> bytes option) \<Rightarrow> Code option \<Rightarrow> bytes \<Rightarrow>
     (ValidationError ContinueError, CommandContinuationRequest) result" where
  "CommandContinuationRequest_basic base64_decode c text =
     res_bind (CommandContinuationRequestBasic_new base64_decode c text) (\<lambda>basic. Inr (Continue_Basic basic))"

definition CommandContinuationRequest_base64 :: "bytes \<Rightarrow> CommandContinuationRequest" where
  "CommandContinuationRequest_base64 d = Continue_Base64 d"

definition Code_badcharset :: "Charset list \<Rightarrow> Code" where
  "Code_badcharset allowed = Code_BadCharset allowed"

definition Code_capability :: "('c, 'e, Capability VecN) try_into \<Rightarrow> 'c \<Rightarrow> ('e, Code) result" where
  "Code_capability to_c caps = res_bind (to_c caps) (\<lambda>caps. Inr (Code_Capability caps))"

definition Code_permanentflags :: "FlagPerm list \<Rightarrow> Code" where
  "Code_permanentflags flags = Code_PermanentFlags flags"

definition Code_uidnext :: "u32 \<Rightarrow> (TryFromIntError, Code) result" where
  "Code_uidnext uidnext = res_bind (NonZeroU32_try_from uidnext) (\<lambda>n. Inr (Code_UidNext n))"

definition Code_uidvalidity :: "u32 \<Rightarrow> (TryFromIntError, Code) result" where
  "Code_uidvalidity uidnext = res_bind (NonZeroU32_try_from uidnext) (\<lambda>n. Inr (Code_UidValidity n))"

definition Code_unseen :: "u32 \<Rightarrow> (TryFromIntError, Code) result" where
  "Code_unseen uidnext = res_bind (NonZeroU32_try_from uidnext) (\<lambda>n. Inr (Code_Unseen n))"

section \<open>What the constructors make of an application's bytes\<close>

definition Mailbox_try_from_str :: "bytes \<Rightarrow> (ValidationError, Mailbox) result" where
  "Mailbox_try_from_str s = map_ok the (Mailbox_try_from s)"

text \<open>The first NUL byte, as the error that reports it; the representation of a string without one.\<close>

definition nul_error :: "bytes \<Rightarrow> ValidationError option" where
  "nul_error s = map_option (\<lambda>i. ValidationError (InvalidByteAt (CHR 0x00) i)) (position (\<lambda>b. b = CHR 0x00) s)"

definition string_of :: "bytes \<Rightarrow> AString" where
  "string_of s =
     (if atom_ext.valid s then AString_Atom (AtomExt s)
      else if quoted.valid s then AString_String (IString_Quoted (Quoted s))
      else AString_String (IString_Literal \<lparr>data = s, mode = Sync\<rparr>))"

definition mailbox_of :: "bytes \<Rightarrow> Mailbox" where
  "mailbox_of s =
     (if to_ascii_lowercase s = ''inbox'' then Inbox else Mailbox_Other (MailboxOther (string_of s)))"

lemma char8_nul: "is_char8 c \<longleftrightarrow> c \<noteq> CHR 0x00"
  using of_char_eq_iff [of c "CHR 0x00"] by (auto simp: is_char8_def)

lemma literal_nul: "literal.valid s \<longleftrightarrow> nul_error s = None"
  by (auto simp: literal.valid_def nul_error_def list_all_iff char8_nul)

lemma Literal_nul: "Literal_try_from s =
    (case nul_error s of Some e \<Rightarrow> Inl e | None \<Rightarrow> Inr \<lparr>data = s, mode = Sync\<rparr>)"
proof -
  have "(\<lambda>b. \<not> is_char8 b) = (\<lambda>b. b = CHR 0x00)" by (simp add: char8_nul)
  moreover have "s ! i = CHR 0x00" if "position (\<lambda>b. b = CHR 0x00) s = Some i" for i
    using that by (simp add: position_Some_iff)
  ultimately show ?thesis
    by (simp add: Literal_try_from_def Literal_validate_def nul_error_def del: position_None_iff split: option.split)
qed

lemma AString_nul: "AString_try_from s =
    (case nul_error s of Some e \<Rightarrow> Inl e | None \<Rightarrow> Inr (string_of s))"
proof (cases "nul_error s")
  case None
  then show ?thesis by (simp add: AString_try_from_iff literal_nul string_of_def)
next
  case (Some e)
  then have "Literal_try_from s = Inl e" by (simp add: Literal_nul)
  with Some show ?thesis by (simp add: AString_try_from_Inl literal.try_from_err)
qed

lemma string_of_ref: "AString_as_ref (string_of s) = s"
  by (simp add: string_of_def)

lemma Mailbox_nul: "Mailbox_try_from_str s =
    (case nul_error s of Some e \<Rightarrow> Inl e | None \<Rightarrow> Inr (mailbox_of s))"
  by (auto simp: Mailbox_try_from_str_def Mailbox_try_from_def AString_nul Mailbox_from_total
      mailbox_of_def string_of_ref eq_ignore_ascii_case_def ascii_lower_def split: option.splits)

text \<open>C32: logging in fails for exactly one reason, a NUL byte, and the error tells which argument
  has one and where; the username is looked at first. Otherwise the command carries both strings
  unchanged, each in its cheapest representation.\<close>

theorem login_spec:
  "CommandBody_login AString_try_from AString_try_from u p =
    (case nul_error u of Some e \<Rightarrow> Inl (LoginError_Username e)
     | None \<Rightarrow> (case nul_error p of Some e \<Rightarrow> Inl (LoginError_Password e)
     | None \<Rightarrow> Inr (Command_Login (string_of u) (Secret (string_of p)))))
   \<and> AString_as_ref (string_of u) = u"
  by (simp add: CommandBody_login_def AString_nul string_of_ref split: option.splits)

text \<open>C33: appending a message fails for exactly one reason, a NUL byte, in the mailbox name first
  and then in the message; otherwise the message travels as a synchronizing literal with exactly
  the given bytes, to \<open>INBOX\<close> for every spelling of that name.\<close>

theorem append_spec:
  "CommandBody_append Mailbox_try_from_str Literal_try_from m flags date d =
    (case nul_error m of Some e \<Rightarrow> Inl (AppendError_Mailbox e)
     | None \<Rightarrow> (case nul_error d of Some e \<Rightarrow> Inl (AppendError_Data e)
     | None \<Rightarrow> Inr (Command_Append (mailbox_of m) flags date (LL_Literal \<lparr>data = d, mode = Sync\<rparr>))))"
  by (simp add: CommandBody_append_def Mailbox_nul Literal_nul split: option.splits)

section \<open>Applications cannot break the framing\<close>

text \<open>
  What a constructor relies on about the conversion of its argument: values accepted from a
  \<open>fine\<close> argument satisfy what the encoder needs. The only limit on byte strings is that an
  announcement can carry their length.
\<close>

locale conversion =
  fixes conv :: "('a, 'e, 'b) try_into"
    and fine :: "'a \<Rightarrow> bool"
    and ok :: "'b \<Rightarrow> bool"
  assumes conv_ok: "conv x = Inr y \<Longrightarrow> fine x \<Longrightarrow> ok y"
abbreviation short :: "bytes \<Rightarrow> bool" where
  "short s \<equiv> length s < 2 ^ 32"

lemma string_of_ok: "nul_error s = None \<Longrightarrow> short s \<Longrightarrow> ok_astring (string_of s)"
  by (simp add: string_of_def literal_nul)

interpretation tag_conversion: conversion Tag_try_from "\<lambda>_. True" wf_tag
  by unfold_locales (simp add: tag.try_from_iff)

interpretation astring_conversion: conversion AString_try_from short ok_astring
  by unfold_locales (auto simp: AString_nul string_of_ok split: option.splits)

interpretation literal_conversion: conversion Literal_try_from short "\<lambda>l. wf_literal l \<and> short (data l)"
  by unfold_locales (auto simp: literal.try_from_iff)

interpretation mailbox_conversion: conversion Mailbox_try_from_str short ok_mailbox
  by unfold_locales (auto simp: Mailbox_nul mailbox_of_def string_of_ok split: option.splits)

interpretation list_mailbox_conversion: conversion ListMailbox_try_from short ok_list_mailbox
  by unfold_locales
    (auto simp: ListMailbox_try_from_def IString_try_from_iff quoted.try_from_iff list_char.try_from_iff
      split: if_splits sum.splits)

interpretation charset_conversion: conversion Charset_try_from "\<lambda>_. True" wf_charset
  by unfold_locales (auto simp: Charset_try_from_def atom.try_from_iff quoted.try_from_iff split: sum.splits)

interpretation flag_conversion: conversion Flag_try_from "\<lambda>_. True" wf_flag
  by unfold_locales (simp add: Flag_parse_display)

interpretation auth_conversion: conversion AuthMechanism_try_from "\<lambda>_. True" wf_auth
proof
  fix s m
  assume "AuthMechanism_try_from s = Inr m"
  then have "atom.valid s" "m = AuthMechanism_from (Atom s)"
    by (auto simp: AuthMechanism_try_from_def atom.try_from_iff)
  with auth_names.from_wf [of "Atom s"] show "wf_auth m" by (simp add: readable_auth_def)
qed

text \<open>
  The commands an application builds with the constructors from byte strings that nobody has
  checked: user names, passwords, mailbox names, messages, flags, tags.
\<close>

inductive built :: "CommandBody \<Rightarrow> bool" where
  plain: "body \<in> {Command_Capability, Command_Noop, Command_Logout, Command_StartTLS, Command_Check,
      Command_Close, Command_Expunge, Command_Idle, CommandBody_unselect, CommandBody_namespace} \<Longrightarrow> built body"
| authenticate: "AuthMechanism_try_from s = Inr m \<Longrightarrow> built (CommandBody_authenticate m)"
| authenticate_ir: "AuthMechanism_try_from s = Inr m \<Longrightarrow> built (CommandBody_authenticate_with_ir m ir)"
| login: "short u \<Longrightarrow> short p \<Longrightarrow>
    CommandBody_login AString_try_from AString_try_from u p = Inr body \<Longrightarrow> built body"
| mailbox: "short m \<Longrightarrow> f \<in> {CommandBody_select, CommandBody_examine, CommandBody_create,
      CommandBody_delete, CommandBody_subscribe, CommandBody_unsubscribe, CommandBody_get_quota_root} \<Longrightarrow>
    f Mailbox_try_from_str m = Inr body \<Longrightarrow> built body"
| rename: "short m \<Longrightarrow> short n \<Longrightarrow>
    CommandBody_rename Mailbox_try_from_str Mailbox_try_from_str m n = Inr body \<Longrightarrow> built body"
| listing: "short r \<Longrightarrow> short w \<Longrightarrow> f \<in> {CommandBody_list, CommandBody_lsub} \<Longrightarrow>
    f Mailbox_try_from_str ListMailbox_try_from r w = Inr body \<Longrightarrow> built body"
| status: "short m \<Longrightarrow> CommandBody_status Mailbox_try_from_str m items = Inr body \<Longrightarrow> built body"
| append: "short m \<Longrightarrow> short d \<Longrightarrow> \<forall>f\<in>set flags. \<exists>s. Flag_try_from s = Inr f \<Longrightarrow>
    CommandBody_append Mailbox_try_from_str Literal_try_from m flags date d = Inr body \<Longrightarrow> built body"
| search: "Charset_try_from s = Inr c \<Longrightarrow> list_all ok_search ks \<Longrightarrow> built (CommandBody_search (Some c) ks uid)"
| search_default: "list_all ok_search ks \<Longrightarrow> built (CommandBody_search None ks uid)"
| fetch: "ok_items items \<Longrightarrow> CommandBody_fetch SequenceSet_from_str s items uid = Inr body \<Longrightarrow> built body"
| store: "\<forall>f\<in>set flags. \<exists>s. Flag_try_from s = Inr f \<Longrightarrow>
    CommandBody_store SequenceSet_from_str s kind response flags uid = Inr body \<Longrightarrow> built body"
| copy: "short m \<Longrightarrow> CommandBody_copy SequenceSet_from_str Mailbox_try_from_str s m uid = Inr body \<Longrightarrow> built body"
| move: "short m \<Longrightarrow> CommandBody_move SequenceSet_from_str Mailbox_try_from_str s m uid = Inr body \<Longrightarrow> built body"
| compress: "built (CommandBody_compress a)"
| get_quota: "short r \<Longrightarrow> CommandBody_get_quota AString_try_from r = Inr body \<Longrightarrow> built body"

lemma flags_ok: "\<forall>f\<in>set flags. \<exists>s. Flag_try_from s = Inr f \<Longrightarrow> list_all wf_flag flags"
  using flag_conversion.conv_ok by (auto simp: list_all_iff)

lemmas command_constructors =
  CommandBody_authenticate_def CommandBody_authenticate_with_ir_def CommandBody_login_def
  CommandBody_select_def CommandBody_examine_def CommandBody_create_def CommandBody_delete_def
  CommandBody_rename_def CommandBody_subscribe_def CommandBody_unsubscribe_def CommandBody_list_def
  CommandBody_lsub_def CommandBody_status_def CommandBody_append_def CommandBody_search_def
  CommandBody_fetch_def CommandBody_store_def CommandBody_copy_def CommandBody_move_def
  CommandBody_compress_def CommandBody_unselect_def CommandBody_namespace_def
  CommandBody_get_quota_def CommandBody_get_quota_root_def

lemmas conversions_ok =
  astring_conversion.conv_ok [simplified] literal_conversion.conv_ok [simplified]
  mailbox_conversion.conv_ok [simplified] list_mailbox_conversion.conv_ok [simplified]
  charset_conversion.conv_ok [simplified] auth_conversion.conv_ok [simplified]
  flag_conversion.conv_ok [simplified] tag_conversion.conv_ok [simplified]

lemma built_ok: "built body \<Longrightarrow> ok_command_body body"
  by (induction rule: built.induct)
    (auto simp: command_constructors flags_ok, auto dest: conversions_ok)

definition built_command :: "Command \<Rightarrow> bool" where
  "built_command c \<longleftrightarrow> (\<exists>t body. built body \<and> Command_new Tag_try_from t body = Inr c)"

lemma built_command_ok: "built_command c \<Longrightarrow> ok_command c"
  by (auto simp: built_command_def Command_new_def ok_command_def built_ok dest: conversions_ok)


section \<open>Strings on the wire\<close>

lemma literal_writes: "writes (Literal_encode l)
    (''{'' @ dec (length (data l)) @ (case mode l of Sync \<Rightarrow> ''}'' | NonSync \<Rightarrow> ''+}'') @ crlf @ data l)"
  by (cases "mode l") (simp_all add: Literal_encode_def writes_def into_items_def write_all_def
      push_line_def push_literal_def dump_def)

lemma string_flat: "flat (AString_encode (string_of s)) =
    (if atom_ext.valid s then s
     else if quoted.valid s then dquote # escape_quoted s @ [dquote]
     else ''{'' @ dec (length s) @ ''}'' @ crlf @ s)"
  using writes_flat [OF literal_writes [of "\<lparr>data = s, mode = Sync\<rparr>"]]
  by (simp add: string_of_def AtomExt_encode_def Quoted_encode_def)

lemma atom_ext_start: "atom_ext.valid s \<Longrightarrow> s \<noteq> [] \<and> hd s \<noteq> dquote \<and> hd s \<noteq> CHR ''{''"
  by (cases s) (auto simp: atom_ext.valid_def indicator_defs)

lemma string_flat_start: "flat (AString_encode (string_of s)) \<noteq> [] \<and> hd (flat (AString_encode (string_of s))) =
    (if atom_ext.valid s then hd s else if quoted.valid s then dquote else CHR ''{'')"
  by (simp add: string_flat atom_ext_start)

lemma escape_inject: "escape_quoted s = escape_quoted t \<longleftrightarrow> s = t"
  by (metis unescape_escape)

lemma literal_inject:
  assumes "dec m @ CHR ''}'' # crlf @ s = dec n @ CHR ''}'' # crlf @ t"
  shows "s = t"
proof -
  have "takeWhile (\<lambda>c. c \<noteq> CHR ''}'') (dec k @ CHR ''}'' # u) = dec k" for k u
    by (subst takeWhile_append2) (auto dest!: dec_digits_set simp: is_digit_def)
  from this [of m "crlf @ s"] this [of n "crlf @ t"] assms have "m = n" by simp
  with assms show ?thesis by simp
qed

text \<open>C25: the encoding of strings is unambiguous. Two byte strings that an application passes as
  the same argument are written in the same bytes only if they are equal, although each of them
  may be written as an atom, a quoted string or a literal.\<close>

theorem AString_wire_injective:
  assumes "AString_try_from s = Inr a" "AString_try_from t = Inr b"
  shows "flat (AString_encode a) = flat (AString_encode b) \<longleftrightarrow> s = t"
proof -
  have ab: "a = string_of s" "b = string_of t"
    using assms by (simp_all add: AString_nul split: option.splits)
  have "s = t" if eq: "flat (AString_encode (string_of s)) = flat (AString_encode (string_of t))"
  proof -
    have start: "(if atom_ext.valid s then hd s else if quoted.valid s then dquote else CHR ''{'') =
        (if atom_ext.valid t then hd t else if quoted.valid t then dquote else CHR ''{'')"
      using string_flat_start [of s] string_flat_start [of t] unfolding eq by (simp only:)
    show ?thesis
      using start eq atom_ext_start [of s] atom_ext_start [of t]
        literal_inject [of "length s" s "length t" t]
      by (simp add: string_flat escape_inject split: if_splits)
  qed
  then show ?thesis unfolding ab by blast
qed

lemma AString_wire_injective_witness:
  "flat (AString_encode (AString_String (IString_Quoted (Quoted ''a b'')))) \<noteq>
   flat (AString_encode (AString_Atom (AtomExt ''ab'')))"
proof -
  have "AString_try_from ''a b'' = Inr (AString_String (IString_Quoted (Quoted ''a b'')))"
    "AString_try_from ''ab'' = Inr (AString_Atom (AtomExt ''ab''))"
    by code_simp+
  from AString_wire_injective [OF this] show ?thesis by simp
qed

section \<open>Statuses on the wire\<close>

lemma format_status_flat:
  assumes "pred_option ok_code c"
  shows "flat (format_status env tag status c text) =
    (case tag of None \<Rightarrow> ''*'' | Some t \<Rightarrow> tag_inner t) @ sp # status @ sp #
    (case c of None \<Rightarrow> [] | Some c \<Rightarrow> ''['' @ flat (Code_encode env c) @ ''] '') @ text_inner text @ crlf"
proof -
  have tag: "(case tag of Some tag \<Rightarrow> Tag_encode tag | None \<Rightarrow> write_all ''*'') =
      write_all (case tag of None \<Rightarrow> ''*'' | Some t \<Rightarrow> tag_inner t)"
    by (cases tag) (simp_all add: Tag_encode_def)
  have "writes (bracketed_code env c)
      (case c of None \<Rightarrow> [] | Some c \<Rightarrow> ''['' @ flat (Code_encode env c) @ ''] '' @ [])"
  proof (cases c)
    case None
    show ?thesis unfolding None by (simp add: bracketed_code_def writes_def skip_def)
  next
    case (Some d)
    with assms have "emits (Code_encode env d)" by (intro code_encoder.ok_emits) simp
    then show ?thesis
      unfolding Some bracketed_code_def option.case
      by (intro writes_Cons writes_Nil writes_write emits_writes)
  qed
  then have "writes (format_status env tag status c text)
      ((case tag of None \<Rightarrow> ''*'' | Some t \<Rightarrow> tag_inner t) @ '' '' @ status @ '' '' @
       (case c of None \<Rightarrow> [] | Some c \<Rightarrow> ''['' @ flat (Code_encode env c) @ ''] '' @ []) @
       text_inner text @ crlf @ [])"
    unfolding format_status_def tag Text_encode_def by (intro writes_Cons writes_Nil writes_write)
  from writes_flat [OF this] show ?thesis by (cases c) simp_all
qed

lemma status_new_flat:
  assumes "Status_new tag kind c s = Inr st" "pred_option ok_code c"
  shows "dump (encode_message (Status_encode env) st) =
    (case tag of None \<Rightarrow> ''*'' | Some t \<Rightarrow> tag_inner t) @ sp # StatusKind_name kind @ sp #
    (case c of None \<Rightarrow> [] | Some c \<Rightarrow> ''['' @ flat (Code_encode env c) @ ''] '') @ s @ crlf"
  using assms
  by (auto simp: encode_message_flat format_status_flat text_string.try_from_iff Let_def split: option.splits)

text \<open>C27: a status keeps what it was made of. The accessors return the tag, the code and the text
  that the constructor was given, and the encoder writes exactly the status line of the protocol:
  tag or asterisk, kind, code in brackets, text, line break.\<close>

theorem status_constructed:
  assumes "Status_new tag kind c s = Inr st" "pred_option ok_code c"
  shows "Status_tag st = tag \<and> Status_code st = c \<and> text_inner (Status_text st) = s \<and>
    dump (encode_message (Status_encode env) st) =
      (case tag of None \<Rightarrow> ''*'' | Some t \<Rightarrow> tag_inner t) @ sp # StatusKind_name kind @ sp #
      (case c of None \<Rightarrow> [] | Some c \<Rightarrow> ''['' @ flat (Code_encode env c) @ ''] '') @ s @ crlf"
proof -
  have "Status_tag st = tag \<and> Status_code st = c \<and> text_inner (Status_text st) = s"
    using assms(1) by (auto simp: Let_def text_string.try_from_iff split: option.splits)
  then show ?thesis using status_new_flat [OF assms, of env] by blast
qed

lemma status_constructed_witness:
  "dump (encode_message (Status_encode demo_env)
     (Status_Tagged \<lparr>tagged_tag = Tag ''A1'',
        tagged_body = \<lparr>sb_kind = Status_Ok, sb_code = Some Code_ReadWrite, sb_text = Text ''done''\<rparr>\<rparr>)) =
   ''A1 OK [READ-WRITE] done'' @ crlf"
proof -
  have "Text_try_from ''done'' = Inr (Text ''done'')" by code_simp
  then show ?thesis
    using status_constructed [of "Some (Tag ''A1'')" Status_Ok "Some Code_ReadWrite" "''done''"
        "Status_Tagged \<lparr>tagged_tag = Tag ''A1'',
          tagged_body = \<lparr>sb_kind = Status_Ok, sb_code = Some Code_ReadWrite, sb_text = Text ''done''\<rparr>\<rparr>" demo_env]
    by simp
qed

text \<open>A client finds the command that a status answers: \<open>decode_tag\<close> on a received status
  line returns exactly the tag the server answered with, and nothing for an untagged one.\<close>

theorem status_tag_recovered:
  assumes "Status_new tag kind c s = Inr st" "pred_option ok_code c" "pred_option wf_tag tag"
    "message_bytes f = dump (encode_message (Status_encode env) st)"
  shows "decode_tag f = Status_tag st"
proof -
  have "Status_tag st = tag" using assms(1) by (auto simp: Let_def split: option.splits)
  moreover have "decode_tag f = tag"
  proof (cases tag)
    case None
    have "Tag_try_from ''*'' = Inl (ValidationError (InvalidByteAt CHR ''*'' 0))" by code_simp
    with None show ?thesis
      using assms(4) by (simp add: status_new_flat [OF assms(1,2)] decode_tag_def message_bytes_def parse_tag_def)
  next
    case (Some t)
    with assms show ?thesis
      by (simp add: status_new_flat [OF assms(1,2)] decode_tag_def message_bytes_def parse_tag_valid)
  qed
  ultimately show ?thesis by simp
qed

lemma demo_status_new:
  "Status_new (Some (Tag ''A1'')) Status_Ok None ''done'' =
     Inr (Status_Tagged \<lparr>tagged_tag = Tag ''A1'',
       tagged_body = \<lparr>sb_kind = Status_Ok, sb_code = None, sb_text = Text ''done''\<rparr>\<rparr>)"
  by code_simp

lemma status_tag_recovered_witness:
  "decode_tag (without_max_message_size\<lparr>message_buffer := ''A1 OK done'' @ crlf\<rparr>) = Some (Tag ''A1'')"
proof -
  have "wf_tag (Tag ''A1'')" by (simp add: valid_defs indicator_defs is_tag_char_def)
  then show ?thesis
    using status_tag_recovered [OF demo_status_new _ _ trans [OF _ status_new_flat [OF demo_status_new, symmetric]],
        of "without_max_message_size\<lparr>message_buffer := ''A1 OK done'' @ crlf\<rparr>" demo_env]
    by (simp add: message_bytes_def)
qed

text \<open>A login whose password tries to start another command.\<close>

lemma demo_built: "built_command demo_login"
proof -
  have "CommandBody_login AString_try_from AString_try_from ''u'' (''x'' @ crlf) = Inr (cmd_body demo_login)"
    "Tag_try_from ''A1'' = Inr (Tag ''A1'')"
    by code_simp+
  then have "built (cmd_body demo_login) \<and> Command_new Tag_try_from ''A1'' (cmd_body demo_login) = Inr demo_login"
    by (auto simp: Command_new_def demo_login_def intro!: built.login)
  then show ?thesis unfolding built_command_def by blast
qed


end
