(* ===== verification/Imap_Recovery.thy ===== *)
theory Imap_Recovery
  imports Imap_Build
begin

text \<open>
  Getting back on track: what \<open>poison_message\<close> and \<open>skip_message\<close> of \<open>fragmentizer.rs\<close> do to a
  stream, for a server that refuses a message or the literal that a line of it announces.
\<close>

section \<open>Poisoning\<close>

lemma progress_poison:
  "progress (poison_message f) =
     map_option (\<lambda>(f', r). (if parser f = None then f' else poison_message f', r)) (progress f)"
  by (cases "parser f")
    (auto simp: progress_def poison_message_def start_next_message_def dequeue_parsed_bytes_def Let_def
      split: prod.splits option.splits)

lemma poisoned [simp]: "message_poisoned (poison_message f)"
  by (simp add: poison_message_def)

lemma fragment_bytes_poison: "fragment_bytes (poison_message f) = fragment_bytes f"
  by (simp add: fun_eq_iff fragment_bytes_def poison_message_def Let_def)

lemma drain_poison: "map_option fst (drain (poison_message f)) = map_option fst (drain f)"
proof (induction f rule: drain.induct)
  case (1 f)
  show ?case
  proof (cases "parser f = None")
    case True
    then have "progress (poison_message f) = progress f"
      by (simp add: progress_poison case_prod_unfold option.map_ident)
    then show ?thesis by (simp add: drain.simps [of f] drain.simps [of "poison_message f"])
  next
    case False
    show ?thesis
    proof (cases "progress f")
      case None
      then show ?thesis
        by (simp add: drain.simps [of f] drain.simps [of "poison_message f"] progress_poison)
    next
      case (Some p)
      then obtain f' r where p: "progress f = Some (f', r)" by (cases p) simp
      from False obtain q where "parser f = Some q" by blast
      with p have q: "progress (poison_message f) = Some (poison_message f', r)"
        by (simp add: progress_poison)
      show ?thesis
      proof (cases r)
        case None
        with p q show ?thesis by (simp add: drain_None)
      next
        case (Some fr)
        with "1.IH" p have IH: "map_option fst (drain (poison_message f')) = map_option fst (drain f')"
          by blast
        then show ?thesis
          using drain_Some [OF p [unfolded Some]] drain_Some [OF q [unfolded Some]]
          by (cases "drain f'"; cases "drain (poison_message f')") (auto simp: fragment_bytes_poison)
      qed
    qed
  qed
qed

text \<open>C13: poisoning refuses a message without losing track of the stream. The fragments that are
  reported from then on are exactly those that would have been reported otherwise; the message
  stays poisoned until the next one begins, and while it is, no decoder sees it.\<close>

theorem poison_message_spec:
  "map_option fst (drain (enqueue_bytes bs (poison_message f))) = map_option fst (drain (enqueue_bytes bs f)) \<and>
   (case progress (poison_message f) of None \<Rightarrow> progress f = None
    | Some (f', r) \<Rightarrow> parser f = None \<or> message_poisoned f') \<and>
   (\<exists>e. decode_message decode (poison_message f) = Inl e \<and>
      e \<in> {MessagePoisoned (Secret (message_bytes f)), MessageTooLong (Secret (message_bytes f))})"
proof -
  have "enqueue_bytes bs (poison_message f) = poison_message (enqueue_bytes bs f)"
    by (simp add: enqueue_bytes_def poison_message_def)
  then have "map_option fst (drain (enqueue_bytes bs (poison_message f))) = map_option fst (drain (enqueue_bytes bs f))"
    by (simp add: drain_poison)
  moreover have "case progress (poison_message f) of None \<Rightarrow> progress f = None
    | Some (f', r) \<Rightarrow> parser f = None \<or> message_poisoned f'"
    by (cases "progress f") (auto simp: progress_poison split: if_splits)
  moreover have "\<exists>e. decode_message decode (poison_message f) = Inl e \<and>
      e \<in> {MessagePoisoned (Secret (message_bytes f)), MessageTooLong (Secret (message_bytes f))}"
    by (auto simp: decode_message_def poison_message_def message_bytes_def)
  ultimately show ?thesis by blast
qed

section \<open>Refusing a literal\<close>

lemma progress_no_literal:
  "n \<noteq> 0 \<Longrightarrow> progress (awaiting (Expect_Literal n) g []) = Some (awaiting (Expect_Literal n) g [], None)"
  by (simp add: progress_def awaiting_def LiteralParser_parse_def LiteralParser_new_def
      dequeue_parsed_bytes_def without_max_message_size_def unat_gt_0)

lemma skip_awaiting: "skip_message (awaiting e g []) = without_max_message_size"
  by (simp add: skip_message_def awaiting_def without_max_message_size_def)

lemma longer_prefix:
  assumes "xs @ ys = us @ vs" "length us < length xs"
  obtains ws where "xs = us @ ws" "ws @ ys = vs" "ws \<noteq> []"
proof -
  from assms(1) obtain ws where "xs = us @ ws \<and> ws @ ys = vs \<or> us = xs @ ws"
    unfolding append_eq_append_conv2 by blast
  with assms(2) that [of ws] show thesis by auto
qed

lemma announcing_line:
  assumes "well_framed (Fragment_Line l # Fragment_Literal d m # fs)" "d \<noteq> []"
  shows "drain (enqueue_bytes l without_max_message_size) =
    Some ([(Line 0 (length l) (Some \<lparr>ann_mode = m, ann_length = of_nat (length d)\<rparr>) CrLf, l)],
      awaiting (Expect_Literal (of_nat (length d))) l [])"
proof -
  from assms(1) obtain s where l: "l = s @ announcement m (length d) @ crlf" and "quiet s"
    and d: "length d < 2 ^ 32" by auto
  then have "framed [Line 0 (length l) (Some \<lparr>ann_mode = m, ann_length = of_nat (length d)\<rparr>) CrLf] l
      (Expect_Literal (of_nat (length d)))"
    using framed_line [OF framed_start is_line_announced [of s "length d" m]] by simp
  moreover have "of_nat (length d) \<noteq> (0 :: u32)"
    using d assms(2) unat_of_nat_u32 [of "length d"] by fastforce
  ultimately show ?thesis
    using drain_framed [of _ l _ "[]"] drain_None [OF progress_no_literal]
    by (simp add: without_max_awaiting enqueue_awaiting sliced_def frag_slice_def)
qed



end
