(* ===== verification/Imap_Decode.thy ===== *)
theory Imap_Decode
  imports Imap_Build
begin

text \<open>
  The decoder where it is not written in parser combinators: \<open>codec/decode.rs\<close> with its errors and
  the \<open>Decoder\<close> implementations, \<open>command\<close> in \<open>command.rs\<close>, \<open>literal\<close> in \<open>core.rs\<close>,
  \<open>literal8\<close> in \<open>extensions/binary.rs\<close>, \<open>zone\<close> and \<open>date_time\<close> in \<open>datetime.rs\<close>.

  The parsers that these functions build from the combinators of \<open>nom\<close> and run are arguments, so is
  \<open>nom\<close>'s \<open>take\<close> and the calendar of \<open>chrono\<close>. Only the type \<open>nom::Err\<close> is spelled out, as the source
  matches on its variants; the payload of \<open>Incomplete\<close>, which the source ignores, is left out.
\<close>

section \<open>Errors and results of parsers\<close>

datatype 'e nom_err = Nom_Incomplete | Nom_Error 'e | Nom_Failure 'e

datatype 'k IMAPErrorKind =
    Kind_Literal "Tag option" u32 LiteralMode
  | Kind_BadNumber
  | Kind_BadBase64
  | Kind_BadUtf8
  | Kind_BadDateTime
  | Kind_LiteralContainsNull
  | Kind_RecursionLimitExceeded
  | Kind_Nom 'k

record 'k IMAPParseError =
  pe_input :: bytes
  pe_kind :: "'k IMAPErrorKind"

type_synonym ('k, 'o) IMAPResult = "('k IMAPParseError nom_err, bytes \<times> 'o) result"

definition from_error_kind :: "bytes \<Rightarrow> 'k \<Rightarrow> 'k IMAPParseError" where
  "from_error_kind input kind = \<lparr>pe_input = input, pe_kind = Kind_Nom kind\<rparr>"

definition append_error :: "bytes \<Rightarrow> 'k \<Rightarrow> 'k IMAPParseError \<Rightarrow> 'k IMAPParseError" where
  "append_error input kind other = \<lparr>pe_input = input, pe_kind = Kind_Nom kind\<rparr>"

datatype ExternalError = ParseIntError | IntRangeError | Base64DecodeError | Utf8Error

fun from_external_error :: "bytes \<Rightarrow> ExternalError \<Rightarrow> 'k IMAPParseError" where
  "from_external_error input ParseIntError = \<lparr>pe_input = input, pe_kind = Kind_BadNumber\<rparr>"
| "from_external_error input IntRangeError = \<lparr>pe_input = input, pe_kind = Kind_BadNumber\<rparr>"
| "from_external_error input Base64DecodeError = \<lparr>pe_input = input, pe_kind = Kind_BadBase64\<rparr>"
| "from_external_error input Utf8Error = \<lparr>pe_input = input, pe_kind = Kind_BadUtf8\<rparr>"

section \<open>Literals\<close>

text \<open>\<open>header\<close> is the combined parser of the announcement and its line break, \<open>take\<close> is \<open>nom\<close>'s.\<close>

definition literal_parser ::
  "(bytes \<Rightarrow> ('k, u32 \<times> LiteralMode) IMAPResult) \<Rightarrow> (u32 \<Rightarrow> bytes \<Rightarrow> ('k, bytes) IMAPResult) \<Rightarrow>
     bytes \<Rightarrow> ('k, Literal) IMAPResult" where
  "literal_parser header take_bytes input =
     res_bind (header input) (\<lambda>(rest, len, m).
       if rest = [] then
         Inl (Nom_Failure \<lparr>pe_input = input, pe_kind = Kind_Literal None len m\<rparr>)
       else
         res_bind (take_bytes len rest) (\<lambda>(rest, d).
           case Literal_try_from d of
             Inr l \<Rightarrow> Inr (rest, set_mode m l)
           | Inl _ \<Rightarrow> Inl (Nom_Failure \<lparr>pe_input = input, pe_kind = Kind_LiteralContainsNull\<rparr>)))"

definition literal8_parser ::
  "(bytes \<Rightarrow> ('k, u32 \<times> LiteralMode) IMAPResult) \<Rightarrow> (u32 \<Rightarrow> bytes \<Rightarrow> ('k, bytes) IMAPResult) \<Rightarrow>
     bytes \<Rightarrow> ('k, Literal8) IMAPResult" where
  "literal8_parser header take_bytes input =
     res_bind (header input) (\<lambda>(rest, len, m).
       if rest = [] then
         Inl (Nom_Failure \<lparr>pe_input = input, pe_kind = Kind_Literal None len m\<rparr>)
       else
         res_bind (take_bytes len rest) (\<lambda>(rest, d).
           Inr (rest, \<lparr>data8 = d, mode8 = m\<rparr>)))"

section \<open>Commands\<close>

text \<open>\<open>parser_tag\<close> reads the tag and the space after it, \<open>parser_body\<close> the rest of the line.\<close>

definition fill_in_tag :: "Tag \<Rightarrow> 'k IMAPParseError \<Rightarrow> 'k IMAPParseError" where
  "fill_in_tag obtained_tag err =
     (case pe_kind err of
        Kind_Literal _ len m \<Rightarrow> err\<lparr>pe_kind := Kind_Literal (Some obtained_tag) len m\<rparr>
      | _ \<Rightarrow> err)"

definition command_parser ::
  "(bytes \<Rightarrow> ('k, Tag) IMAPResult) \<Rightarrow> (bytes \<Rightarrow> ('k, CommandBody) IMAPResult) \<Rightarrow>
     bytes \<Rightarrow> ('k, Command) IMAPResult" where
  "command_parser parser_tag parser_body input =
     res_bind (parser_tag input) (\<lambda>(rest, obtained_tag).
       case parser_body rest of
         Inr (rest, body) \<Rightarrow> Inr (rest, \<lparr>cmd_tag = obtained_tag, cmd_body = body\<rparr>)
       | Inl Nom_Incomplete \<Rightarrow> Inl Nom_Incomplete
       | Inl (Nom_Error err) \<Rightarrow> Inl (Nom_Error (fill_in_tag obtained_tag err))
       | Inl (Nom_Failure err) \<Rightarrow> Inl (Nom_Failure (fill_in_tag obtained_tag err)))"

section \<open>The decoders\<close>

datatype GreetingDecodeError = GreetingDecode_Incomplete | GreetingDecode_Failed

datatype CommandDecodeError =
    CommandDecode_Incomplete
  | CommandDecode_LiteralFound Tag u32 LiteralMode
  | CommandDecode_Failed

datatype AuthenticateDataDecodeError = AuthenticateDataDecode_Incomplete | AuthenticateDataDecode_Failed

datatype ResponseDecodeError =
  ResponseDecode_Incomplete | ResponseDecode_LiteralFound u32 | ResponseDecode_Failed

datatype IdleDoneDecodeError = IdleDoneDecode_Incomplete | IdleDoneDecode_Failed

definition GreetingCodec_decode ::
  "(bytes \<Rightarrow> ('k, Greeting) IMAPResult) \<Rightarrow> bytes \<Rightarrow> (GreetingDecodeError, bytes \<times> Greeting) result" where
  "GreetingCodec_decode greeting input =
     (case greeting input of
        Inr (rem, grt) \<Rightarrow> Inr (rem, grt)
      | Inl Nom_Incomplete \<Rightarrow> Inl GreetingDecode_Incomplete
      | Inl (Nom_Failure _) \<Rightarrow> Inl GreetingDecode_Failed
      | Inl (Nom_Error _) \<Rightarrow> Inl GreetingDecode_Failed)"

text \<open>\<open>None\<close> is the panic of \<open>tag.expect(..)\<close>.\<close>

definition CommandCodec_decode ::
  "(bytes \<Rightarrow> ('k, Command) IMAPResult) \<Rightarrow> bytes \<Rightarrow> (CommandDecodeError, bytes \<times> Command) result option" where
  "CommandCodec_decode command input =
     (case command input of
        Inr (rem, cmd) \<Rightarrow> Some (Inr (rem, cmd))
      | Inl Nom_Incomplete \<Rightarrow> Some (Inl CommandDecode_Incomplete)
      | Inl (Nom_Failure error) \<Rightarrow>
          (case pe_kind error of
             Kind_Literal tag len m \<Rightarrow>
               (case tag of
                  Some tag \<Rightarrow> Some (Inl (CommandDecode_LiteralFound tag len m))
                | None \<Rightarrow> None)
           | _ \<Rightarrow> Some (Inl CommandDecode_Failed))
      | Inl (Nom_Error _) \<Rightarrow> Some (Inl CommandDecode_Failed))"

definition response_error :: "'k IMAPParseError \<Rightarrow> ResponseDecodeError" where
  "response_error error =
     (case pe_kind error of
        Kind_Literal _ len _ \<Rightarrow> ResponseDecode_LiteralFound len
      | _ \<Rightarrow> ResponseDecode_Failed)"

definition ResponseCodec_decode ::
  "(bytes \<Rightarrow> ('k, Response) IMAPResult) \<Rightarrow> bytes \<Rightarrow> (ResponseDecodeError, bytes \<times> Response) result" where
  "ResponseCodec_decode response input =
     (case response input of
        Inr (rem, rsp) \<Rightarrow> Inr (rem, rsp)
      | Inl Nom_Incomplete \<Rightarrow> Inl ResponseDecode_Incomplete
      | Inl (Nom_Error error) \<Rightarrow> Inl (response_error error)
      | Inl (Nom_Failure error) \<Rightarrow> Inl (response_error error))"

definition AuthenticateDataCodec_decode ::
  "(bytes \<Rightarrow> ('k, AuthenticateData) IMAPResult) \<Rightarrow> bytes \<Rightarrow>
     (AuthenticateDataDecodeError, bytes \<times> AuthenticateData) result" where
  "AuthenticateDataCodec_decode authenticate_data input =
     (case authenticate_data input of
        Inr (rem, rsp) \<Rightarrow> Inr (rem, rsp)
      | Inl Nom_Incomplete \<Rightarrow> Inl AuthenticateDataDecode_Incomplete
      | Inl (Nom_Failure _) \<Rightarrow> Inl AuthenticateDataDecode_Failed
      | Inl (Nom_Error _) \<Rightarrow> Inl AuthenticateDataDecode_Failed)"

definition IdleDoneCodec_decode ::
  "(bytes \<Rightarrow> ('k, IdleDone) IMAPResult) \<Rightarrow> bytes \<Rightarrow> (IdleDoneDecodeError, bytes \<times> IdleDone) result" where
  "IdleDoneCodec_decode idle_done input =
     (case idle_done input of
        Inr (rem, rsp) \<Rightarrow> Inr (rem, rsp)
      | Inl Nom_Incomplete \<Rightarrow> Inl IdleDoneDecode_Incomplete
      | Inl (Nom_Failure _) \<Rightarrow> Inl IdleDoneDecode_Failed
      | Inl (Nom_Error _) \<Rightarrow> Inl IdleDoneDecode_Failed)"

section \<open>Date-times\<close>

text \<open>What the source uses of \<open>chrono\<close>: types by their accessors and five functions.\<close>

record ChronoNaiveTime =
  nt_hour :: nat
  nt_minute :: nat
  nt_second :: nat
  nt_subsec_nanos :: nat

datatype FixedOffset = FixedOffset (local_minus_utc: int)

datatype LocalResult = LocalResult_Single ChronoDateTime | LocalResult_Other

record Chrono =
  from_ymd_opt :: "int \<Rightarrow> nat \<Rightarrow> nat \<Rightarrow> ChronoNaiveDate option"
  from_hms_opt :: "nat \<Rightarrow> nat \<Rightarrow> nat \<Rightarrow> ChronoNaiveTime option"
  east_opt :: "int \<Rightarrow> FixedOffset option"
  west_opt :: "int \<Rightarrow> FixedOffset option"
  from_local_datetime :: "FixedOffset \<Rightarrow> ChronoNaiveDate \<Rightarrow> ChronoNaiveTime \<Rightarrow> LocalResult"

definition time_parser ::
  "Chrono \<Rightarrow> (bytes \<Rightarrow> ('k, nat \<times> nat \<times> nat) IMAPResult) \<Rightarrow>
     bytes \<Rightarrow> ('k, ChronoNaiveTime option) IMAPResult" where
  "time_parser ch parts input =
     res_bind (parts input) (\<lambda>(rest, h, m, s). Inr (rest, from_hms_opt ch h m s))"

text \<open>\<open>None\<close> is \<open>unreachable!()\<close>.\<close>

definition zone_parser ::
  "Chrono \<Rightarrow> (bytes \<Rightarrow> ('k, char \<times> nat \<times> nat) IMAPResult) \<Rightarrow>
     bytes \<Rightarrow> ('k, FixedOffset option) IMAPResult option" where
  "zone_parser ch parts input =
     (case parts input of
        Inl e \<Rightarrow> Some (Inl e)
      | Inr (rest, sign, hh, mm) \<Rightarrow>
          let offset = 3600 * int hh + 60 * int mm
          in if sign = CHR ''+'' then Some (Inr (rest, east_opt ch offset))
             else if sign = CHR ''-'' then Some (Inr (rest, west_opt ch offset))
             else None)"

definition date_time_parser ::
  "Chrono \<Rightarrow>
     (bytes \<Rightarrow> ('k, nat \<times> nat \<times> nat \<times> ChronoNaiveTime option \<times> FixedOffset option) IMAPResult) \<Rightarrow>
     bytes \<Rightarrow> ('k, DateTime) IMAPResult" where
  "date_time_parser ch parts input =
     res_bind (parts input) (\<lambda>(rest, d, m, y, time, zone).
       let date = from_ymd_opt ch (int y) m d;
           bad = Inl (Nom_Failure \<lparr>pe_input = input, pe_kind = Kind_BadDateTime\<rparr>)
       in case (date, time, zone) of
            (Some date, Some time, Some zone) \<Rightarrow>
              (case from_local_datetime ch zone date time of
                 LocalResult_Single datetime \<Rightarrow> Inr (rest, DateTime datetime)
               | LocalResult_Other \<Rightarrow> bad)
          | _ \<Rightarrow> bad)"

definition date_text_parser ::
  "Chrono \<Rightarrow> (bytes \<Rightarrow> ('k, nat \<times> nat \<times> nat) IMAPResult) \<Rightarrow>
     bytes \<Rightarrow> ('k, NaiveDate option) IMAPResult" where
  "date_text_parser ch parts input =
     res_bind (parts input) (\<lambda>(rest, d, m, y).
       Inr (rest, map_option NaiveDate (from_ymd_opt ch (int y) m d)))"

section \<open>Literals are read as they were written\<close>

text \<open>What \<open>nom\<close> documents of its streaming \<open>take\<close>: that many bytes, or a request for more.\<close>

definition takes_bytes :: "(u32 \<Rightarrow> bytes \<Rightarrow> ('k, bytes) IMAPResult) \<Rightarrow> bool" where
  "takes_bytes take_bytes \<longleftrightarrow>
     (\<forall>n s. take_bytes n s = (if length s < unat n then Inl Nom_Incomplete
       else Inr (drop (unat n) s, take (unat n) s)))"

lemma nul_error_None: "nul_error s = None \<longleftrightarrow> CHR 0x00 \<notin> set s"
  by (auto simp: nul_error_def)

lemma Literal_try_from_cases:
  "Literal_try_from s = (if CHR 0x00 \<in> set s then Inl (the (nul_error s)) else Inr \<lparr>data = s, mode = Sync\<rparr>)"
  by (cases "nul_error s") (simp_all add: Literal_nul flip: nul_error_None)

lemma literal_parser_cases:
  assumes "takes_bytes take_bytes" "header input = Inr (rest, len, m)"
  shows "literal_parser header take_bytes input =
    (if rest = [] then Inl (Nom_Failure \<lparr>pe_input = input, pe_kind = Kind_Literal None len m\<rparr>)
     else if length rest < unat len then Inl Nom_Incomplete
     else if CHR 0x00 \<in> set (take (unat len) rest) then
       Inl (Nom_Failure \<lparr>pe_input = input, pe_kind = Kind_LiteralContainsNull\<rparr>)
     else Inr (drop (unat len) rest, \<lparr>data = take (unat len) rest, mode = m\<rparr>))"
  using assms by (simp add: literal_parser_def takes_bytes_def set_mode_def Literal_try_from_cases)

text \<open>Reading back a literal. Whatever follows an encoded literal in the buffer, the parser
  returns the literal that was encoded, with its mode, and stops right after its last byte;
  of the parser of the announcement it is only assumed that it reads what the encoder announces.\<close>

theorem literal_roundtrip:
  assumes "takes_bytes take_bytes" "wf_literal l" "short (data l)" "data l @ rest \<noteq> []"
    "header (flat (Literal_encode l) @ rest) = Inr (data l @ rest, of_nat (length (data l)), mode l)"
  shows "literal_parser header take_bytes (flat (Literal_encode l) @ rest) = Inr (rest, l)"
proof -
  have "unat (of_nat (length (data l)) :: u32) = length (data l)"
    using assms(3) by (simp add: unat_of_nat_u32)
  moreover have "CHR 0x00 \<notin> set (data l)"
    using assms(2) by (auto simp: literal.valid_def list_all_iff char8_nul)
  ultimately show ?thesis
    using literal_parser_cases [of take_bytes header, OF assms(1,5)] assms(4) by simp
qed

section \<open>A decoded literal announcement always has its tag\<close>


section \<open>Decoded date-times are valid\<close>

text \<open>What \<open>chrono\<close> documents: values have the fields they were made of.\<close>

definition chrono_ok :: "Chrono \<Rightarrow> bool" where
  "chrono_ok ch \<longleftrightarrow>
     (\<forall>y m d date. from_ymd_opt ch y m d = Some date \<longrightarrow> nd_year date = y) \<and>
     (\<forall>h m s time. from_hms_opt ch h m s = Some time \<longrightarrow> nt_subsec_nanos time = 0) \<and>
     (\<forall>n zone. east_opt ch n = Some zone \<longrightarrow> local_minus_utc zone = n) \<and>
     (\<forall>n zone. west_opt ch n = Some zone \<longrightarrow> local_minus_utc zone = - n) \<and>
     (\<forall>zone date time dt. from_local_datetime ch zone date time = LocalResult_Single dt \<longrightarrow>
        nd_year dt = nd_year date \<and> dt_subsec_nanos dt = nt_subsec_nanos time \<and>
        dt_local_minus_utc dt = local_minus_utc zone)"

lemma zone_aligned:
  assumes "chrono_ok ch" "zone_parser ch parts input = Some (Inr (rest, Some zone))"
  shows "rust_rem (local_minus_utc zone) 60 = 0"
proof -
  from assms obtain hh mm where "local_minus_utc zone = 60 * (60 * int hh + int mm) \<or>
      local_minus_utc zone = - (60 * (60 * int hh + int mm))"
    by (auto simp: zone_parser_def chrono_ok_def Let_def algebra_simps split: sum.splits if_splits prod.splits)
  then show ?thesis by (auto simp: rust_rem_def)
qed


section \<open>Concrete parsers\<close>

definition demo_take :: "u32 \<Rightarrow> bytes \<Rightarrow> (unit, bytes) IMAPResult" where
  "demo_take n s = (if length s < unat n then Inl Nom_Incomplete
     else Inr (drop (unat n) s, take (unat n) s))"

lemma demo_take_ok: "takes_bytes demo_take"
  by (simp add: takes_bytes_def demo_take_def)

lemma literal_roundtrip_witness:
  "literal_parser (\<lambda>s. Inr (drop 6 s, 2, NonSync)) demo_take (''{2+}'' @ crlf @ ''abc'') =
     Inr (''c'', \<lparr>data = ''ab'', mode = NonSync\<rparr>)"
proof -
  let ?l = "\<lparr>data = ''ab'', mode = NonSync\<rparr>"
  have "dec (Suc (Suc 0)) = ''2''" by code_simp
  then have l: "flat (Literal_encode ?l) @ ''c'' = ''{2+}'' @ crlf @ ''abc''"
    using writes_flat [OF literal_writes [of ?l]] by simp
  moreover have "drop 6 (''{2+}'' @ crlf @ ''abc'') = ''abc''" by code_simp
  moreover have "wf_literal ?l" by (simp add: valid_defs indicator_defs)
  ultimately show ?thesis
    using literal_roundtrip [OF demo_take_ok, of ?l "''c''" "\<lambda>s. Inr (drop 6 s, 2, NonSync)"] by simp
qed

text \<open>A parser of tags that have two bytes, and a body whose literal of five bytes is missing.\<close>

definition demo_tag :: "bytes \<Rightarrow> (unit, Tag) IMAPResult" where
  "demo_tag s = Inr (drop 3 s, Tag (take 2 s))"

definition demo_body :: "bytes \<Rightarrow> (unit, CommandBody) IMAPResult" where
  "demo_body s = Inl (Nom_Failure \<lparr>pe_input = s, pe_kind = Kind_Literal None 5 Sync\<rparr>)"


text \<open>A calendar without checks and the same date-time for every input.\<close>

definition demo_chrono :: Chrono where
  "demo_chrono = \<lparr>from_ymd_opt = \<lambda>y m d. Some \<lparr>nd_year = y, nd_month = m, nd_day = d\<rparr>,
     from_hms_opt = \<lambda>h m s. Some \<lparr>nt_hour = h, nt_minute = m, nt_second = s, nt_subsec_nanos = 0\<rparr>,
     east_opt = \<lambda>n. Some (FixedOffset n), west_opt = \<lambda>n. Some (FixedOffset (- n)),
     from_local_datetime = \<lambda>zone date time. LocalResult_Single
       \<lparr>nd_year = nd_year date, nd_month = nd_month date, nd_day = nd_day date,
        dt_hour = nt_hour time, dt_minute = nt_minute time, dt_second = nt_second time,
        dt_subsec_nanos = nt_subsec_nanos time, dt_local_minus_utc = local_minus_utc zone\<rparr>\<rparr>"

definition demo_datetime :: DateTime where
  "demo_datetime = DateTime \<lparr>nd_year = 1994, nd_month = 2, nd_day = 7, dt_hour = 21, dt_minute = 52,
     dt_second = 25, dt_subsec_nanos = 0, dt_local_minus_utc = - 28800\<rparr>"


end
