(* ===== verification/Imap_Nom.thy ===== *)
theory Imap_Nom
  imports Imap_Decode "HOL-Library.Sublist"
begin

text \<open>
  What the parsers of \<open>imap-codec\<close> rely on about the crates \<open>nom\<close> (its \<open>streaming\<close> parsers and its
  combinators) and \<open>abnf-core\<close>. Their code is not in the repository: every parser and combinator is
  a field of a record that the grammar takes as an argument, one field for each type at which the
  grammar uses it, and the predicates of this theory say what is documented of it. Nothing is said of
  the values of recoverable errors, which the grammar never looks at.
\<close>

section \<open>Parsers\<close>

type_synonym ('k, 'o) imap_parser = "bytes \<Rightarrow> ('k, 'o) IMAPResult"

text \<open>Only \<open>Err::Error\<close> makes a combinator try something else.\<close>

fun recoverable :: "'e nom_err \<Rightarrow> bool" where
  "recoverable (Nom_Error e) = True"
| "recoverable (Nom_Failure e) = False"
| "recoverable Nom_Incomplete = False"

fun is_error :: "('k, 'o) IMAPResult \<Rightarrow> bool" where
  "is_error (Inl e) = recoverable e"
| "is_error (Inr x) = False"

lemma is_error_bind [simp]: "is_error m \<Longrightarrow> is_error (res_bind m f)"
  by (cases m) simp_all

lemma is_error_map_ok [simp]: "is_error (map_ok f m) \<longleftrightarrow> is_error m"
  by (cases m) simp_all

lemma case_result_Inr [simp]:
  "(case m of Inl e \<Rightarrow> Inl (g e) | Inr x \<Rightarrow> Inr (h x)) = Inr y \<longleftrightarrow> (\<exists>x. m = Inr x \<and> y = h x)"
  by (cases m) auto

text \<open>A parser returns a part of its input; it advances if that part is shorter.\<close>

definition rest_ok :: "('k, 'o) imap_parser \<Rightarrow> bool" where
  "rest_ok p \<longleftrightarrow> (\<forall>i r x. p i = Inr (r, x) \<longrightarrow> suffix r i)"

definition advances :: "('k, 'o) imap_parser \<Rightarrow> bool" where
  "advances p \<longleftrightarrow> (\<forall>i r x. p i = Inr (r, x) \<longrightarrow> strict_suffix r i)"

named_theorems rest_rules \<open>what parsers return is a part of their input\<close>

lemma rest_okI: "(\<And>i r x. p i = Inr (r, x) \<Longrightarrow> suffix r i) \<Longrightarrow> rest_ok p"
  by (simp add: rest_ok_def)

lemma rest_okD: "rest_ok p \<Longrightarrow> p i = Inr (r, x) \<Longrightarrow> suffix r i"
  by (simp add: rest_ok_def)

lemma advancesD: "advances p \<Longrightarrow> p i = Inr (r, x) \<Longrightarrow> strict_suffix r i"
  by (simp add: advances_def)

lemma advances_rest [rest_rules]: "advances p \<Longrightarrow> rest_ok p"
  by (auto simp: advances_def rest_ok_def strict_suffix_def)

lemma advances_length: "advances p \<Longrightarrow> p i = Inr (r, x) \<Longrightarrow> length r < length i"
  using advancesD [of p i r x] by (auto simp: strict_suffix_def suffix_def)

section \<open>Bytes\<close>

text \<open>\<open>tag\<close> compares byte by byte, \<open>tag_no_case\<close> without regard to case: the input has the tag, or it
  ends within it, or they differ.\<close>

datatype matching = Found bytes bytes | Partial | Different

fun match_tag :: "(char \<Rightarrow> char) \<Rightarrow> bytes \<Rightarrow> bytes \<Rightarrow> matching" where
  "match_tag fold_case [] i = Found [] i"
| "match_tag fold_case (c # t) [] = Partial"
| "match_tag fold_case (c # t) (d # i) =
     (if fold_case c = fold_case d
      then (case match_tag fold_case t i of Found s r \<Rightarrow> Found (d # s) r | m \<Rightarrow> m)
      else Different)"

definition tag_like :: "(char \<Rightarrow> char) \<Rightarrow> (bytes \<Rightarrow> ('k, bytes) imap_parser) \<Rightarrow> bool" where
  "tag_like fold_case p \<longleftrightarrow>
     (\<forall>t i s r. match_tag fold_case t i = Found s r \<longrightarrow> p t i = Inr (r, s)) \<and>
     (\<forall>t i. match_tag fold_case t i = Partial \<longrightarrow> p t i = Inl Nom_Incomplete) \<and>
     (\<forall>t i. match_tag fold_case t i = Different \<longrightarrow> is_error (p t i))"

abbreviation is_tag :: "(bytes \<Rightarrow> ('k, bytes) imap_parser) \<Rightarrow> bool" where
  "is_tag \<equiv> tag_like (\<lambda>c. c)"

abbreviation is_tag_no_case :: "(bytes \<Rightarrow> ('k, bytes) imap_parser) \<Rightarrow> bool" where
  "is_tag_no_case \<equiv> tag_like ascii_lower"

text \<open>Case-insensitive comparison of bytes, decided on their codes.\<close>

lemma code_ascii_lower: "code (ascii_lower c) = (if 65 \<le> code c \<and> code c \<le> 90 then code c + 32 else code c)"
  by (simp add: ascii_lower_def)

lemma ascii_lower_eq: "ascii_lower c = ascii_lower d \<longleftrightarrow>
    (if 65 \<le> code c \<and> code c \<le> 90 then code c + 32 else code c) =
    (if 65 \<le> code d \<and> code d \<le> 90 then code d + 32 else code d)"
  unfolding code_ascii_lower [symmetric] by simp

lemma match_tag_Found:
  "match_tag g t i = Found s r \<Longrightarrow> i = s @ r \<and> map g s = map g t"
proof (induction t arbitrary: i s)
  case (Cons c t)
  then show ?case by (cases i) (auto split: if_splits matching.splits)
qed simp

lemma match_tag_self [simp]: "match_tag g t (t @ r) = Found t r"
  by (induction t) simp_all

text \<open>One byte of a class: \<open>char\<close>, \<open>one_of\<close>, and \<open>sp\<close> and \<open>dquote\<close> of \<open>abnf-core\<close>.\<close>

definition byte_of :: "(char \<Rightarrow> bool) \<Rightarrow> ('k, char) imap_parser \<Rightarrow> bool" where
  "byte_of P p \<longleftrightarrow> p [] = Inl Nom_Incomplete \<and>
     (\<forall>c i. P c \<longrightarrow> p (c # i) = Inr (i, c)) \<and> (\<forall>c i. \<not> P c \<longrightarrow> is_error (p (c # i)))"

text \<open>The longest run of a class. The streaming parsers ask for more when the run reaches the end of
  the input.\<close>

definition is_take_while :: "((char \<Rightarrow> bool) \<Rightarrow> ('k, bytes) imap_parser) \<Rightarrow> bool" where
  "is_take_while p \<longleftrightarrow> (\<forall>P i.
     p P i = (if list_all P i then Inl Nom_Incomplete else Inr (dropWhile P i, takeWhile P i)))"

definition run1_of :: "(char \<Rightarrow> bool) \<Rightarrow> ('k, bytes) imap_parser \<Rightarrow> bool" where
  "run1_of P p \<longleftrightarrow>
     (\<forall>i. list_all P i \<longrightarrow> p i = Inl Nom_Incomplete) \<and>
     (\<forall>c i. P c \<longrightarrow> \<not> list_all P i \<longrightarrow> p (c # i) = Inr (dropWhile P i, c # takeWhile P i)) \<and>
     (\<forall>c i. \<not> P c \<longrightarrow> is_error (p (c # i)))"

definition is_take_while1 :: "((char \<Rightarrow> bool) \<Rightarrow> ('k, bytes) imap_parser) \<Rightarrow> bool" where
  "is_take_while1 p \<longleftrightarrow> (\<forall>P. run1_of P (p P))"

text \<open>\<open>take_while_m_n(1, 1, ..)\<close> is one byte as a slice.\<close>

definition is_take_one :: "((char \<Rightarrow> bool) \<Rightarrow> ('k, bytes) imap_parser) \<Rightarrow> bool" where
  "is_take_one p \<longleftrightarrow> (\<forall>P. p P [] = Inl Nom_Incomplete) \<and>
     (\<forall>P c i. P c \<longrightarrow> p P (c # i) = Inr (i, [c])) \<and> (\<forall>P c i. \<not> P c \<longrightarrow> is_error (p P (c # i)))"

text \<open>A run is over when a byte outside the class follows.\<close>

definition ends :: "(char \<Rightarrow> bool) \<Rightarrow> bytes \<Rightarrow> bool" where
  "ends P r \<longleftrightarrow> r \<noteq> [] \<and> \<not> P (hd r)"

lemma ends_Cons [simp]: "ends P (c # r) \<longleftrightarrow> \<not> P c"
  by (simp add: ends_def)

lemma ends_Nil [simp]: "\<not> ends P []"
  by (simp add: ends_def)

lemma ends_append: "ends P r \<Longrightarrow> \<not> list_all P (s @ r)"
  by (cases r) simp_all

lemma run_split: "list_all P s \<Longrightarrow> ends P r \<Longrightarrow> takeWhile P (s @ r) = s \<and> dropWhile P (s @ r) = r"
  by (cases r) (induction s; simp)+

lemma run1_ok:
  assumes "run1_of P p" "s \<noteq> []" "list_all P s" "ends P r"
  shows "p (s @ r) = Inr (r, s)"
proof (cases s)
  case (Cons c t)
  with assms have "P c" "list_all P t" "\<not> list_all P (t @ r)"
    using ends_append [of P r t] by simp_all
  with assms(1) have "p (c # t @ r) = Inr (dropWhile P (t @ r), c # takeWhile P (t @ r))"
    by (simp add: run1_of_def)
  with run_split [OF \<open>list_all P t\<close> assms(4)] Cons show ?thesis by simp
qed (use assms in simp)

lemma run1_error: "run1_of P p \<Longrightarrow> \<not> P c \<Longrightarrow> is_error (p (c # i))"
  by (simp add: run1_of_def)

lemma error_not_ok: "is_error r \<Longrightarrow> r \<noteq> Inr x"
  by auto

lemma run1_result:
  assumes "run1_of P p" "p i = Inr (r, s)"
  shows "s \<noteq> [] \<and> list_all P s \<and> i = s @ r \<and> ends P r"
proof -
  have run: "\<not> list_all P i" using assms by (auto simp: run1_of_def)
  then obtain c j where i: "i = c # j" by (cases i) auto
  have c: "P c" using assms error_not_ok [OF run1_error [OF assms(1)]] i by blast
  with run i assms have j: "r = dropWhile P j" "s = c # takeWhile P j" by (auto simp: run1_of_def)
  with run i c have "dropWhile P j \<noteq> []" by (auto simp: list_all_iff)
  with hd_dropWhile [OF this] have "ends P r" unfolding j(1) ends_def by blast
  with i c j show ?thesis by (auto simp: list_all_iff dest: set_takeWhileD)
qed

lemma take_while_ok: "is_take_while p \<Longrightarrow> list_all P s \<Longrightarrow> ends P r \<Longrightarrow> p P (s @ r) = Inr (r, s)"
  using ends_append [of P r s] by (simp add: is_take_while_def run_split)

text \<open>\<open>escaped\<close>: runs of the normal parser, and pairs of the control byte and what the other parser
  takes, up to the first byte that is neither.\<close>

inductive escaped_run ::
  "('k, bytes) imap_parser \<Rightarrow> char \<Rightarrow> ('k, char) imap_parser \<Rightarrow> bytes \<Rightarrow> bytes \<Rightarrow> bool"
  for normal ctrl esc where
  stop: "is_error (normal (c # i)) \<Longrightarrow> c \<noteq> ctrl \<Longrightarrow> escaped_run normal ctrl esc (c # i) (c # i)"
| run: "normal i = Inr (r, s) \<Longrightarrow> r \<noteq> [] \<Longrightarrow> length r < length i \<Longrightarrow>
    escaped_run normal ctrl esc r j \<Longrightarrow> escaped_run normal ctrl esc i j"
| pair: "is_error (normal (ctrl # i)) \<Longrightarrow> esc i = Inr (r, x) \<Longrightarrow> r \<noteq> [] \<Longrightarrow>
    escaped_run normal ctrl esc r j \<Longrightarrow> escaped_run normal ctrl esc (ctrl # i) j"

definition is_escaped ::
  "(('k, bytes) imap_parser \<Rightarrow> char \<Rightarrow> ('k, char) imap_parser \<Rightarrow> ('k, bytes) imap_parser) \<Rightarrow> bool" where
  "is_escaped p \<longleftrightarrow> (\<forall>normal ctrl esc i. advances normal \<longrightarrow> rest_ok esc \<longrightarrow>
     (\<forall>j. escaped_run normal ctrl esc i j \<longrightarrow>
        p normal ctrl esc i = Inr (j, take (length i - length j) i)) \<and>
     (\<forall>j s. p normal ctrl esc i = Inr (j, s) \<longrightarrow>
        escaped_run normal ctrl esc i j \<and> s = take (length i - length j) i))"

lemma escaped_ok:
  "is_escaped p \<Longrightarrow> advances normal \<Longrightarrow> rest_ok esc \<Longrightarrow>
     escaped_run normal ctrl esc (s @ r) r \<Longrightarrow> p normal ctrl esc (s @ r) = Inr (r, s)"
  by (auto simp: is_escaped_def)

lemma escaped_result_run:
  "is_escaped p \<Longrightarrow> advances normal \<Longrightarrow> rest_ok esc \<Longrightarrow> p normal ctrl esc i = Inr (j, s) \<Longrightarrow>
     escaped_run normal ctrl esc i j \<and> s = take (length i - length j) i"
  by (auto simp: is_escaped_def)

lemma escaped_run_suffix:
  assumes "escaped_run normal ctrl esc i j" "rest_ok normal" "rest_ok esc"
  shows "suffix j i"
  using assms
proof (induction rule: escaped_run.induct)
  case (run i r s j)
  then show ?case using rest_okD suffix_order.trans by metis
next
  case (pair i r x j)
  then show ?case using rest_okD [of esc i r x] by (meson suffix_ConsI suffix_order.trans)
qed simp


section \<open>Combinators\<close>

text \<open>A choice returns the first result that is not a recoverable error.\<close>

fun first_result :: "('k, 'o) imap_parser list \<Rightarrow> bytes \<Rightarrow> ('k, 'o) IMAPResult option" where
  "first_result [] i = None"
| "first_result (p # ps) i = (if is_error (p i) then first_result ps i else Some (p i))"

definition is_alt :: "(('k, 'o) imap_parser list \<Rightarrow> ('k, 'o) imap_parser) \<Rightarrow> bool" where
  "is_alt a \<longleftrightarrow>
     (\<forall>ps i. first_result ps i \<noteq> None \<longrightarrow> a ps i = the (first_result ps i)) \<and>
     (\<forall>ps i. first_result ps i = None \<longrightarrow> is_error (a ps i))"

text \<open>The others are determined by their parts.\<close>

definition mapped :: "('k, 'a) imap_parser \<Rightarrow> ('a \<Rightarrow> 'b) \<Rightarrow> ('k, 'b) imap_parser" where
  "mapped p f i = map_ok (\<lambda>(r, x). (r, f x)) (p i)"

definition mapped_res ::
  "('k, 'a) imap_parser \<Rightarrow> ('a \<Rightarrow> (ExternalError, 'b) result) \<Rightarrow> ('k, 'b) imap_parser" where
  "mapped_res p f i = res_bind (p i) (\<lambda>(r, x). case f x of
     Inr y \<Rightarrow> Inr (r, y) | Inl e \<Rightarrow> Inl (Nom_Error (from_external_error i e)))"

definition optional :: "('k, 'a) imap_parser \<Rightarrow> ('k, 'a option) imap_parser" where
  "optional p i = (case p i of
     Inr (r, x) \<Rightarrow> Inr (r, Some x)
   | Inl e \<Rightarrow> if recoverable e then Inr (i, None) else Inl e)"

definition consumed :: "('k, 'a) imap_parser \<Rightarrow> ('k, bytes) imap_parser" where
  "consumed p i = map_ok (\<lambda>(r, _). (r, take (length i - length r) i)) (p i)"

definition both ::
  "('k, 'a) imap_parser \<Rightarrow> ('k, 'b) imap_parser \<Rightarrow> ('k, 'a \<times> 'b) imap_parser" where
  "both p q i = res_bind (p i) (\<lambda>(i, a). map_ok (\<lambda>(i, b). (i, a, b)) (q i))"

abbreviation is_map ::
  "(('k, 'a) imap_parser \<Rightarrow> ('a \<Rightarrow> 'b) \<Rightarrow> ('k, 'b) imap_parser) \<Rightarrow> bool" where
  "is_map m \<equiv> \<forall>p f. m p f = mapped p f"

abbreviation is_value :: "('b \<Rightarrow> ('k, 'a) imap_parser \<Rightarrow> ('k, 'b) imap_parser) \<Rightarrow> bool" where
  "is_value m \<equiv> \<forall>x p. m x p = mapped p (\<lambda>_. x)"

abbreviation is_map_res ::
  "(('k, 'a) imap_parser \<Rightarrow> ('a \<Rightarrow> (ExternalError, 'b) result) \<Rightarrow> ('k, 'b) imap_parser) \<Rightarrow> bool" where
  "is_map_res m \<equiv> \<forall>p f. m p f = mapped_res p f"

abbreviation is_opt :: "(('k, 'a) imap_parser \<Rightarrow> ('k, 'a option) imap_parser) \<Rightarrow> bool" where
  "is_opt m \<equiv> \<forall>p. m p = optional p"

abbreviation is_recognize :: "(('k, 'a) imap_parser \<Rightarrow> ('k, bytes) imap_parser) \<Rightarrow> bool" where
  "is_recognize m \<equiv> \<forall>p. m p = consumed p"

text \<open>Sequences. Each parser continues where the one before it stopped.\<close>

abbreviation is_tuple2 ::
  "(('k, 'a) imap_parser \<times> ('k, 'b) imap_parser \<Rightarrow> ('k, 'a \<times> 'b) imap_parser) \<Rightarrow> bool" where
  "is_tuple2 t \<equiv> \<forall>p q. t (p, q) = both p q"

abbreviation is_tuple3 ::
  "(('k, 'a) imap_parser \<times> ('k, 'b) imap_parser \<times> ('k, 'c) imap_parser \<Rightarrow>
     ('k, 'a \<times> 'b \<times> 'c) imap_parser) \<Rightarrow> bool" where
  "is_tuple3 t \<equiv> \<forall>p q s. t (p, q, s) = both p (both q s)"

abbreviation is_tuple5 ::
  "(('k, 'a) imap_parser \<times> ('k, 'b) imap_parser \<times> ('k, 'c) imap_parser \<times> ('k, 'd) imap_parser \<times>
     ('k, 'e) imap_parser \<Rightarrow> ('k, 'a \<times> 'b \<times> 'c \<times> 'd \<times> 'e) imap_parser) \<Rightarrow> bool" where
  "is_tuple5 t \<equiv> \<forall>p q s u v. t (p, q, s, u, v) = both p (both q (both s (both u v)))"

abbreviation is_preceded ::
  "(('k, 'a) imap_parser \<Rightarrow> ('k, 'b) imap_parser \<Rightarrow> ('k, 'b) imap_parser) \<Rightarrow> bool" where
  "is_preceded m \<equiv> \<forall>p q. m p q = mapped (both p q) snd"

abbreviation is_terminated ::
  "(('k, 'a) imap_parser \<Rightarrow> ('k, 'b) imap_parser \<Rightarrow> ('k, 'a) imap_parser) \<Rightarrow> bool" where
  "is_terminated m \<equiv> \<forall>p q. m p q = mapped (both p q) fst"

abbreviation is_delimited ::
  "(('k, 'a) imap_parser \<Rightarrow> ('k, 'b) imap_parser \<Rightarrow> ('k, 'c) imap_parser \<Rightarrow> ('k, 'b) imap_parser) \<Rightarrow>
     bool" where
  "is_delimited m \<equiv> \<forall>p q s. m p q s = mapped (both p (both q s)) (\<lambda>(_, b, _). b)"

text \<open>Repetitions stop, in front of the separator, at the first recoverable error. Their parsers have
  to advance, which all of the grammar do.\<close>

function many_items :: "('k, 'a) imap_parser \<Rightarrow> bytes \<Rightarrow> ('k, 'a list) IMAPResult" where
  "many_items p i =
     (case p i of
        Inl e \<Rightarrow> if recoverable e then Inr (i, []) else Inl e
      | Inr (r, x) \<Rightarrow>
          if length r < length i then map_ok (\<lambda>(j, xs). (j, x # xs)) (many_items p r)
          else Inr (r, [x]))"
  by pat_completeness auto
termination
  by (relation "measure (\<lambda>(p, i). length i)") auto

declare many_items.simps [simp del]

definition is_many0 :: "(('k, 'a) imap_parser \<Rightarrow> ('k, 'a list) imap_parser) \<Rightarrow> bool" where
  "is_many0 m \<longleftrightarrow> (\<forall>p i. advances p \<longrightarrow> m p i = many_items p i)"

text \<open>\<open>many_m_n\<close> with \<open>usize::MAX\<close> as its upper limit, and \<open>many1\<close>.\<close>

definition at_least :: "nat \<Rightarrow> (('k, 'a) imap_parser \<Rightarrow> ('k, 'a list) imap_parser) \<Rightarrow> bool" where
  "at_least n m \<longleftrightarrow>
     (\<forall>p i e. advances p \<longrightarrow> many_items p i = Inl e \<longrightarrow> m p i = Inl e) \<and>
     (\<forall>p i r xs. advances p \<longrightarrow> many_items p i = Inr (r, xs) \<longrightarrow> n \<le> length xs \<longrightarrow>
        m p i = Inr (r, xs)) \<and>
     (\<forall>p i r xs. advances p \<longrightarrow> many_items p i = Inr (r, xs) \<longrightarrow> length xs < n \<longrightarrow>
        is_error (m p i))"

definition is_many_from :: "(nat \<Rightarrow> ('k, 'a) imap_parser \<Rightarrow> ('k, 'a list) imap_parser) \<Rightarrow> bool" where
  "is_many_from m \<longleftrightarrow> (\<forall>n. at_least n (m n))"

definition is_many1 :: "(('k, 'a) imap_parser \<Rightarrow> ('k, 'a list) imap_parser) \<Rightarrow> bool" where
  "is_many1 m \<longleftrightarrow> at_least 1 m"

function separated_items ::
  "('k, 's) imap_parser \<Rightarrow> ('k, 'a) imap_parser \<Rightarrow> bytes \<Rightarrow> ('k, 'a list) IMAPResult" where
  "separated_items sep p i =
     (case sep i of
        Inl e \<Rightarrow> if recoverable e then Inr (i, []) else Inl e
      | Inr (r, _) \<Rightarrow>
          (case p r of
             Inl e \<Rightarrow> if recoverable e then Inr (i, []) else Inl e
           | Inr (r, x) \<Rightarrow>
               if length r < length i
               then map_ok (\<lambda>(j, xs). (j, x # xs)) (separated_items sep p r)
               else Inr (r, [x])))"
  by pat_completeness auto
termination
  by (relation "measure (\<lambda>(sep, p, i). length i)") auto

declare separated_items.simps [simp del]

definition is_separated_list1 ::
  "(('k, 's) imap_parser \<Rightarrow> ('k, 'a) imap_parser \<Rightarrow> ('k, 'a list) imap_parser) \<Rightarrow> bool" where
  "is_separated_list1 m \<longleftrightarrow> (\<forall>sep p i. advances sep \<longrightarrow> rest_ok p \<longrightarrow> m sep p i =
     res_bind (p i) (\<lambda>(i, x). map_ok (\<lambda>(j, xs). (j, x # xs)) (separated_items sep p i)))"

definition is_separated_list0 ::
  "(('k, 's) imap_parser \<Rightarrow> ('k, 'a) imap_parser \<Rightarrow> ('k, 'a list) imap_parser) \<Rightarrow> bool" where
  "is_separated_list0 m \<longleftrightarrow> (\<forall>sep p i. advances sep \<longrightarrow> rest_ok p \<longrightarrow> m sep p i =
     (case p i of
        Inl e \<Rightarrow> if recoverable e then Inr (i, []) else Inl e
      | Inr (i, x) \<Rightarrow> map_ok (\<lambda>(j, xs). (j, x # xs)) (separated_items sep p i)))"

section \<open>What they return is a part of their input\<close>

lemmas nom_apply = mapped_def mapped_res_def consumed_def both_def

lemma optional_simps [simp]:
  "p i = Inr (r, x) \<Longrightarrow> optional p i = Inr (r, Some x)"
  "is_error (p i) \<Longrightarrow> optional p i = Inr (i, None)"
  by (cases "p i"; simp add: optional_def)+

lemma rest_same:
  assumes "\<And>i r x. q i = Inr (r, x) \<Longrightarrow> \<exists>y. p i = Inr (r, y)"
  shows "rest_ok p \<Longrightarrow> rest_ok q" "advances p \<Longrightarrow> advances q"
proof -
  show "rest_ok q" if "rest_ok p" unfolding rest_ok_def using assms rest_okD [OF that] by blast
  show "advances q" if "advances p" unfolding advances_def using assms advancesD [OF that] by blast
qed

lemma rest_bind [rest_rules]:
  assumes "\<And>r x j y. f (r, x) = Inr (j, y) \<Longrightarrow> j = r"
  shows "rest_ok p \<Longrightarrow> rest_ok (\<lambda>i. res_bind (p i) f)" "advances p \<Longrightarrow> advances (\<lambda>i. res_bind (p i) f)"
proof -
  have same: "\<exists>y. p i = Inr (r, y)" if bind: "res_bind (p i) f = Inr (r, x)" for i r x
  proof -
    obtain a b where p: "p i = Inr (a, b)" "f (a, b) = Inr (r, x)" using bind by auto
    from assms [OF p(2)] p(1) show ?thesis by blast
  qed
  show "rest_ok p \<Longrightarrow> rest_ok (\<lambda>i. res_bind (p i) f)" by (rule rest_same(1) [OF same])
  show "advances p \<Longrightarrow> advances (\<lambda>i. res_bind (p i) f)" by (rule rest_same(2) [OF same])
qed

lemma rest_mapped [rest_rules]: "rest_ok p \<Longrightarrow> rest_ok (mapped p f)" "advances p \<Longrightarrow> advances (mapped p f)"
proof -
  have same: "\<exists>y. p i = Inr (r, y)" if "mapped p f i = Inr (r, x)" for i r x
    using that by (auto simp: mapped_def)
  show "rest_ok p \<Longrightarrow> rest_ok (mapped p f)" "advances p \<Longrightarrow> advances (mapped p f)"
    by (rule rest_same [OF same]; assumption)+
qed

lemma rest_mapped_res [rest_rules]:
  "rest_ok p \<Longrightarrow> rest_ok (mapped_res p f)" "advances p \<Longrightarrow> advances (mapped_res p f)"
proof -
  have same: "\<exists>y. p i = Inr (r, y)" if m: "mapped_res p f i = Inr (r, x)" for i r x
    using m by (auto simp: mapped_res_def)
  show "rest_ok p \<Longrightarrow> rest_ok (mapped_res p f)" "advances p \<Longrightarrow> advances (mapped_res p f)"
    by (rule rest_same [OF same]; assumption)+
qed

lemma rest_consumed [rest_rules]:
  "rest_ok p \<Longrightarrow> rest_ok (consumed p)" "advances p \<Longrightarrow> advances (consumed p)"
proof -
  have same: "\<exists>y. p i = Inr (r, y)" if "consumed p i = Inr (r, x)" for i r x
    using that by (auto simp: consumed_def)
  show "rest_ok p \<Longrightarrow> rest_ok (consumed p)" "advances p \<Longrightarrow> advances (consumed p)"
    by (rule rest_same [OF same]; assumption)+
qed

lemma rest_optional [rest_rules]: "rest_ok p \<Longrightarrow> rest_ok (optional p)"
  by (auto simp: optional_def rest_ok_def split: sum.split_asm if_splits)

text \<open>A parser that goes on with what another returns.\<close>

lemma rest_seq:
  assumes "rest_ok p" "\<And>a. rest_ok (k a)"
  shows "rest_ok (\<lambda>i. res_bind (p i) (\<lambda>(r, a). k a r))"
proof -
  have "suffix r i" if "p i = Inr (j, a)" "k a j = Inr (r, x)" for i j a r x
    using rest_okD [OF assms(1) that(1)] rest_okD [OF assms(2) that(2)]
    by (meson suffix_order.trans)
  then show ?thesis by (auto simp: rest_ok_def)
qed

lemma advances_seq:
  assumes "advances p" "\<And>a. rest_ok (k a)"
  shows "advances (\<lambda>i. res_bind (p i) (\<lambda>(r, a). k a r))"
proof -
  have "strict_suffix r i" if "p i = Inr (j, a)" "k a j = Inr (r, x)" for i j a r x
    using advancesD [OF assms(1) that(1)] rest_okD [OF assms(2) that(2)]
    by (meson suffix_order.le_less_trans)
  then show ?thesis by (auto simp: advances_def)
qed

lemma rest_both [rest_rules]: "rest_ok p \<Longrightarrow> rest_ok q \<Longrightarrow> rest_ok (both p q)"
  by (auto simp: both_def rest_ok_def) (meson suffix_order.trans)

lemma advances_both [rest_rules]:
  "advances p \<Longrightarrow> rest_ok q \<Longrightarrow> advances (both p q)" "rest_ok p \<Longrightarrow> advances q \<Longrightarrow> advances (both p q)"
  by (auto simp: both_def rest_ok_def advances_def)
     (meson suffix_order.le_less_trans suffix_order.less_le_trans)+

lemma first_result_mem: "first_result ps i = Some r \<Longrightarrow> \<exists>p \<in> set ps. r = p i"
  by (induction ps) (auto split: if_splits)

lemma alt_mem:
  assumes "is_alt a" "a ps i = Inr x"
  shows "\<exists>p \<in> set ps. p i = Inr x"
proof (cases "first_result ps i")
  case None
  with assms have "is_error (a ps i)" unfolding is_alt_def by blast
  with assms(2) show ?thesis by simp
next
  case (Some r)
  with assms(1) have "a ps i = r" by (simp add: is_alt_def)
  with assms(2) first_result_mem [OF Some] show ?thesis by auto
qed

lemma rest_alt:
  assumes "is_alt a"
  shows "\<forall>p \<in> set ps. rest_ok p \<Longrightarrow> rest_ok (a ps)" "\<forall>p \<in> set ps. advances p \<Longrightarrow> advances (a ps)"
  unfolding rest_ok_def advances_def using alt_mem [OF assms] by blast+

lemma advances_tag: "tag_like g p \<Longrightarrow> t \<noteq> [] \<Longrightarrow> advances (p t)"
proof -
  assume p: "tag_like g p" and t: "t \<noteq> []"
  have "strict_suffix r i" if "p t i = Inr (r, x)" for i r x
  proof (cases "match_tag g t i")
    case (Found s j)
    with p have "p t i = Inr (j, s)" by (simp add: tag_like_def)
    moreover have "i = s @ j" "s \<noteq> []" using match_tag_Found [OF Found] t by auto
    ultimately show ?thesis using that by (auto simp: strict_suffix_def suffix_def)
  next
    case Partial
    with p that show ?thesis by (simp add: tag_like_def)
  next
    case Different
    with p have "is_error (p t i)" by (simp add: tag_like_def)
    with that show ?thesis by simp
  qed
  then show ?thesis by (simp add: advances_def)
qed

lemma advances_byte: "byte_of P p \<Longrightarrow> advances p"
proof -
  assume p: "byte_of P p"
  have "strict_suffix r i" if "p i = Inr (r, x)" for i r x
  proof (cases i)
    case Nil
    with p that show ?thesis by (simp add: byte_of_def)
  next
    case (Cons c j)
    show ?thesis
    proof (cases "P c")
      case True
      with p Cons that show ?thesis by (auto simp: byte_of_def strict_suffix_def suffix_def)
    next
      case False
      with p have "is_error (p (c # j))" by (simp add: byte_of_def)
      with Cons that show ?thesis by simp
    qed
  qed
  then show ?thesis by (simp add: advances_def)
qed

lemma suffix_dropWhile': "suffix (dropWhile P i) i"
  by (induction i) (auto intro: suffix_ConsI)

lemma advances_run1: "run1_of P p \<Longrightarrow> advances p"
  using run1_result [of P p] by (fastforce simp: advances_def strict_suffix_def suffix_def)

lemma advances_take_one: "is_take_one p \<Longrightarrow> advances (p P)"
proof -
  assume p: "is_take_one p"
  have "strict_suffix r i" if ok: "p P i = Inr (r, x)" for i r x
  proof -
    obtain c j where i: "i = c # j" using p ok by (cases i) (auto simp: is_take_one_def)
    have "P c"
    proof (rule ccontr)
      assume "\<not> P c"
      with p have "is_error (p P (c # j))" by (simp add: is_take_one_def)
      with i ok show False by simp
    qed
    with p i ok show ?thesis by (auto simp: is_take_one_def strict_suffix_def suffix_def)
  qed
  then show ?thesis by (simp add: advances_def)
qed

lemma rest_take_while: "is_take_while p \<Longrightarrow> rest_ok (p P)"
  by (auto simp: is_take_while_def rest_ok_def suffix_dropWhile' split: if_splits)

lemma rest_take: "takes_bytes p \<Longrightarrow> rest_ok (p n)"
  by (auto simp: takes_bytes_def rest_ok_def suffix_drop split: if_splits)

lemma rest_escaped: "is_escaped p \<Longrightarrow> advances normal \<Longrightarrow> rest_ok esc \<Longrightarrow> rest_ok (p normal ctrl esc)"
  unfolding is_escaped_def by (intro rest_okI) (metis advances_rest escaped_run_suffix)

section \<open>Repetitions\<close>

text \<open>For parsers that advance, the guards against standing still are never taken.\<close>

lemma many_items_step: "advances p \<Longrightarrow> many_items p i =
    (case p i of
       Inl e \<Rightarrow> if recoverable e then Inr (i, []) else Inl e
     | Inr (r, x) \<Rightarrow> map_ok (\<lambda>(j, xs). (j, x # xs)) (many_items p r))"
  using advances_length [of p i] by (subst many_items.simps) (auto split: sum.split)

lemma separated_items_step: "advances sep \<Longrightarrow> rest_ok p \<Longrightarrow> separated_items sep p i =
    (case sep i of
       Inl e \<Rightarrow> if recoverable e then Inr (i, []) else Inl e
     | Inr (r, _) \<Rightarrow>
         (case p r of
            Inl e \<Rightarrow> if recoverable e then Inr (i, []) else Inl e
          | Inr (r, x) \<Rightarrow> map_ok (\<lambda>(j, xs). (j, x # xs)) (separated_items sep p r)))"
proof -
  assume "advances sep" "rest_ok p"
  then have "advances (both sep p)" by (rule advances_both)
  then have "length r < length i" if "sep i = Inr (j, y)" "p j = Inr (r, x)" for j y r x
    using that advances_length [of "both sep p" i r "(y, x)"] by (simp add: both_def)
  then show ?thesis by (subst separated_items.simps) (auto split: sum.split)
qed

lemma many_items_suffix:
  assumes p: "advances p"
  shows "many_items p i = Inr (r, xs) \<Longrightarrow> suffix r i \<and> (xs \<noteq> [] \<longrightarrow> strict_suffix r i)"
proof (induction "length i" arbitrary: i xs rule: less_induct)
  case less
  show ?case
  proof (cases "p i")
    case (Inl e)
    with less.prems show ?thesis by (auto simp: many_items_step [OF p, of i] split: if_splits)
  next
    case (Inr a)
    then obtain j x where j: "p i = Inr (j, x)" by (cases a) auto
    with less.prems obtain ys where ys: "many_items p j = Inr (r, ys)"
      by (auto simp: many_items_step [OF p, of i])
    with less.hyps advances_length [OF p j] have "suffix r j" by blast
    with advancesD [OF p j] have "strict_suffix r i" by (meson suffix_order.le_less_trans)
    then show ?thesis by (simp add: strict_suffix_def)
  qed
qed

lemma separated_items_suffix:
  assumes p: "advances sep" "rest_ok p"
  shows "separated_items sep p i = Inr (r, xs) \<Longrightarrow> suffix r i"
proof (induction "length i" arbitrary: i xs rule: less_induct)
  case less
  note step = separated_items_step [OF p, of i]
  show ?case
  proof (cases "both sep p i")
    case (Inl e)
    with less.prems show ?thesis
      by (auto simp: step both_def split: if_splits sum.split_asm)
  next
    case (Inr a)
    then obtain j y where j: "both sep p i = Inr (j, y)" by (cases a) auto
    with less.prems obtain ys where ys: "separated_items sep p j = Inr (r, ys)"
      by (auto simp: step both_def)
    note adv = advances_both(1) [OF p]
    from less.hyps advances_length [OF adv j] ys have "suffix r j" by blast
    with advancesD [OF adv j] show ?thesis by (meson strict_suffix_def suffix_order.trans)
  qed
qed

lemma rest_many0 [rest_rules]: "is_many0 m \<Longrightarrow> advances p \<Longrightarrow> rest_ok (m p)"
  by (auto simp: is_many0_def rest_ok_def dest: many_items_suffix)

lemma at_least_ok:
  assumes "at_least n m" "advances p" "m p i = Inr (r, xs)"
  shows "many_items p i = Inr (r, xs) \<and> n \<le> length xs"
proof (cases "many_items p i")
  case (Inl e)
  with assms show ?thesis by (simp add: at_least_def)
next
  case (Inr a)
  obtain j ys where a: "a = (j, ys)" by (cases a)
  show ?thesis
  proof (cases "n \<le> length ys")
    case True
    with Inr a assms show ?thesis by (simp add: at_least_def)
  next
    case False
    with Inr a assms(1,2) have "is_error (m p i)" by (simp add: at_least_def)
    with assms(3) show ?thesis by simp
  qed
qed

lemma rest_at_least:
  assumes "at_least n m" "advances p"
  shows "rest_ok (m p)" "0 < n \<Longrightarrow> advances (m p)"
  using at_least_ok [OF assms] many_items_suffix [OF assms(2)]
  by (fastforce simp: rest_ok_def advances_def)+

lemma rest_separated_list1:
  assumes "is_separated_list1 m" "advances sep" "rest_ok p"
  shows "rest_ok (m sep p)" "advances p \<Longrightarrow> advances (m sep p)"
proof -
  have m: "m sep p = (\<lambda>i. res_bind (p i) (\<lambda>(i, x). mapped (separated_items sep p) (\<lambda>xs. x # xs) i))"
    using assms by (auto simp: is_separated_list1_def mapped_def)
  have k: "rest_ok (mapped (separated_items sep p) f)" for f
    using separated_items_suffix [OF assms(2,3)] by (intro rest_mapped rest_okI)
  show "rest_ok (m sep p)"
    unfolding m by (rule rest_seq [OF assms(3) k])
  show "advances p \<Longrightarrow> advances (m sep p)"
    unfolding m by (rule advances_seq [OF _ k])
qed

lemma rest_separated_list0:
  assumes "is_separated_list0 m" "advances sep" "rest_ok p"
  shows "rest_ok (m sep p)"
  using assms rest_okD [OF assms(3)] separated_items_suffix [OF assms(2,3)]
  by (fastforce simp: is_separated_list0_def rest_ok_def split: sum.split_asm if_splits
      intro: suffix_order.trans)

text \<open>Reading back a list that was printed item by item.\<close>

lemma many_items_ok:
  assumes p: "advances p" and stop: "is_error (p r)"
    and item: "\<And>x t. x \<in> set xs \<Longrightarrow> p (pr x @ t) = Inr (t, x)"
  shows "many_items p (concat (map pr xs) @ r) = Inr (r, xs)"
  using item
proof (induction xs)
  case Nil
  from stop show ?case by (cases "p r") (auto simp: many_items_step [OF p, of r])
next
  case (Cons x xs)
  then show ?case by (simp add: many_items_step [OF p, of "pr x @ t" for t])
qed

lemma separated_items_ok:
  assumes p: "advances sep" "rest_ok p"
    and stop: "is_error (sep r) \<or> (\<exists>j y. sep r = Inr (j, y) \<and> is_error (p j))"
    and sep: "\<And>t. sep (s @ t) = Inr (t, y)"
    and item: "\<And>x t. x \<in> set xs \<Longrightarrow> ok t \<Longrightarrow> p (pr x @ t) = Inr (t, x)"
    and ok: "ok r" "\<And>t. ok (s @ t)"
  shows "separated_items sep p (concat (map (\<lambda>x. s @ pr x) xs) @ r) = Inr (r, xs)"
  using item
proof (induction xs)
  case Nil
  from stop show ?case
  proof
    assume "is_error (sep r)"
    then show ?thesis by (cases "sep r") (auto simp: separated_items_step [OF p, of r])
  next
    assume "\<exists>j y. sep r = Inr (j, y) \<and> is_error (p j)"
    then obtain j z where "sep r = Inr (j, z)" "is_error (p j)" by blast
    then show ?thesis by (cases "p j") (auto simp: separated_items_step [OF p, of r])
  qed
next
  case (Cons x xs)
  have "ok (concat (map (\<lambda>x. s @ pr x) xs) @ r)" using ok by (cases xs) simp_all
  with Cons sep show ?case by (simp add: separated_items_step [OF p, of "s @ t" for t])
qed

text \<open>The same for lists whose items are joined by a separator.\<close>

fun joined :: "bytes \<Rightarrow> bytes list \<Rightarrow> bytes" where
  "joined s [] = []"
| "joined s (x # xs) = x @ concat (map (\<lambda>y. s @ y) xs)"

lemma separated_list_ok:
  assumes p: "advances sep" "rest_ok p"
    and stop: "is_error (sep r) \<or> (\<exists>j y. sep r = Inr (j, y) \<and> is_error (p j))"
    and sep: "\<And>t. sep (s @ t) = Inr (t, y)"
    and item: "\<And>x t. x \<in> set xs \<Longrightarrow> ok t \<Longrightarrow> p (pr x @ t) = Inr (t, x)"
    and ok: "ok r" "\<And>t. ok (s @ t)"
    and xs: "xs \<noteq> []"
  shows "is_separated_list1 m \<Longrightarrow> m sep p (joined s (map pr xs) @ r) = Inr (r, xs)"
    "is_separated_list0 m0 \<Longrightarrow> m0 sep p (joined s (map pr xs) @ r) = Inr (r, xs)"
proof -
  obtain z zs where z: "xs = z # zs" using xs by (cases xs) auto
  have items: "separated_items sep p (concat (map (\<lambda>x. s @ pr x) zs) @ r) = Inr (r, zs)"
    using separated_items_ok [of sep p r s y zs ok pr] p stop sep item ok z by simp
  have "ok (concat (map (\<lambda>x. s @ pr x) zs) @ r)" using ok by (cases zs) simp_all
  with item z have "p (joined s (map pr xs) @ r) = Inr (concat (map (\<lambda>x. s @ pr x) zs) @ r, z)"
    by (simp add: o_def)
  with items p z show "is_separated_list1 m \<Longrightarrow> m sep p (joined s (map pr xs) @ r) = Inr (r, xs)"
    "is_separated_list0 m0 \<Longrightarrow> m0 sep p (joined s (map pr xs) @ r) = Inr (r, xs)"
    by (simp_all add: is_separated_list1_def is_separated_list0_def)
qed

lemma separated_list1_error:
  "is_separated_list1 m \<Longrightarrow> advances sep \<Longrightarrow> rest_ok p \<Longrightarrow> is_error (p i) \<Longrightarrow> is_error (m sep p i)"
  by (simp add: is_separated_list1_def)

lemma separated_list0_empty:
  "is_separated_list0 m \<Longrightarrow> advances sep \<Longrightarrow> rest_ok p \<Longrightarrow> is_error (p i) \<Longrightarrow> m sep p i = Inr (i, [])"
  by (cases "p i") (simp_all add: is_separated_list0_def)

section \<open>Limits of recursion\<close>

text \<open>Parsers of nested data fail for good when their limit is used up. The failure passes through all
  combinators.\<close>

fun too_deep :: "('k, 'o) IMAPResult \<Rightarrow> bool" where
  "too_deep (Inl (Nom_Failure e)) \<longleftrightarrow> pe_kind e = Kind_RecursionLimitExceeded"
| "too_deep _ \<longleftrightarrow> False"

lemma too_deep_failure: "too_deep m \<Longrightarrow> \<exists>e. m = Inl (Nom_Failure e) \<and> pe_kind e = Kind_RecursionLimitExceeded"
  by (cases m rule: too_deep.cases) auto

lemma too_deep_not_error [dest]: "too_deep m \<Longrightarrow> \<not> is_error m"
  using too_deep_failure [of m] by auto

lemma too_deep_bind [simp]: "too_deep m \<Longrightarrow> too_deep (res_bind m f)" "too_deep (map_ok g m) \<longleftrightarrow> too_deep m"
proof -
  show "too_deep m \<Longrightarrow> too_deep (res_bind m f)" using too_deep_failure [of m] by auto
  show "too_deep (map_ok g m) \<longleftrightarrow> too_deep m" by (cases m rule: too_deep.cases) simp_all
qed

lemma too_deep_optional [simp]: "too_deep (p i) \<Longrightarrow> too_deep (optional p i)"
  using too_deep_failure [of "p i"] by (auto simp: optional_def)

lemma first_result_too_deep [simp]: "too_deep (p i) \<Longrightarrow> first_result (p # ps) i = Some (p i)"
  by (auto dest: too_deep_not_error)

lemma many_items_limited:
  assumes p: "advances p"
    and good: "\<And>x t. x \<in> set xs \<Longrightarrow> good x \<Longrightarrow> p (pr x @ t) = Inr (t, x)"
    and bad: "\<And>x t. x \<in> set xs \<Longrightarrow> \<not> good x \<Longrightarrow> too_deep (p (pr x @ t))"
    and stop: "list_all good xs \<Longrightarrow> is_error (p r)"
  shows "if list_all good xs then many_items p (concat (map pr xs) @ r) = Inr (r, xs)
    else too_deep (many_items p (concat (map pr xs) @ r))"
  using good bad stop
proof (induction xs)
  case Nil
  then have "is_error (p r)" by simp
  then show ?case by (cases "p r") (auto simp: many_items_step [OF p, of r])
next
  case (Cons x xs)
  show ?case
  proof (cases "good x")
    case True
    with Cons.prems(1) have "p (pr x @ concat (map pr xs) @ r) = Inr (concat (map pr xs) @ r, x)" by simp
    moreover have "if list_all good xs then many_items p (concat (map pr xs) @ r) = Inr (r, xs)
        else too_deep (many_items p (concat (map pr xs) @ r))"
      using Cons.prems True by (intro Cons.IH) simp_all
    ultimately show ?thesis
      using True by (auto simp: many_items_step [OF p, of "pr x @ t" for t])
  next
    case False
    with Cons.prems(2) have "too_deep (p (pr x @ concat (map pr xs) @ r))" by simp
    from too_deep_failure [OF this] False show ?thesis
      by (auto simp: many_items_step [OF p, of "pr x @ t" for t])
  qed
qed

lemma separated_items_limited:
  assumes p: "advances sep" "rest_ok p"
    and sep: "\<And>t. sep (s @ t) = Inr (t, y)"
    and good: "\<And>x t. x \<in> set xs \<Longrightarrow> good x \<Longrightarrow> ok t \<Longrightarrow> p (pr x @ t) = Inr (t, x)"
    and bad: "\<And>x t. x \<in> set xs \<Longrightarrow> \<not> good x \<Longrightarrow> ok t \<Longrightarrow> too_deep (p (pr x @ t))"
    and ok: "ok r" "\<And>t. ok (s @ t)"
    and stop: "is_error (sep r)"
  shows "if list_all good xs then separated_items sep p (concat (map (\<lambda>x. s @ pr x) xs) @ r) = Inr (r, xs)
    else too_deep (separated_items sep p (concat (map (\<lambda>x. s @ pr x) xs) @ r))"
  using good bad
proof (induction xs)
  case Nil
  from stop show ?case by (cases "sep r") (auto simp: separated_items_step [OF p, of r])
next
  case (Cons x xs)
  have ok_rest: "ok (concat (map (\<lambda>x. s @ pr x) xs) @ r)" using ok by (cases xs) simp_all
  show ?case
  proof (cases "good x")
    case True
    with Cons.prems(1) ok_rest have "p (pr x @ concat (map (\<lambda>x. s @ pr x) xs) @ r) =
        Inr (concat (map (\<lambda>x. s @ pr x) xs) @ r, x)" by simp
    moreover have "if list_all good xs
        then separated_items sep p (concat (map (\<lambda>x. s @ pr x) xs) @ r) = Inr (r, xs)
        else too_deep (separated_items sep p (concat (map (\<lambda>x. s @ pr x) xs) @ r))"
      using Cons.prems True by (intro Cons.IH) simp_all
    ultimately show ?thesis
      using True sep by (auto simp: separated_items_step [OF p, of "s @ t" for t])
  next
    case False
    with Cons.prems(2) ok_rest have "too_deep (p (pr x @ concat (map (\<lambda>x. s @ pr x) xs) @ r))" by simp
    from too_deep_failure [OF this] False sep show ?thesis
      by (auto simp: separated_items_step [OF p, of "s @ t" for t])
  qed
qed

lemma separated_list1_limited:
  assumes p: "advances sep" "rest_ok p"
    and sep: "\<And>t. sep (s @ t) = Inr (t, y)"
    and good: "\<And>x t. x \<in> set xs \<Longrightarrow> good x \<Longrightarrow> ok t \<Longrightarrow> p (pr x @ t) = Inr (t, x)"
    and bad: "\<And>x t. x \<in> set xs \<Longrightarrow> \<not> good x \<Longrightarrow> ok t \<Longrightarrow> too_deep (p (pr x @ t))"
    and ok: "ok r" "\<And>t. ok (s @ t)"
    and stop: "is_error (sep r)"
    and m: "is_separated_list1 m" "xs \<noteq> []"
  shows "if list_all good xs then m sep p (joined s (map pr xs) @ r) = Inr (r, xs)
    else too_deep (m sep p (joined s (map pr xs) @ r))"
proof -
  obtain z zs where z: "xs = z # zs" using m(2) by (cases xs) auto
  have items: "if list_all good zs
      then separated_items sep p (concat (map (\<lambda>x. s @ pr x) zs) @ r) = Inr (r, zs)
      else too_deep (separated_items sep p (concat (map (\<lambda>x. s @ pr x) zs) @ r))"
    using good bad z by (intro separated_items_limited [OF p sep, where ok = ok] ok stop) simp_all
  have "ok (concat (map (\<lambda>x. s @ pr x) zs) @ r)" using ok by (cases zs) simp_all
  with good [of z] bad [of z] z
  have "if good z then p (joined s (map pr xs) @ r) = Inr (concat (map (\<lambda>x. s @ pr x) zs) @ r, z)
      else too_deep (p (joined s (map pr xs) @ r))"
    by (simp add: o_def)
  moreover have "m sep p i = res_bind (p i) (\<lambda>(i, x). map_ok (\<lambda>(j, xs). (j, x # xs)) (separated_items sep p i))"
    for i using m(1) p by (simp add: is_separated_list1_def)
  ultimately show ?thesis using items z by (auto split: if_splits)
qed

section \<open>Concrete parsers\<close>

text \<open>Functions that satisfy the predicates, to instantiate the theorems about the grammar.\<close>

abbreviation plain_error :: "bytes \<Rightarrow> (unit, 'o) IMAPResult" where
  "plain_error i \<equiv> Inl (Nom_Error (from_error_kind i ()))"

definition c_tag :: "(char \<Rightarrow> char) \<Rightarrow> bytes \<Rightarrow> (unit, bytes) imap_parser" where
  "c_tag g t i = (case match_tag g t i of
     Found s r \<Rightarrow> Inr (r, s) | Partial \<Rightarrow> Inl Nom_Incomplete | Different \<Rightarrow> plain_error i)"

fun c_byte :: "(char \<Rightarrow> bool) \<Rightarrow> (unit, char) imap_parser" where
  "c_byte P [] = Inl Nom_Incomplete"
| "c_byte P (c # i) = (if P c then Inr (i, c) else plain_error (c # i))"

definition c_take_while :: "(char \<Rightarrow> bool) \<Rightarrow> (unit, bytes) imap_parser" where
  "c_take_while P i =
     (if list_all P i then Inl Nom_Incomplete else Inr (dropWhile P i, takeWhile P i))"

definition c_take_while1 :: "(char \<Rightarrow> bool) \<Rightarrow> (unit, bytes) imap_parser" where
  "c_take_while1 P i =
     (if list_all P i then Inl Nom_Incomplete
      else if P (hd i) then Inr (dropWhile P i, takeWhile P i) else plain_error i)"

definition c_take_one :: "(char \<Rightarrow> bool) \<Rightarrow> (unit, bytes) imap_parser" where
  "c_take_one P = mapped (c_byte P) (\<lambda>c. [c])"

definition c_alt :: "(unit, 'o) imap_parser list \<Rightarrow> (unit, 'o) imap_parser" where
  "c_alt ps i = (case first_result ps i of Some r \<Rightarrow> r | None \<Rightarrow> plain_error i)"

definition c_many :: "nat \<Rightarrow> (unit, 'a) imap_parser \<Rightarrow> (unit, 'a list) imap_parser" where
  "c_many n p i = res_bind (many_items p i)
     (\<lambda>(r, xs). if n \<le> length xs then Inr (r, xs) else plain_error i)"

definition c_separated_list1 ::
  "(unit, 's) imap_parser \<Rightarrow> (unit, 'a) imap_parser \<Rightarrow> (unit, 'a list) imap_parser" where
  "c_separated_list1 sep p i =
     res_bind (p i) (\<lambda>(i, x). map_ok (\<lambda>(j, xs). (j, x # xs)) (separated_items sep p i))"

definition c_separated_list0 ::
  "(unit, 's) imap_parser \<Rightarrow> (unit, 'a) imap_parser \<Rightarrow> (unit, 'a list) imap_parser" where
  "c_separated_list0 sep p i =
     (case p i of
        Inl e \<Rightarrow> if recoverable e then Inr (i, []) else Inl e
      | Inr (i, x) \<Rightarrow> map_ok (\<lambda>(j, xs). (j, x # xs)) (separated_items sep p i))"

function escaped_end ::
  "('k, bytes) imap_parser \<Rightarrow> char \<Rightarrow> ('k, char) imap_parser \<Rightarrow> bytes \<Rightarrow> bytes option" where
  "escaped_end normal ctrl esc i =
     (case normal i of
        Inr (r, _) \<Rightarrow> if r \<noteq> [] \<and> length r < length i then escaped_end normal ctrl esc r else None
      | Inl e \<Rightarrow>
          if recoverable e then
            (case i of
               [] \<Rightarrow> None
             | c # t \<Rightarrow>
                 if c \<noteq> ctrl then Some i
                 else (case esc t of
                   Inr (r, _) \<Rightarrow> if r \<noteq> [] \<and> length r \<le> length t then escaped_end normal ctrl esc r else None
                 | Inl _ \<Rightarrow> None))
          else None)"
  by pat_completeness auto
termination
  by (relation "measure (\<lambda>(normal, ctrl, esc, i). length i)") auto

declare escaped_end.simps [simp del]

definition c_escaped ::
  "(unit, bytes) imap_parser \<Rightarrow> char \<Rightarrow> (unit, char) imap_parser \<Rightarrow> (unit, bytes) imap_parser" where
  "c_escaped normal ctrl esc i =
     (case escaped_end normal ctrl esc i of
        Some j \<Rightarrow> Inr (j, take (length i - length j) i)
      | None \<Rightarrow> Inl Nom_Incomplete)"

lemma escaped_end_run:
  assumes "advances normal" "rest_ok esc"
  shows "escaped_run normal ctrl esc i j \<Longrightarrow> escaped_end normal ctrl esc i = Some j"
proof (induction rule: escaped_run.induct)
  case (stop c i)
  then show ?case
    by (cases "normal (c # i)") (auto simp: escaped_end.simps [of normal ctrl esc "c # i"])
next
  case (run i r s j)
  then show ?case by (simp add: escaped_end.simps [of normal ctrl esc i])
next
  case (pair i r x j)
  moreover from pair.hyps have "length r \<le> length i"
    using rest_okD [OF assms(2)] suffix_length_le by blast
  ultimately show ?case
    by (cases "normal (ctrl # i)") (auto simp: escaped_end.simps [of normal ctrl esc "ctrl # i"])
qed

lemma run_escaped_end: "escaped_end normal ctrl esc i = Some j \<Longrightarrow> escaped_run normal ctrl esc i j"
proof (induction normal ctrl esc i rule: escaped_end.induct)
  case (1 normal ctrl esc i)
  show ?case
  proof (cases "normal i")
    case (Inr a)
    with 1 show ?thesis
      by (cases a) (auto simp: escaped_end.simps [of normal ctrl esc i] split: if_splits
          intro: escaped_run.run)
  next
    case (Inl e)
    with 1 show ?thesis
      by (auto simp: escaped_end.simps [of normal ctrl esc i] split: if_splits list.split_asm
          sum.split_asm intro!: escaped_run.stop intro: escaped_run.pair)
  qed
qed

lemma c_escaped_ok: "is_escaped c_escaped"
  unfolding is_escaped_def c_escaped_def
  by (auto simp: escaped_end_run split: option.split_asm dest: run_escaped_end)

lemma c_tag_ok: "tag_like g (c_tag g)"
  by (simp add: tag_like_def c_tag_def)

lemma c_byte_ok: "byte_of P (c_byte P)"
  by (simp add: byte_of_def)

lemma c_take_while_ok: "is_take_while c_take_while"
  by (simp add: is_take_while_def c_take_while_def)

lemma c_take_while1_ok: "run1_of P (c_take_while1 P)" "is_take_while1 c_take_while1"
  by (auto simp: is_take_while1_def run1_of_def c_take_while1_def)

lemma c_take_one_ok: "is_take_one c_take_one"
  by (simp add: is_take_one_def c_take_one_def mapped_def)

lemma c_alt_ok: "is_alt c_alt"
  by (auto simp: is_alt_def c_alt_def)

lemma res_bind_Inr [simp]: "res_bind m Inr = m"
  by (cases m) simp_all

lemma c_many_ok: "is_many0 (c_many 0)" "at_least n (c_many n)" "is_many_from c_many" "is_many1 (c_many 1)"
  by (auto simp: is_many0_def at_least_def is_many_from_def is_many1_def c_many_def fun_eq_iff
      split: sum.splits elim!: sum.exhaust)

lemma c_separated_list_ok: "is_separated_list1 c_separated_list1" "is_separated_list0 c_separated_list0"
  by (simp_all add: is_separated_list1_def c_separated_list1_def is_separated_list0_def
      c_separated_list0_def)

end
