(* ===== verification/Imap_Parse_Core.thy ===== *)
theory Imap_Parse_Core
  imports Imap_Nom
begin

text \<open>
  The parsers of \<open>imap-codec/src/core.rs\<close> and \<open>extensions/utf8.rs\<close>: numbers, strings, atoms, tags. Each
  is the expression of the source over the fields of a record that stands for \<open>nom\<close>,
  \<open>abnf-core\<close> and \<open>base64\<close>; a combinator has one field for each type it is used at, and the closures
  given to it are the source's. \<open>core_nom\<close> is what is documented of the fields. Shown are that only
  valid values come out, what is read back from what the encoder wrote, and which inputs are refused.

  The slices that the source passes through \<open>from_utf8(..).unwrap()\<close> are ASCII, as the byte classes are.
\<close>

section \<open>The crates\<close>

record 'k Nom =
  n_tag :: "bytes \<Rightarrow> ('k, bytes) imap_parser"
  n_tag_no_case :: "bytes \<Rightarrow> ('k, bytes) imap_parser"
  n_take_while :: "(char \<Rightarrow> bool) \<Rightarrow> ('k, bytes) imap_parser"
  n_take_while1 :: "(char \<Rightarrow> bool) \<Rightarrow> ('k, bytes) imap_parser"
  n_take_while_1_1 :: "(char \<Rightarrow> bool) \<Rightarrow> ('k, bytes) imap_parser"
  n_take :: "u32 \<Rightarrow> ('k, bytes) imap_parser"
  n_digit1 :: "('k, bytes) imap_parser"
  n_char :: "char \<Rightarrow> ('k, char) imap_parser"
  n_one_of :: "bytes \<Rightarrow> ('k, char) imap_parser"
  n_escaped :: "('k, bytes) imap_parser \<Rightarrow> char \<Rightarrow> ('k, char) imap_parser \<Rightarrow> ('k, bytes) imap_parser"
  a_sp :: "('k, char) imap_parser"
  a_dquote :: "('k, char) imap_parser"
  a_crlf :: "('k, bytes) imap_parser"

record 'k CoreNom = "'k Nom" +
  n_map_str :: "('k, bytes) imap_parser \<Rightarrow> (bytes \<Rightarrow> bytes) \<Rightarrow> ('k, bytes) imap_parser"
  n_map_res_u32 :: "('k, bytes) imap_parser \<Rightarrow> (bytes \<Rightarrow> (ExternalError, u32) result) \<Rightarrow> ('k, u32) imap_parser"
  n_map_res_u64 :: "('k, bytes) imap_parser \<Rightarrow> (bytes \<Rightarrow> (ExternalError, u64) result) \<Rightarrow> ('k, u64) imap_parser"
  n_map_res_nz :: "('k, u32) imap_parser \<Rightarrow> (u32 \<Rightarrow> (ExternalError, u32) result) \<Rightarrow> ('k, u32) imap_parser"
  n_map_res_str :: "('k, bytes) imap_parser \<Rightarrow> (bytes \<Rightarrow> (ExternalError, bytes) result) \<Rightarrow> ('k, bytes) imap_parser"
  n_map_quoted :: "('k, Quoted) imap_parser \<Rightarrow> (Quoted \<Rightarrow> IString) \<Rightarrow> ('k, IString) imap_parser"
  n_map_quoted_utf8 :: "('k, QuotedUtf8) imap_parser \<Rightarrow> (QuotedUtf8 \<Rightarrow> IString) \<Rightarrow> ('k, IString) imap_parser"
  n_map_literal :: "('k, Literal) imap_parser \<Rightarrow> (Literal \<Rightarrow> IString) \<Rightarrow> ('k, IString) imap_parser"
  n_alt_istring :: "('k, IString) imap_parser list \<Rightarrow> ('k, IString) imap_parser"
  n_tuple_quoted :: "('k, char) imap_parser \<times> ('k, bytes) imap_parser \<times> ('k, char) imap_parser \<Rightarrow>
    ('k, char \<times> bytes \<times> char) imap_parser"
  n_map_byte :: "('k, bytes) imap_parser \<Rightarrow> (bytes \<Rightarrow> nat) \<Rightarrow> ('k, nat) imap_parser"
  n_tuple_special :: "('k, bytes) imap_parser \<times> ('k, bytes) imap_parser \<Rightarrow> ('k, bytes \<times> bytes) imap_parser"
  n_map_special :: "('k, bytes \<times> bytes) imap_parser \<Rightarrow> (bytes \<times> bytes \<Rightarrow> nat) \<Rightarrow> ('k, nat) imap_parser"
  n_alt_byte :: "('k, nat) imap_parser list \<Rightarrow> ('k, nat) imap_parser"
  n_map_quoted_char :: "('k, nat) imap_parser \<Rightarrow> (nat \<Rightarrow> QuotedChar) \<Rightarrow> ('k, QuotedChar) imap_parser"
  n_opt_char :: "('k, char) imap_parser \<Rightarrow> ('k, char option) imap_parser"
  n_map_mode :: "('k, char option) imap_parser \<Rightarrow> (char option \<Rightarrow> LiteralMode) \<Rightarrow> ('k, LiteralMode) imap_parser"
  n_tuple_length :: "('k, u32) imap_parser \<times> ('k, LiteralMode) imap_parser \<Rightarrow> ('k, u32 \<times> LiteralMode) imap_parser"
  n_delimited_length :: "('k, bytes) imap_parser \<Rightarrow> ('k, u32 \<times> LiteralMode) imap_parser \<Rightarrow>
    ('k, bytes) imap_parser \<Rightarrow> ('k, u32 \<times> LiteralMode) imap_parser"
  n_terminated_length :: "('k, u32 \<times> LiteralMode) imap_parser \<Rightarrow> ('k, bytes) imap_parser \<Rightarrow>
    ('k, u32 \<times> LiteralMode) imap_parser"
  n_map_atom_ext :: "('k, bytes) imap_parser \<Rightarrow> (bytes \<Rightarrow> AString) \<Rightarrow> ('k, AString) imap_parser"
  n_map_string :: "('k, IString) imap_parser \<Rightarrow> (IString \<Rightarrow> AString) \<Rightarrow> ('k, AString) imap_parser"
  n_alt_astring :: "('k, AString) imap_parser list \<Rightarrow> ('k, AString) imap_parser"
  n_map_some :: "('k, IString) imap_parser \<Rightarrow> (IString \<Rightarrow> NString) \<Rightarrow> ('k, NString) imap_parser"
  n_map_nil :: "('k, bytes) imap_parser \<Rightarrow> (bytes \<Rightarrow> NString) \<Rightarrow> ('k, NString) imap_parser"
  n_alt_nstring :: "('k, NString) imap_parser list \<Rightarrow> ('k, NString) imap_parser"
  n_map_text :: "('k, bytes) imap_parser \<Rightarrow> (bytes \<Rightarrow> Text) \<Rightarrow> ('k, Text) imap_parser"
  n_alt_bytes :: "('k, bytes) imap_parser list \<Rightarrow> ('k, bytes) imap_parser"
  n_opt_bytes :: "('k, bytes) imap_parser \<Rightarrow> ('k, bytes option) imap_parser"
  n_tuple_base64 :: "('k, bytes) imap_parser \<times> ('k, bytes option) imap_parser \<Rightarrow>
    ('k, bytes \<times> bytes option) imap_parser"
  n_recognize_base64 :: "('k, bytes \<times> bytes option) imap_parser \<Rightarrow> ('k, bytes) imap_parser"
  b_decode :: "bytes \<Rightarrow> (ExternalError, bytes) result"
  n_map_charset_atom :: "('k, Atom) imap_parser \<Rightarrow> (Atom \<Rightarrow> Charset) \<Rightarrow> ('k, Charset) imap_parser"
  n_map_charset_quoted :: "('k, Quoted) imap_parser \<Rightarrow> (Quoted \<Rightarrow> Charset) \<Rightarrow> ('k, Charset) imap_parser"
  n_alt_charset :: "('k, Charset) imap_parser list \<Rightarrow> ('k, Charset) imap_parser"
  n_map_tag :: "('k, bytes) imap_parser \<Rightarrow> (bytes \<Rightarrow> Tag) \<Rightarrow> ('k, Tag) imap_parser"

definition bytes_nom :: "('k, 'z) Nom_scheme \<Rightarrow> bool" where
  "bytes_nom N \<longleftrightarrow> is_tag (n_tag N) \<and> is_tag_no_case (n_tag_no_case N) \<and>
     is_take_while (n_take_while N) \<and> is_take_while1 (n_take_while1 N) \<and>
     is_take_one (n_take_while_1_1 N) \<and> takes_bytes (n_take N) \<and> run1_of is_digit (n_digit1 N) \<and>
     (\<forall>c. byte_of (\<lambda>d. d = c) (n_char N c)) \<and> (\<forall>s. byte_of (\<lambda>d. d \<in> set s) (n_one_of N s)) \<and>
     is_escaped (n_escaped N) \<and> byte_of (\<lambda>d. d = sp) (a_sp N) \<and>
     byte_of (\<lambda>d. d = dquote) (a_dquote N) \<and> a_crlf N = n_tag N crlf"

definition core_nom :: "('k, 'z) CoreNom_scheme \<Rightarrow> bool" where
  "core_nom N \<longleftrightarrow> bytes_nom N \<and> is_map (n_map_str N) \<and> is_map_res (n_map_res_u32 N) \<and>
     is_map_res (n_map_res_u64 N) \<and> is_map_res (n_map_res_nz N) \<and> is_map_res (n_map_res_str N) \<and>
     is_map (n_map_quoted N) \<and> is_map (n_map_quoted_utf8 N) \<and> is_map (n_map_literal N) \<and>
     is_alt (n_alt_istring N) \<and> is_tuple3 (n_tuple_quoted N) \<and> is_map (n_map_byte N) \<and>
     is_tuple2 (n_tuple_special N) \<and> is_map (n_map_special N) \<and> is_alt (n_alt_byte N) \<and>
     is_map (n_map_quoted_char N) \<and> is_opt (n_opt_char N) \<and> is_map (n_map_mode N) \<and>
     is_tuple2 (n_tuple_length N) \<and> is_delimited (n_delimited_length N) \<and>
     is_terminated (n_terminated_length N) \<and> is_map (n_map_atom_ext N) \<and> is_map (n_map_string N) \<and>
     is_alt (n_alt_astring N) \<and> is_map (n_map_some N) \<and> is_map (n_map_nil N) \<and>
     is_alt (n_alt_nstring N) \<and> is_map (n_map_text N) \<and> is_alt (n_alt_bytes N) \<and>
     is_opt (n_opt_bytes N) \<and> is_tuple2 (n_tuple_base64 N) \<and> is_recognize (n_recognize_base64 N) \<and>
     is_map (n_map_charset_atom N) \<and> is_map (n_map_charset_quoted N) \<and> is_alt (n_alt_charset N) \<and>
     is_map (n_map_tag N)"

section \<open>Numbers\<close>

text \<open>\<open>str::parse\<close> and \<open>NonZeroU32::try_from\<close> are the standard library's.\<close>

definition parse_u32 :: "bytes \<Rightarrow> (ExternalError, u32) result" where
  "parse_u32 s = (case parse_unsigned (2 ^ 32) s of
     Some n \<Rightarrow> Inr (of_nat n) | None \<Rightarrow> Inl ParseIntError)"

definition parse_u64 :: "bytes \<Rightarrow> (ExternalError, u64) result" where
  "parse_u64 s = (case parse_unsigned (2 ^ 64) s of
     Some n \<Rightarrow> Inr (of_nat n) | None \<Rightarrow> Inl ParseIntError)"

definition nonzero_u32 :: "u32 \<Rightarrow> (ExternalError, u32) result" where
  "nonzero_u32 n = (if n = 0 then Inl IntRangeError else Inr n)"

definition number_parser :: "('k, 'z) CoreNom_scheme \<Rightarrow> ('k, u32) imap_parser" where
  "number_parser N = n_map_res_u32 N (n_map_str N (n_digit1 N) (\<lambda>val. val)) parse_u32"

definition number64_parser :: "('k, 'z) CoreNom_scheme \<Rightarrow> ('k, u64) imap_parser" where
  "number64_parser N = n_map_res_u64 N (n_map_str N (n_digit1 N) (\<lambda>val. val)) parse_u64"

definition nz_number_parser :: "('k, 'z) CoreNom_scheme \<Rightarrow> ('k, u32) imap_parser" where
  "nz_number_parser N = n_map_res_nz N (number_parser N) nonzero_u32"

section \<open>Strings\<close>

definition quoted_parser :: "('k, 'z) CoreNom_scheme \<Rightarrow> ('k, Quoted) imap_parser" where
  "quoted_parser N input =
     res_bind (n_tuple_quoted N (
         a_dquote N,
         n_map_str N
           (n_escaped N (n_take_while1 N is_any_text_char_except_quoted_specials) backslash
             (n_one_of N [backslash, dquote]))
           (\<lambda>val. val),
         a_dquote N) input)
       (\<lambda>(rest, _, quoted, _). Inr (rest, Quoted (unescape_quoted quoted)))"

text \<open>\<open>from_utf8\<close> of the standard library: the well-formed sequences of RFC 3629.\<close>

definition utf8_cont :: "char \<Rightarrow> bool" where
  "utf8_cont c \<longleftrightarrow> 0x80 \<le> code c \<and> code c \<le> 0xBF"

definition utf8_lead2 :: "char \<Rightarrow> bool" where
  "utf8_lead2 b \<longleftrightarrow> 0xC2 \<le> code b \<and> code b \<le> 0xDF"

definition utf8_lead3 :: "char \<Rightarrow> bool" where
  "utf8_lead3 b \<longleftrightarrow> 0xE0 \<le> code b \<and> code b \<le> 0xEF"

fun is_utf8 :: "bytes \<Rightarrow> bool" where
  "is_utf8 [] \<longleftrightarrow> True"
| "is_utf8 (b # s) \<longleftrightarrow>
     (if code b < 0x80 then is_utf8 s
      else case s of
        [] \<Rightarrow> False
      | c # s \<Rightarrow>
          if utf8_lead2 b then utf8_cont c \<and> is_utf8 s
          else case s of
            [] \<Rightarrow> False
          | d # s \<Rightarrow>
              if utf8_lead3 b then
                utf8_cont c \<and> (code b = 0xE0 \<longrightarrow> 0xA0 \<le> code c) \<and> (code b = 0xED \<longrightarrow> code c \<le> 0x9F) \<and>
                utf8_cont d \<and> is_utf8 s
              else case s of
                [] \<Rightarrow> False
              | e # s \<Rightarrow>
                  0xF0 \<le> code b \<and> code b \<le> 0xF4 \<and>
                  utf8_cont c \<and> (code b = 0xF0 \<longrightarrow> 0x90 \<le> code c) \<and> (code b = 0xF4 \<longrightarrow> code c \<le> 0x8F) \<and>
                  utf8_cont d \<and> utf8_cont e \<and> is_utf8 s)"

definition from_utf8 :: "bytes \<Rightarrow> (ExternalError, bytes) result" where
  "from_utf8 v = (if is_utf8 v then Inr v else Inl Utf8Error)"

definition quoted_utf8_parser ::
  "('k, 'z) CoreNom_scheme \<Rightarrow> ('k, QuotedUtf8) imap_parser" where
  "quoted_utf8_parser N input =
     res_bind (n_tuple_quoted N (
         a_dquote N,
         n_map_res_str N
           (n_escaped N (n_take_while1 N (\<lambda>c. \<not> is_quoted_specials c)) backslash
             (n_one_of N [backslash, dquote]))
           from_utf8,
         a_dquote N) input)
       (\<lambda>(rest, _, quoted_utf8, _). Inr (rest, QuotedUtf8 (unescape_quoted quoted_utf8)))"

definition quoted_char_parser :: "('k, 'z) CoreNom_scheme \<Rightarrow> ('k, QuotedChar) imap_parser" where
  "quoted_char_parser N =
     n_map_quoted_char N
       (n_alt_byte N [
          n_map_byte N (n_take_while_1_1 N is_any_text_char_except_quoted_specials)
            (\<lambda>bytes. code (hd bytes)),
          n_map_special N
            (n_tuple_special N (n_tag N [backslash], n_take_while_1_1 N is_quoted_specials))
            (\<lambda>(_, bytes). code (hd bytes))])
       QuotedChar"

definition literal_header :: "('k, 'z) CoreNom_scheme \<Rightarrow> ('k, u32 \<times> LiteralMode) imap_parser" where
  "literal_header N =
     n_terminated_length N
       (n_delimited_length N
          (n_tag N ''{'')
          (n_tuple_length N (
             number_parser N,
             n_map_mode N (n_opt_char N (n_char N CHR ''+''))
               (\<lambda>i. case i of Some _ \<Rightarrow> NonSync | None \<Rightarrow> Sync)))
          (n_tag N ''}''))
       (a_crlf N)"

abbreviation literal_nom :: "('k, 'z) CoreNom_scheme \<Rightarrow> ('k, Literal) imap_parser" where
  "literal_nom N \<equiv> literal_parser (literal_header N) (n_take N)"

definition string_parser :: "('k, 'z) CoreNom_scheme \<Rightarrow> ('k, IString) imap_parser" where
  "string_parser N =
     n_alt_istring N [
       n_map_quoted N (quoted_parser N) IString_Quoted,
       n_map_quoted_utf8 N (quoted_utf8_parser N) IString_QuotedUtf8,
       n_map_literal N (literal_nom N) IString_Literal]"

definition astring_parser :: "('k, 'z) CoreNom_scheme \<Rightarrow> ('k, AString) imap_parser" where
  "astring_parser N =
     n_alt_astring N [
       n_map_atom_ext N (n_take_while1 N is_astring_char) (\<lambda>bytes. AString_Atom (AtomExt bytes)),
       n_map_string N (string_parser N) AString_String]"

definition atom_parser :: "('k, 'z) Nom_scheme \<Rightarrow> ('k, Atom) imap_parser" where
  "atom_parser N input =
     res_bind (n_take_while1 N is_atom_char input) (\<lambda>(rest, parsed_atom). Inr (rest, Atom parsed_atom))"

definition nil_parser :: "('k, 'z) Nom_scheme \<Rightarrow> ('k, bytes) imap_parser" where
  "nil_parser N = n_tag_no_case N ''NIL''"

definition nstring_parser :: "('k, 'z) CoreNom_scheme \<Rightarrow> ('k, NString) imap_parser" where
  "nstring_parser N =
     n_alt_nstring N [
       n_map_some N (string_parser N) (\<lambda>item. NString (Some item)),
       n_map_nil N (nil_parser N) (\<lambda>_. NString None)]"

definition text_parser :: "('k, 'z) CoreNom_scheme \<Rightarrow> ('k, Text) imap_parser" where
  "text_parser N = n_map_text N (n_take_while1 N is_text_char) Text"

definition base64_char :: "char \<Rightarrow> bool" where
  "base64_char i \<longleftrightarrow> 65 \<le> code i \<and> code i \<le> 90 \<or> 97 \<le> code i \<and> code i \<le> 122 \<or> is_digit i \<or>
     i = CHR ''+'' \<or> i = CHR ''/''"

definition base64_parser :: "('k, 'z) CoreNom_scheme \<Rightarrow> ('k, bytes) imap_parser" where
  "base64_parser N =
     n_map_res_str N
       (n_recognize_base64 N (n_tuple_base64 N (
          n_take_while N base64_char,
          n_opt_bytes N (n_alt_bytes N [n_tag N ''=='', n_tag N ''='']))))
       (b_decode N)"

definition charset_parser :: "('k, 'z) CoreNom_scheme \<Rightarrow> ('k, Charset) imap_parser" where
  "charset_parser N =
     n_alt_charset N [
       n_map_charset_atom N (atom_parser N) Charset_Atom,
       n_map_charset_quoted N (quoted_parser N) Charset_Quoted]"

definition tag_imap_parser :: "('k, 'z) CoreNom_scheme \<Rightarrow> ('k, Tag) imap_parser" where
  "tag_imap_parser N = n_map_tag N (n_take_while1 N (\<lambda>b. is_astring_char b \<and> b \<noteq> CHR ''+'')) Tag"

section \<open>The grammar over documented combinators\<close>

text \<open>What a string has to satisfy to be read back, what may follow it (a literal at the very end of the
  buffer counts as not sent yet), and how it is read back.\<close>

fun readable_istring :: "IString \<Rightarrow> bool" where
  "readable_istring (IString_Literal l) \<longleftrightarrow> wf_literal l \<and> short (data l)"
| "readable_istring (IString_Quoted q) \<longleftrightarrow> wf_quoted q"
| "readable_istring (IString_QuotedUtf8 q) \<longleftrightarrow> is_utf8 (quoted_utf8_inner q)"

fun istring_rest :: "IString \<Rightarrow> bytes \<Rightarrow> bool" where
  "istring_rest (IString_Literal l) rest \<longleftrightarrow> data l @ rest \<noteq> []"
| "istring_rest _ rest \<longleftrightarrow> True"

fun reread_istring :: "IString \<Rightarrow> IString" where
  "reread_istring (IString_QuotedUtf8 q) =
     (if quoted.valid (quoted_utf8_inner q) then IString_Quoted (Quoted (quoted_utf8_inner q))
      else IString_QuotedUtf8 q)"
| "reread_istring s = s"

fun readable_astring :: "AString \<Rightarrow> bool" where
  "readable_astring (AString_Atom a) \<longleftrightarrow> wf_atom_ext a"
| "readable_astring (AString_String s) \<longleftrightarrow> readable_istring s"

fun astring_rest :: "AString \<Rightarrow> bytes \<Rightarrow> bool" where
  "astring_rest (AString_Atom a) rest \<longleftrightarrow> ends is_astring_char rest"
| "astring_rest (AString_String s) rest \<longleftrightarrow> istring_rest s rest"

fun reread_astring :: "AString \<Rightarrow> AString" where
  "reread_astring (AString_Atom a) = AString_Atom a"
| "reread_astring (AString_String s) = AString_String (reread_istring s)"

definition readable_nstring :: "NString \<Rightarrow> bool" where
  "readable_nstring n \<longleftrightarrow> (case nstring_option n of None \<Rightarrow> True | Some s \<Rightarrow> readable_istring s)"

definition nstring_rest :: "NString \<Rightarrow> bytes \<Rightarrow> bool" where
  "nstring_rest n rest \<longleftrightarrow> (case nstring_option n of None \<Rightarrow> True | Some s \<Rightarrow> istring_rest s rest)"

definition reread_nstring :: "NString \<Rightarrow> NString" where
  "reread_nstring n = NString (map_option reread_istring (nstring_option n))"

lemma unat_u64_bound: "unat (n :: u64) < 2 ^ 64"
proof -
  have "unat n < 2 ^ LENGTH(64)" by (rule unsigned_less)
  then show ?thesis by simp
qed

text \<open>Strings can be written anywhere in a message.\<close>

lemma string_writes [simp, intro]:
  "writes (IString_encode s) (flat (IString_encode s))" "writes (AString_encode a) (flat (AString_encode a))"
  "writes (NString_encode n) (flat (NString_encode n))" "writes (Mailbox_encode m) (flat (Mailbox_encode m))"
proof -
  show s: "writes (IString_encode s) (flat (IString_encode s))" for s
    using writes_flat [OF literal_writes] literal_writes
    by (cases s) (simp_all add: Quoted_encode_def QuotedUtf8_encode_def)
  show a: "writes (AString_encode a) (flat (AString_encode a))" for a
    using s by (cases a) (simp_all add: AtomExt_encode_def)
  show "writes (NString_encode n) (flat (NString_encode n))"
    using s by (cases n rule: NString_encode.cases) simp_all
  show "writes (Mailbox_encode m) (flat (Mailbox_encode m))"
    using a by (cases m) (simp_all add: MailboxOther_encode_def)
qed

text \<open>An escaped string is one run of \<open>escaped\<close>, up to the double quote.\<close>

lemma escape_quoted_append: "escape_quoted (s @ t) = escape_quoted s @ escape_quoted t"
  by (simp add: escape_quoted_spec)

lemma escape_quoted_plain: "list_all P s \<Longrightarrow> (\<And>c. P c \<Longrightarrow> \<not> is_quoted_specials c) \<Longrightarrow> escape_quoted s = s"
  by (induction s) (simp_all add: quoted_char_bytes_def)

lemma plain_or_special:
  "is_any_text_char_except_quoted_specials c \<or> is_quoted_specials c \<longleftrightarrow> is_text_char c"
  by (auto simp: is_any_text_char_except_quoted_specials_def is_quoted_specials_def is_text_char_def)

lemma plain_not_special: "is_any_text_char_except_quoted_specials c \<Longrightarrow> \<not> is_quoted_specials c"
  by (simp add: is_any_text_char_except_quoted_specials_def)

lemma tag_char_class: "(\<lambda>b. is_astring_char b \<and> b \<noteq> CHR ''+'') = is_tag_char"
  by (auto simp: is_tag_char_def)

lemma dquote_not_plain [simp]: "\<not> is_any_text_char_except_quoted_specials dquote"
  by (simp add: is_any_text_char_except_quoted_specials_def is_quoted_specials_def)

lemma ends_escaped:
  assumes "\<And>c. P c \<Longrightarrow> \<not> is_quoted_specials c" "v = [] \<or> \<not> P (hd v)"
    "list_all (\<lambda>c. P c \<or> is_quoted_specials c) v" "ends P z"
  shows "ends P (escape_quoted v @ z)"
  using assms by (cases v) (auto simp: quoted_char_bytes_def is_quoted_specials_def)

lemma escaped_run_quoted:
  assumes run: "run1_of P normal" and P: "\<And>c. P c \<Longrightarrow> \<not> is_quoted_specials c"
    and esc: "byte_of (\<lambda>d. d \<in> set [backslash, dquote]) esc"
    and z: "ends P z" "hd z \<noteq> backslash"
  shows "list_all (\<lambda>c. P c \<or> is_quoted_specials c) s \<Longrightarrow>
    escaped_run normal backslash esc (escape_quoted s @ z) z"
proof (induction "length s" arbitrary: s rule: less_induct)
  case less
  have special: "\<not> P backslash" using P by (auto simp: is_quoted_specials_def)
  show ?case
  proof (cases s)
    case Nil
    obtain d y where "z = d # y" "\<not> P d" "d \<noteq> backslash" using z by (cases z) auto
    with Nil show ?thesis using escaped_run.stop [of normal d y backslash esc] run1_error [OF run] by simp
  next
    case (Cons c t)
    show ?thesis
    proof (cases "P c")
      case True
      define u v where "u = takeWhile P s" and "v = dropWhile P s"
      have s: "s = u @ v" "u \<noteq> []" "list_all P u" "v = [] \<or> \<not> P (hd v)"
        using Cons True hd_dropWhile [of P s] by (auto simp: u_def v_def list_all_iff dest: set_takeWhileD)
      have v: "list_all (\<lambda>c. P c \<or> is_quoted_specials c) v" using less.prems s(1) by simp
      have "normal (u @ escape_quoted v @ z) = Inr (escape_quoted v @ z, u)"
        by (intro run1_ok [OF run] s ends_escaped P v z)
      moreover have "escaped_run normal backslash esc (escape_quoted v @ z) z"
        using s v by (intro less.hyps) simp_all
      moreover have "escape_quoted s = u @ escape_quoted v"
        using s P by (simp add: escape_quoted_append escape_quoted_plain [of P])
      ultimately show ?thesis using s(2) z(1) by (auto intro: escaped_run.run)
    next
      case False
      with less.prems Cons have c: "is_quoted_specials c" by simp
      have "escaped_run normal backslash esc (escape_quoted t @ z) z"
        using less.prems Cons by (intro less.hyps) simp_all
      moreover have "c \<in> set [backslash, dquote]" using c by (auto simp: is_quoted_specials_def)
      then have "esc (c # escape_quoted t @ z) = Inr (escape_quoted t @ z, c)"
        using esc unfolding byte_of_def by blast
      ultimately have "escaped_run normal backslash esc (backslash # c # escape_quoted t @ z) z"
        using z(1) by (intro escaped_run.pair run1_error [OF run special]) auto
      then show ?thesis using c Cons by (simp add: quoted_char_bytes_def)
    qed
  qed
qed

lemma escaped_run_escape:
  assumes run: "run1_of P normal" and P: "\<And>c. P c \<Longrightarrow> \<not> is_quoted_specials c"
    and esc: "byte_of (\<lambda>d. d \<in> set [backslash, dquote]) esc"
  shows "escaped_run normal backslash esc i j \<Longrightarrow>
    \<exists>u. i = escape_quoted u @ j \<and> list_all (\<lambda>c. P c \<or> is_quoted_specials c) u"
proof (induction rule: escaped_run.induct)
  case (stop c i)
  then show ?case by (intro exI [of _ "[]"]) simp
next
  case (run i r s j)
  then obtain u where u: "r = escape_quoted u @ j" "list_all (\<lambda>c. P c \<or> is_quoted_specials c) u"
    by blast
  have s: "list_all P s" "i = s @ r" using run1_result [OF \<open>run1_of P normal\<close> run.hyps(1)] by blast+
  then show ?case
    using u P by (intro exI [of _ "s @ u"])
      (auto simp: escape_quoted_append escape_quoted_plain [of P] list_all_iff)
next
  case (pair i r x j)
  then obtain u where u: "r = escape_quoted u @ j" "list_all (\<lambda>c. P c \<or> is_quoted_specials c) u"
    by blast
  obtain c k where i: "i = c # k" using esc pair.hyps(2) by (cases i) (auto simp: byte_of_def)
  have "c \<in> set [backslash, dquote]"
    using esc pair.hyps(2) i error_not_ok unfolding byte_of_def by blast
  moreover from this have "i = c # r"
    using esc pair.hyps(2) i unfolding byte_of_def by (metis Inr_inject Pair_inject)
  ultimately show ?case
    using u by (intro exI [of _ "c # u"]) (auto simp: quoted_char_bytes_def is_quoted_specials_def)
qed

text \<open>Escaping keeps UTF-8.\<close>

lemma quoted_char_bytes_high: "0x80 \<le> code c \<Longrightarrow> quoted_char_bytes c = [c]"
  by (auto simp: quoted_char_bytes_def is_quoted_specials_def)

lemma quoted_char_bytes_cont [simp]: "utf8_cont c \<Longrightarrow> quoted_char_bytes c = [c]"
  by (simp add: quoted_char_bytes_high utf8_cont_def)

lemma is_utf8_escape: "is_utf8 s \<Longrightarrow> is_utf8 (escape_quoted s)"
proof (induction "length s" arbitrary: s rule: less_induct)
  case less
  have IH: "is_utf8 (escape_quoted t)" if "is_utf8 t" "length t < length s" for t
    using less.hyps that by blast
  show ?case
  proof (cases s)
    case (Cons b t)
    show ?thesis
    proof (cases "code b < 0x80")
      case True
      with less.prems Cons IH [of t] show ?thesis by (auto simp: quoted_char_bytes_def)
    next
      case high: False
      then have b: "quoted_char_bytes b = [b]" by (simp add: quoted_char_bytes_high)
      from high less.prems Cons obtain c t2 where t: "t = c # t2" by (cases t) simp_all
      show ?thesis
      proof (cases "utf8_lead2 b")
        case True
        with high less.prems Cons t IH [of t2] b show ?thesis by simp
      next
        case not2: False
        from high not2 less.prems Cons t obtain d t3 where t2: "t2 = d # t3" by (cases t2) simp_all
        show ?thesis
        proof (cases "utf8_lead3 b")
          case True
          with high not2 less.prems Cons t t2 IH [of t3] b show ?thesis by simp
        next
          case not3: False
          from high not2 not3 less.prems Cons t t2 obtain e t4 where "t3 = e # t4"
            by (cases t3) (simp_all split: if_splits)
          with high not2 not3 less.prems Cons t t2 IH [of t4] b show ?thesis by simp
        qed
      qed
    qed
  qed simp
qed

lemma literal_parser_advances:
  assumes "advances header" "\<And>n. rest_ok (take_bytes n)"
  shows "advances (literal_parser header take_bytes)"
proof -
  have "strict_suffix r i" if ok: "literal_parser header take_bytes i = Inr (r, l)" for i r l
  proof -
    obtain j len m d where "header i = Inr (j, len, m)" "take_bytes len j = Inr (r, d)"
      using ok by (auto simp: literal_parser_def split: if_splits)
    then show ?thesis
      using advancesD [OF assms(1)] rest_okD [OF assms(2)] by (meson suffix_order.le_less_trans)
  qed
  then show ?thesis by (simp add: advances_def)
qed

locale core_grammar =
  fixes N :: "('k, 'z) CoreNom_scheme"
  assumes core: "core_nom N"
begin

lemma bytes: "bytes_nom N"
  using core by (simp add: core_nom_def)

lemmas core_facts [simp] = core [unfolded core_nom_def, THEN conjunct2]

lemma bytes_facts [simp]:
  "is_tag (n_tag N)" "is_tag_no_case (n_tag_no_case N)" "is_take_while (n_take_while N)"
  "run1_of P (n_take_while1 N P)" "is_take_one (n_take_while_1_1 N)" "takes_bytes (n_take N)"
  "run1_of is_digit (n_digit1 N)" "is_escaped (n_escaped N)" "a_crlf N = n_tag N crlf"
  using bytes by (simp_all add: bytes_nom_def is_take_while1_def)

lemma byte_facts:
  "byte_of (\<lambda>d. d = c) (n_char N c)" "byte_of (\<lambda>d. d \<in> set s) (n_one_of N s)"
  "byte_of (\<lambda>d. d = sp) (a_sp N)" "byte_of (\<lambda>d. d = dquote) (a_dquote N)"
  using bytes by (simp_all add: bytes_nom_def)

lemma bytes_advance [simp]:
  "t \<noteq> [] \<Longrightarrow> advances (n_tag N t)" "t \<noteq> [] \<Longrightarrow> advances (n_tag_no_case N t)"
  "advances (n_take_while1 N P)" "advances (n_take_while_1_1 N P)" "advances (n_digit1 N)"
  "advances (n_char N c)" "advances (n_one_of N s)" "advances (a_sp N)" "advances (a_dquote N)"
  "rest_ok (n_take_while N P)" "rest_ok (n_take N n)"
  using rest_take_while [OF bytes_facts(3)] rest_take [OF bytes_facts(6)]
  by (auto intro: advances_tag [OF bytes_facts(1)] advances_tag [OF bytes_facts(2)]
      advances_run1 [OF bytes_facts(4)] advances_take_one [OF bytes_facts(5)]
      advances_run1 [OF bytes_facts(7)] byte_facts [THEN advances_byte] simp del: bytes_facts)

text \<open>What the parsers of bytes do, as rewrite rules.\<close>

lemma byte_simps [simp]:
  "n_char N c (c # i) = Inr (i, c)" "d \<noteq> c \<Longrightarrow> is_error (n_char N c (d # i))"
  "d \<in> set s \<Longrightarrow> n_one_of N s (d # i) = Inr (i, d)" "d \<notin> set s \<Longrightarrow> is_error (n_one_of N s (d # i))"
  "a_sp N (sp # i) = Inr (i, sp)" "d \<noteq> sp \<Longrightarrow> is_error (a_sp N (d # i))"
  "a_dquote N (dquote # i) = Inr (i, dquote)" "d \<noteq> dquote \<Longrightarrow> is_error (a_dquote N (d # i))"
  using byte_facts by (simp_all add: byte_of_def)

lemma run_simps [simp]:
  "s \<noteq> [] \<Longrightarrow> list_all P s \<Longrightarrow> ends P r \<Longrightarrow> n_take_while1 N P (s @ r) = Inr (r, s)"
  "\<not> P c \<Longrightarrow> is_error (n_take_while1 N P (c # i))"
  "s \<noteq> [] \<Longrightarrow> list_all is_digit s \<Longrightarrow> ends is_digit r \<Longrightarrow> n_digit1 N (s @ r) = Inr (r, s)"
  "\<not> is_digit c \<Longrightarrow> is_error (n_digit1 N (c # i))"
  "P c \<Longrightarrow> n_take_while_1_1 N P (c # i) = Inr (i, [c])"
  "\<not> P c \<Longrightarrow> is_error (n_take_while_1_1 N P (c # i))"
  using run1_ok [OF bytes_facts(4)] run1_ok [OF bytes_facts(7)] run1_error [OF bytes_facts(4)]
    run1_error [OF bytes_facts(7)] bytes_facts(5) by (simp_all add: is_take_one_def)

lemma tag_simps [simp]:
  "match_tag (\<lambda>c. c) t i = Found s r \<Longrightarrow> n_tag N t i = Inr (r, s)"
  "match_tag (\<lambda>c. c) t i = Different \<Longrightarrow> is_error (n_tag N t i)"
  "match_tag ascii_lower t i = Found s r \<Longrightarrow> n_tag_no_case N t i = Inr (r, s)"
  "match_tag ascii_lower t i = Different \<Longrightarrow> is_error (n_tag_no_case N t i)"
  using bytes_facts(1,2) by (simp_all add: tag_like_def)

lemmas choice_simps [simp] = core [unfolded core_nom_def is_alt_def, THEN conjunct2]

text \<open>Every parser returns a part of its input and, but for \<open>base64\<close>, takes at least one byte.\<close>

lemma number_advances [simp]: "advances (number_parser N)" "advances (number64_parser N)"
  "advances (nz_number_parser N)"
  by (simp_all add: number_parser_def number64_parser_def nz_number_parser_def rest_rules)

lemma quoted_advances [simp]: "advances (quoted_parser N)" "advances (quoted_utf8_parser N)"
  unfolding quoted_parser_def quoted_utf8_parser_def
  by (auto intro!: rest_bind(2) simp: rest_rules rest_escaped)

lemma quoted_char_advances [simp]: "advances (quoted_char_parser N)"
  by (simp add: quoted_char_parser_def rest_rules rest_alt)

lemma literal_header_advances [simp]: "advances (literal_header N)"
  by (simp add: literal_header_def rest_rules)

lemma literal_advances [simp]: "advances (literal_nom N)"
  by (simp add: literal_parser_advances)

lemma string_advances [simp]: "advances (string_parser N)"
  by (simp add: string_parser_def rest_rules rest_alt)

lemma atom_advances [simp]: "advances (atom_parser N)" "advances (text_parser N)"
    "advances (nil_parser N)" "advances (tag_imap_parser N)"
  unfolding atom_parser_def text_parser_def nil_parser_def tag_imap_parser_def
  by (auto intro!: rest_bind(2) simp: rest_rules)

lemma composed_advances [simp]: "advances (astring_parser N)" "advances (nstring_parser N)"
    "advances (charset_parser N)" "rest_ok (base64_parser N)"
  by (simp_all add: astring_parser_def nstring_parser_def charset_parser_def base64_parser_def
      rest_rules rest_alt)

text \<open>Numbers.\<close>

lemma number_ok [simp]: "ends is_digit r \<Longrightarrow> number_parser N (dec (unat n) @ r) = Inr (r, n)"
  by (simp add: number_parser_def nom_apply dec_digits parse_u32_def unat_u32_bound [simplified])

lemma number64_ok [simp]: "ends is_digit r \<Longrightarrow> number64_parser N (dec (unat n) @ r) = Inr (r, n)"
  by (simp add: number64_parser_def nom_apply dec_digits parse_u64_def unat_u64_bound [simplified])

lemma nz_number_ok [simp]:
  "n \<noteq> 0 \<Longrightarrow> ends is_digit r \<Longrightarrow> nz_number_parser N (dec (unat n) @ r) = Inr (r, n)"
  by (simp add: nz_number_parser_def nom_apply nonzero_u32_def)

lemma number_error [simp]: "\<not> is_digit c \<Longrightarrow> is_error (number_parser N (c # i))"
    "\<not> is_digit c \<Longrightarrow> is_error (nz_number_parser N (c # i))"
  by (simp_all add: number_parser_def nz_number_parser_def nom_apply)

text \<open>Quoted strings.\<close>

lemma escaped_quoted:
  assumes "\<And>c. P c \<Longrightarrow> \<not> is_quoted_specials c" "list_all (\<lambda>c. P c \<or> is_quoted_specials c) s"
    "ends P z" "hd z \<noteq> backslash"
  shows "n_escaped N (n_take_while1 N P) backslash (n_one_of N [backslash, dquote])
    (escape_quoted s @ z) = Inr (z, escape_quoted s)"
  by (rule escaped_ok [OF bytes_facts(8)])
     (simp_all add: rest_rules escaped_run_quoted [OF bytes_facts(4) _ byte_facts(2)] assms)

lemma quoted_ok [simp]:
  assumes "quoted.valid s"
  shows "quoted_parser N (dquote # escape_quoted s @ dquote # r) = Inr (r, Quoted s)"
proof -
  let ?P = is_any_text_char_except_quoted_specials
  have "n_escaped N (n_take_while1 N ?P) backslash (n_one_of N [backslash, dquote])
      (escape_quoted s @ dquote # r) = Inr (dquote # r, escape_quoted s)"
    using assms plain_not_special
    by (intro escaped_quoted) (auto simp: plain_or_special quoted.valid_def)
  then show ?thesis by (simp add: quoted_parser_def nom_apply unescape_escape)
qed

text \<open>\<open>quoted\<close> refuses what \<open>quoted_utf8\<close> is for.\<close>

lemma quoted_not_plain:
  assumes "\<not> quoted.valid s"
  shows "is_error (quoted_parser N (dquote # escape_quoted s @ dquote # r))"
proof -
  let ?P = is_any_text_char_except_quoted_specials
  define u v where "u = takeWhile is_text_char s" and "v = dropWhile is_text_char s"
  have "v \<noteq> []" using assms by (simp add: v_def quoted.valid_def list_all_iff)
  then obtain d t where v: "v = d # t" "\<not> is_text_char d"
    using hd_dropWhile [of is_text_char s] by (cases v) (auto simp: v_def)
  then have d: "\<not> ?P d" "\<not> is_quoted_specials d" using plain_or_special by blast+
  then have d': "d \<noteq> dquote" "d \<noteq> backslash" by (auto simp: is_quoted_specials_def)
  have s: "s = u @ v" "list_all is_text_char u"
    by (auto simp: u_def v_def list_all_iff dest: set_takeWhileD)
  have "n_escaped N (n_take_while1 N ?P) backslash (n_one_of N [backslash, dquote])
      (escape_quoted u @ d # escape_quoted t @ dquote # r) =
      Inr (d # escape_quoted t @ dquote # r, escape_quoted u)"
    using d s(2) d' plain_not_special by (intro escaped_quoted) (auto simp: plain_or_special)
  moreover have "d \<noteq> dquote" by (rule d')
  ultimately show ?thesis
    using v d by (simp add: quoted_parser_def nom_apply s(1) escape_quoted_append quoted_char_bytes_def)
qed

lemma quoted_utf8_ok:
  assumes "is_utf8 s"
  shows "quoted_utf8_parser N (dquote # escape_quoted s @ dquote # r) = Inr (r, QuotedUtf8 s)"
proof -
  have "n_escaped N (n_take_while1 N (\<lambda>c. \<not> is_quoted_specials c)) backslash
      (n_one_of N [backslash, dquote]) (escape_quoted s @ dquote # r) = Inr (dquote # r, escape_quoted s)"
    by (intro escaped_quoted) (auto simp: is_quoted_specials_def list_all_iff)
  then show ?thesis
    by (simp add: quoted_utf8_parser_def nom_apply unescape_escape from_utf8_def is_utf8_escape assms)
qed

lemma quoted_error [simp]:
  "c \<noteq> dquote \<Longrightarrow> is_error (quoted_parser N (c # i))" "c \<noteq> dquote \<Longrightarrow> is_error (quoted_utf8_parser N (c # i))"
  by (simp_all add: quoted_parser_def quoted_utf8_parser_def nom_apply)

text \<open>Literals.\<close>

lemma literal_header_ok:
  assumes "n < 2 ^ 32"
  shows "literal_header N (announcement m n @ crlf @ rest) = Inr (rest, of_nat n, m)"
proof -
  have number: "number_parser N (dec n @ r) = Inr (r, of_nat n)" if "ends is_digit r" for r
    using number_ok [OF that, of "of_nat n"] unat_of_nat_u32 [OF assms] by simp
  show ?thesis
  proof (cases m)
    case Sync
    then show ?thesis
      by (simp add: literal_header_def nom_apply announcement_def number is_digit_def)
  next
    case NonSync
    then show ?thesis
      by (simp add: literal_header_def nom_apply announcement_def number is_digit_def)
  qed
qed

lemma flat_Literal: "flat (Literal_encode l) = announcement (mode l) (length (data l)) @ crlf @ data l"
  using writes_flat [OF literal_writes [of l]] by (cases "mode l") (simp_all add: announcement_def)

lemma literal_ok:
  assumes "wf_literal l" "short (data l)" "data l @ rest \<noteq> []"
  shows "literal_nom N (flat (Literal_encode l) @ rest) = Inr (rest, l)"
proof -
  have "unat (of_nat (length (data l)) :: u32) = length (data l)"
    using assms(2) by (simp add: unat_of_nat_u32)
  moreover have "CHR 0x00 \<notin> set (data l)"
    using assms(1) by (auto simp: literal.valid_def list_all_iff char8_nul)
  moreover have "literal_header N (flat (Literal_encode l) @ rest) =
      Inr (data l @ rest, of_nat (length (data l)), mode l)"
    using literal_header_ok [of "length (data l)" "mode l" "data l @ rest"] assms(2)
    by (simp add: flat_Literal)
  ultimately show ?thesis
    using literal_parser_cases [OF bytes_facts(6)] assms(3) by simp
qed

lemma literal_error [simp]: "c \<noteq> CHR ''{'' \<Longrightarrow> is_error (literal_nom N (c # i))"
  by (simp add: literal_parser_def literal_header_def nom_apply)

text \<open>Strings of every kind. A \<open>QuotedUtf8\<close> that is plain text is read back as a \<open>Quoted\<close>.\<close>

lemma string_ok:
  assumes "readable_istring s" "istring_rest s rest"
  shows "string_parser N (flat (IString_encode s) @ rest) = Inr (rest, reread_istring s)"
proof (cases s)
  case (IString_Literal l)
  with assms have "literal_nom N (flat (Literal_encode l) @ rest) = Inr (rest, l)"
    by (intro literal_ok) auto
  moreover obtain i where i: "flat (Literal_encode l) @ rest = CHR ''{'' # i"
    by (cases "mode l") (simp_all add: flat_Literal announcement_def)
  ultimately show ?thesis using IString_Literal by (simp add: string_parser_def nom_apply)
next
  case (IString_Quoted q)
  with assms show ?thesis by (simp add: string_parser_def nom_apply Quoted_encode_def)
next
  case (IString_QuotedUtf8 q)
  with assms show ?thesis
    by (auto simp: string_parser_def nom_apply QuotedUtf8_encode_def quoted_not_plain quoted_utf8_ok)
qed

lemma string_error [simp]:
  "c \<noteq> dquote \<Longrightarrow> c \<noteq> CHR ''{'' \<Longrightarrow> is_error (string_parser N (c # i))"
  by (simp add: string_parser_def nom_apply)

text \<open>A quoted string has exactly one spelling: the parser accepts what the encoder writes and nothing
  else.\<close>

lemma escaped_result:
  assumes "\<And>c. P c \<Longrightarrow> \<not> is_quoted_specials c"
    "n_escaped N (n_take_while1 N P) backslash (n_one_of N [backslash, dquote]) i = Inr (j, s)"
  shows "\<exists>u. i = escape_quoted u @ j \<and> s = escape_quoted u \<and>
    list_all (\<lambda>c. P c \<or> is_quoted_specials c) u"
proof -
  from escaped_result_run [OF bytes_facts(8) bytes_advance(3) _ assms(2)]
  have run: "escaped_run (n_take_while1 N P) backslash (n_one_of N [backslash, dquote]) i j"
    and s: "s = take (length i - length j) i" by (simp_all add: rest_rules)
  from escaped_run_escape [OF bytes_facts(4) assms(1) byte_facts(2) run]
  obtain u where u: "i = escape_quoted u @ j" "list_all (\<lambda>c. P c \<or> is_quoted_specials c) u" by blast
  with s show ?thesis by auto
qed

lemma dquote_result: "a_dquote N i = Inr (r, x) \<longleftrightarrow> i = dquote # r \<and> x = dquote"
proof (cases i)
  case Nil
  with byte_facts(4) show ?thesis by (simp add: byte_of_def)
next
  case (Cons c j)
  show ?thesis
  proof (cases "c = dquote")
    case False
    with Cons error_not_ok [OF byte_simps(8) [OF False]] show ?thesis by simp
  qed (use Cons in auto)
qed

lemma quoted_parser_iff:
  "quoted_parser N i = Inr (r, q) \<longleftrightarrow> i = dquote # escape_quoted (quoted_inner q) @ dquote # r \<and> wf_quoted q"
proof
  assume q: "quoted_parser N i = Inr (r, q)"
  let ?P = is_any_text_char_except_quoted_specials
  from q obtain j s k where *: "i = dquote # j"
      "n_escaped N (n_take_while1 N ?P) backslash (n_one_of N [backslash, dquote]) j = Inr (k, s)"
      "k = dquote # r" "q = Quoted (unescape_quoted s)"
    by (auto simp: quoted_parser_def nom_apply dquote_result)
  from escaped_result [OF plain_not_special *(2)] obtain u
    where "j = escape_quoted u @ k" "s = escape_quoted u" "list_all is_text_char u"
    by (auto simp: plain_or_special)
  with * show "i = dquote # escape_quoted (quoted_inner q) @ dquote # r \<and> wf_quoted q"
    by (simp add: unescape_escape quoted.valid_def)
next
  assume "i = dquote # escape_quoted (quoted_inner q) @ dquote # r \<and> wf_quoted q"
  then show "quoted_parser N i = Inr (r, q)" by simp
qed

text \<open>Only valid values come out.\<close>

lemma literal_valid:
  assumes "literal_parser header take_bytes i = Inr (r, l)"
  shows "wf_literal l"
proof -
  obtain j len m d k l' where "header i = Inr (j, len, m)" "take_bytes len j = Inr (k, d)"
      and l': "Literal_try_from d = Inr l'" "l = set_mode m l'"
    using assms by (auto simp: literal_parser_def split: if_splits)
  from l'(1) have "wf_literal l'" by (auto dest: literal.try_from_inner)
  then show ?thesis by (simp add: l'(2) set_mode_def)
qed

lemma string_valid: "string_parser N i = Inr (r, s) \<Longrightarrow> wf_istring s"
proof -
  assume s: "string_parser N i = Inr (r, s)"
  have "is_alt (n_alt_istring N)" by simp
  from alt_mem [OF this s [unfolded string_parser_def]]
  show ?thesis by (auto simp: mapped_def quoted_parser_iff dest: literal_valid)
qed

lemma astring_valid: "astring_parser N i = Inr (r, a) \<Longrightarrow> wf_astring a"
proof -
  assume a: "astring_parser N i = Inr (r, a)"
  have "is_alt (n_alt_astring N)" by simp
  from alt_mem [OF this a [unfolded astring_parser_def]]
  show ?thesis
    by (auto simp: mapped_def atom_ext.valid_def dest: string_valid run1_result [OF bytes_facts(4)])
qed

lemma atom_valid: "atom_parser N i = Inr (r, a) \<Longrightarrow> wf_atom a"
  by (auto simp: atom_parser_def atom.valid_def dest: run1_result [OF bytes_facts(4)])

lemma tag_valid: "tag_imap_parser N i = Inr (r, t) \<Longrightarrow> wf_tag t"
  by (auto simp: tag_imap_parser_def tag_char_class mapped_def tag.valid_def
      dest: run1_result [OF bytes_facts(4)])

lemma text_valid: "text_parser N i = Inr (r, t) \<Longrightarrow> wf_text t"
  by (auto simp: text_parser_def mapped_def text_string.valid_def dest: run1_result [OF bytes_facts(4)])

lemma charset_valid: "charset_parser N i = Inr (r, c) \<Longrightarrow> wf_charset c"
proof -
  assume c: "charset_parser N i = Inr (r, c)"
  have "is_alt (n_alt_charset N)" by simp
  from alt_mem [OF this c [unfolded charset_parser_def]]
  show ?thesis by (auto simp: mapped_def quoted_parser_iff dest: atom_valid)
qed

lemma nz_number_valid: "nz_number_parser N i = Inr (r, n) \<Longrightarrow> n \<noteq> 0"
  by (auto simp: nz_number_parser_def mapped_res_def nonzero_u32_def split: if_splits)

text \<open>The remaining strings are read back.\<close>

lemma astring_ok:
  assumes "readable_astring a" "astring_rest a rest"
  shows "astring_parser N (flat (AString_encode a) @ rest) = Inr (rest, reread_astring a)"
proof (cases a)
  case (AString_Atom x)
  with assms show ?thesis
    by (simp add: astring_parser_def nom_apply AtomExt_encode_def atom_ext.valid_def)
next
  case (AString_String s)
  with assms have "string_parser N (flat (IString_encode s) @ rest) = Inr (rest, reread_istring s)"
    by (intro string_ok) simp_all
  moreover have "is_error (n_take_while1 N is_astring_char (flat (IString_encode s) @ rest))"
    by (cases s) (simp_all add: flat_Literal announcement_def Quoted_encode_def QuotedUtf8_encode_def
        indicator_defs)
  ultimately show ?thesis using AString_String by (simp add: astring_parser_def nom_apply)
qed

lemma nstring_ok:
  assumes "readable_nstring n" "nstring_rest n rest"
  shows "nstring_parser N (flat (NString_encode n) @ rest) = Inr (rest, reread_nstring n)"
proof (cases "nstring_option n")
  case None
  then have "n = NString None" by (cases n) simp
  then show ?thesis by (simp add: nstring_parser_def nil_parser_def nom_apply reread_nstring_def)
next
  case (Some s)
  then have "n = NString (Some s)" by (cases n) simp
  with assms show ?thesis
    by (simp add: nstring_parser_def nom_apply string_ok readable_nstring_def nstring_rest_def
        reread_nstring_def)
qed

lemma atom_ok: "wf_atom a \<Longrightarrow> ends is_atom_char rest \<Longrightarrow> atom_parser N (atom_inner a @ rest) = Inr (rest, a)"
  by (simp add: atom_parser_def atom.valid_def)

lemma atom_error [simp]: "\<not> is_atom_char c \<Longrightarrow> is_error (atom_parser N (c # i))"
  by (simp add: atom_parser_def)

lemma tag_ok: "wf_tag t \<Longrightarrow> ends is_tag_char rest \<Longrightarrow> tag_imap_parser N (tag_inner t @ rest) = Inr (rest, t)"
  by (cases t) (simp add: tag_imap_parser_def tag_char_class nom_apply tag.valid_def)

lemma quoted_char_ok:
  assumes "ok_quoted_char q"
  shows "quoted_char_parser N (flat (QuotedChar_encode q) @ rest) = Inr (rest, q)"
proof -
  obtain c where q: "q = QuotedChar c" by (cases q)
  with assms have c: "c < 0x80" "is_text_char (char_of c)"
    by (simp_all add: ok_quoted_char_def QuotedChar_validate_iff quoted.valid_def)
  then have code: "code (char_of c) = c" by (simp add: take_bit_nat_eq_self)
  show ?thesis
  proof (cases "is_quoted_specials (char_of c)")
    case True
    then have "char_of c = dquote \<or> char_of c = backslash" by (simp add: is_quoted_specials_def)
    with code have "c = code dquote \<or> c = code backslash" by metis
    then have "c = 0x22 \<or> c = 0x5C" by simp
    then show ?thesis
      by (auto simp: q QuotedChar_encode_def quoted_char_parser_def nom_apply is_quoted_specials_def
          is_any_text_char_except_quoted_specials_def)
  next
    case False
    then have "c \<noteq> code dquote" "c \<noteq> code backslash"
      unfolding is_quoted_specials_def by (metis char_of_char)+
    then have "c \<noteq> 0x22" "c \<noteq> 0x5C" by simp_all
    with False c code show ?thesis
      by (simp add: q QuotedChar_encode_def quoted_char_parser_def nom_apply
          is_any_text_char_except_quoted_specials_def)
  qed
qed

end

section \<open>A concrete instance\<close>

definition c_nom :: "unit Nom" where
  "c_nom = \<lparr>n_tag = c_tag (\<lambda>c. c), n_tag_no_case = c_tag ascii_lower, n_take_while = c_take_while,
     n_take_while1 = c_take_while1, n_take_while_1_1 = c_take_one, n_take = demo_take,
     n_digit1 = c_take_while1 is_digit, n_char = (\<lambda>c. c_byte (\<lambda>d. d = c)),
     n_one_of = (\<lambda>s. c_byte (\<lambda>d. d \<in> set s)), n_escaped = c_escaped, a_sp = c_byte (\<lambda>d. d = sp),
     a_dquote = c_byte (\<lambda>d. d = dquote), a_crlf = c_tag (\<lambda>c. c) crlf\<rparr>"

abbreviation c_tuple2 :: "('k, 'a) imap_parser \<times> ('k, 'b) imap_parser \<Rightarrow> ('k, 'a \<times> 'b) imap_parser" where
  "c_tuple2 \<equiv> \<lambda>(p, q). both p q"

abbreviation c_tuple3 :: "('k, 'a) imap_parser \<times> ('k, 'b) imap_parser \<times> ('k, 'c) imap_parser \<Rightarrow>
    ('k, 'a \<times> 'b \<times> 'c) imap_parser" where
  "c_tuple3 \<equiv> \<lambda>(p, q, s). both p (both q s)"

abbreviation c_preceded :: "('k, 'a) imap_parser \<Rightarrow> ('k, 'b) imap_parser \<Rightarrow> ('k, 'b) imap_parser" where
  "c_preceded \<equiv> \<lambda>p q. mapped (both p q) snd"

abbreviation c_terminated :: "('k, 'a) imap_parser \<Rightarrow> ('k, 'b) imap_parser \<Rightarrow> ('k, 'a) imap_parser" where
  "c_terminated \<equiv> \<lambda>p q. mapped (both p q) fst"

abbreviation c_delimited :: "('k, 'a) imap_parser \<Rightarrow> ('k, 'b) imap_parser \<Rightarrow> ('k, 'c) imap_parser \<Rightarrow>
    ('k, 'b) imap_parser" where
  "c_delimited \<equiv> \<lambda>p q s. mapped (both p (both q s)) (\<lambda>(_, b, _). b)"

text \<open>The base64 here is the identity; nothing is assumed of it.\<close>

definition c_core :: "unit CoreNom" where
  "c_core = Nom.extend c_nom \<lparr>n_map_str = mapped, n_map_res_u32 = mapped_res, n_map_res_u64 = mapped_res,
     n_map_res_nz = mapped_res, n_map_res_str = mapped_res, n_map_quoted = mapped,
     n_map_quoted_utf8 = mapped, n_map_literal = mapped, n_alt_istring = c_alt,
     n_tuple_quoted = c_tuple3, n_map_byte = mapped, n_tuple_special = c_tuple2,
     n_map_special = mapped, n_alt_byte = c_alt, n_map_quoted_char = mapped, n_opt_char = optional,
     n_map_mode = mapped, n_tuple_length = c_tuple2, n_delimited_length = c_delimited,
     n_terminated_length = c_terminated, n_map_atom_ext = mapped, n_map_string = mapped,
     n_alt_astring = c_alt, n_map_some = mapped, n_map_nil = mapped, n_alt_nstring = c_alt,
     n_map_text = mapped, n_alt_bytes = c_alt, n_opt_bytes = optional, n_tuple_base64 = c_tuple2,
     n_recognize_base64 = consumed, b_decode = Inr, n_map_charset_atom = mapped,
     n_map_charset_quoted = mapped, n_alt_charset = c_alt, n_map_tag = mapped\<rparr>"

lemma c_nom_ok: "bytes_nom c_nom"
  by (simp add: bytes_nom_def c_nom_def c_tag_ok c_byte_ok c_take_while_ok c_take_while1_ok c_take_one_ok
      c_escaped_ok demo_take_ok)

lemma c_core_ok: "core_nom c_core"
  using c_nom_ok unfolding core_nom_def bytes_nom_def c_core_def Nom.extend_def
  by (simp add: c_alt_ok)

interpretation c_core: core_grammar c_core
  by unfold_locales (rule c_core_ok)

section \<open>Strings on the wire\<close>



text \<open>C19: a quoted string has one spelling. The parser accepts exactly what the encoder writes: double
  quotes around valid text in which double quotes and backslashes, and nothing else, are escaped.\<close>

theorem quoted_one_spelling:
  fixes N :: "('k, 'z) CoreNom_scheme"
  assumes "core_nom N"
  shows "quoted_parser N i = Inr (rest, q) \<longleftrightarrow> i = flat (Quoted_encode q) @ rest \<and> wf_quoted q"
proof -
  have N: "core_grammar N" by (intro core_grammar.intro assms)
  have "flat (Quoted_encode q) = dquote # escape_quoted (quoted_inner q) @ [dquote]"
    by (simp add: Quoted_encode_def)
  then show ?thesis by (simp add: core_grammar.quoted_parser_iff [OF N])
qed

lemma quoted_one_spelling_witness:
  "quoted_parser c_core ([dquote, backslash, dquote, dquote] @ ''x'') = Inr (''x'', Quoted [dquote])"
  using quoted_one_spelling [OF c_core_ok, of "[dquote, backslash, dquote, dquote] @ ''x''" "''x''" "Quoted [dquote]"]
  by (simp add: Quoted_encode_def quoted.valid_def is_text_char_def quoted_char_bytes_def
      is_quoted_specials_def)

text \<open>C20: whatever bytes arrive, what the parsers return satisfies the invariant of its type. The
  unchecked constructors they use are therefore safe.\<close>

theorem parsed_strings_valid:
  fixes N :: "('k, 'z) CoreNom_scheme"
  assumes "core_nom N"
  shows "(astring_parser N i = Inr (r, a) \<longrightarrow> wf_astring a) \<and>
    (atom_parser N i = Inr (r, b) \<longrightarrow> wf_atom b) \<and>
    (tag_imap_parser N i = Inr (r, t) \<longrightarrow> wf_tag t) \<and>
    (text_parser N i = Inr (r, u) \<longrightarrow> wf_text u) \<and>
    (charset_parser N i = Inr (r, c) \<longrightarrow> wf_charset c) \<and>
    (nz_number_parser N i = Inr (r, n) \<longrightarrow> n \<noteq> 0)"
proof -
  have N: "core_grammar N" by (intro core_grammar.intro assms)
  show ?thesis
    using core_grammar.astring_valid [OF N] core_grammar.atom_valid [OF N] core_grammar.tag_valid [OF N]
      core_grammar.text_valid [OF N] core_grammar.charset_valid [OF N]
      core_grammar.nz_number_valid [OF N] by blast
qed

lemma parsed_strings_valid_witness:
  "atom_parser c_core ''a b'' = Inr ('' b'', Atom ''a'') \<and> wf_atom (Atom ''a'')"
proof -
  have a: "atom_parser c_core ''a b'' = Inr ('' b'', Atom ''a'')"
    by code_simp
  with parsed_strings_valid [OF c_core_ok, of "''a b''" "'' b''" undefined "Atom ''a''"] show ?thesis by simp
qed

end
