(* ===== verification/Imap_Parse_Sequence.thy ===== *)
theory Imap_Parse_Sequence
  imports Imap_Parse_Core
begin

text \<open>
  The parsers of \<open>imap-codec/src/sequence.rs\<close>: sequence numbers, ranges and sets, and that they read
  back what \<open>Display\<close> and the encoder write.
\<close>

record 'k SeqNom = "'k CoreNom" +
  n_map_value :: "('k, u32) imap_parser \<Rightarrow> (u32 \<Rightarrow> SeqOrUid) \<Rightarrow> ('k, SeqOrUid) imap_parser"
  n_value_asterisk :: "SeqOrUid \<Rightarrow> ('k, bytes) imap_parser \<Rightarrow> ('k, SeqOrUid) imap_parser"
  n_alt_seq_or_uid :: "('k, SeqOrUid) imap_parser list \<Rightarrow> ('k, SeqOrUid) imap_parser"
  n_tuple_range :: "('k, SeqOrUid) imap_parser \<times> ('k, bytes) imap_parser \<times> ('k, SeqOrUid) imap_parser \<Rightarrow>
    ('k, SeqOrUid \<times> bytes \<times> SeqOrUid) imap_parser"
  n_map_range :: "('k, SeqOrUid \<times> SeqOrUid) imap_parser \<Rightarrow> (SeqOrUid \<times> SeqOrUid \<Rightarrow> Sequence) \<Rightarrow>
    ('k, Sequence) imap_parser"
  n_map_single :: "('k, SeqOrUid) imap_parser \<Rightarrow> (SeqOrUid \<Rightarrow> Sequence) \<Rightarrow> ('k, Sequence) imap_parser"
  n_alt_sequence :: "('k, Sequence) imap_parser list \<Rightarrow> ('k, Sequence) imap_parser"
  n_separated_sequences :: "('k, bytes) imap_parser \<Rightarrow> ('k, Sequence) imap_parser \<Rightarrow>
    ('k, Sequence list) imap_parser"
  n_map_set :: "('k, Sequence list) imap_parser \<Rightarrow> (Sequence list \<Rightarrow> SequenceSet) \<Rightarrow>
    ('k, SequenceSet) imap_parser"

definition seq_nom :: "('k, 'z) SeqNom_scheme \<Rightarrow> bool" where
  "seq_nom N \<longleftrightarrow> is_map (n_map_value N) \<and> is_value (n_value_asterisk N) \<and> is_alt (n_alt_seq_or_uid N) \<and>
     is_tuple3 (n_tuple_range N) \<and> is_map (n_map_range N) \<and> is_map (n_map_single N) \<and>
     is_alt (n_alt_sequence N) \<and> is_separated_list1 (n_separated_sequences N) \<and> is_map (n_map_set N)"

definition seq_number_parser :: "('k, 'z) SeqNom_scheme \<Rightarrow> ('k, SeqOrUid) imap_parser" where
  "seq_number_parser N =
     n_alt_seq_or_uid N [
       n_map_value N (nz_number_parser N) Value,
       n_value_asterisk N Asterisk (n_tag N ''*'')]"

definition seq_range_parser :: "('k, 'z) SeqNom_scheme \<Rightarrow> ('k, SeqOrUid \<times> SeqOrUid) imap_parser" where
  "seq_range_parser N input =
     res_bind (n_tuple_range N (seq_number_parser N, n_tag N '':'', seq_number_parser N) input)
       (\<lambda>(rest, from, _, to). Inr (rest, from, to))"

definition sequence_set_parser :: "('k, 'z) SeqNom_scheme \<Rightarrow> ('k, SequenceSet) imap_parser" where
  "sequence_set_parser N =
     n_map_set N
       (n_separated_sequences N (n_tag N '','')
         (n_alt_sequence N [
            n_map_range N (seq_range_parser N) (\<lambda>(from, to). Range from to),
            n_map_single N (seq_number_parser N) Single]))
       SequenceSet"

locale seq_grammar = core_grammar N for N :: "('k, 'z) SeqNom_scheme" +
  assumes seq: "seq_nom N"
begin

lemmas seq_facts [simp] = seq [unfolded seq_nom_def]
lemmas seq_choice [simp] = seq [unfolded seq_nom_def is_alt_def]

lemma seq_number_advances [simp]: "advances (seq_number_parser N)"
  by (simp add: seq_number_parser_def rest_rules rest_alt)

lemma seq_range_advances [simp]: "advances (seq_range_parser N)"
  unfolding seq_range_parser_def by (rule rest_bind(2)) (auto simp: rest_rules)

abbreviation sequence_nom :: "('k, Sequence) imap_parser" where
  "sequence_nom \<equiv> n_alt_sequence N [
     n_map_range N (seq_range_parser N) (\<lambda>(from, to). Range from to),
     n_map_single N (seq_number_parser N) Single]"

lemma sequence_advances [simp]: "advances sequence_nom"
  by (simp add: rest_rules rest_alt)

lemmas list1_rest = rest_separated_list1 [of "n_separated_sequences N"]

lemma sequence_set_advances [simp]: "advances (sequence_set_parser N)"
  by (simp add: sequence_set_parser_def rest_rules rest_alt list1_rest)

text \<open>A number or range is over when neither a digit nor a colon follows.\<close>

definition seq_end :: "bytes \<Rightarrow> bool" where
  "seq_end r \<longleftrightarrow> ends (\<lambda>c. is_digit c \<or> c = CHR '':'') r"

lemma seq_number_ok [simp]:
  "wf_seq_or_uid a \<Longrightarrow> ends is_digit r \<Longrightarrow> seq_number_parser N (print_end a @ r) = Inr (r, a)"
  by (cases a) (simp_all add: seq_number_parser_def nom_apply is_digit_def)

lemma sequence_ok:
  assumes "wf_sequence s" "seq_end r"
  shows "sequence_nom (print_sequence s @ r) = Inr (r, s)"
proof (cases s)
  case (Single a)
  obtain c t where r: "r = c # t" "\<not> is_digit c" "c \<noteq> CHR '':''"
    using assms(2) by (cases r) (auto simp: seq_end_def)
  with assms Single show ?thesis by (simp add: seq_range_parser_def nom_apply)
next
  case (Range a b)
  have "ends is_digit r" using assms(2) by (cases r) (auto simp: seq_end_def)
  with assms Range show ?thesis by (simp add: seq_range_parser_def nom_apply is_digit_def)
qed

lemma sequence_set_ok:
  assumes "xs \<noteq> []" "list_all wf_sequence xs" "ends (\<lambda>c. is_digit c \<or> c = CHR '':'' \<or> c = CHR '','') r"
  shows "sequence_set_parser N (print_sequences xs @ r) = Inr (r, SequenceSet xs)"
proof -
  obtain y ys where xs: "xs = y # ys" using assms(1) by (cases xs) auto
  have print: "print_sequences (y # ys) =
      print_sequence y @ concat (map (\<lambda>x. '','' @ print_sequence x) ys)" for y ys
    by (induction ys arbitrary: y) simp_all
  obtain c t where r: "r = c # t" "\<not> is_digit c" "c \<noteq> CHR '':''" "c \<noteq> CHR '',''"
    using assms(3) by (cases r) auto
  have "seq_end (concat (map (\<lambda>x. '','' @ print_sequence x) ys) @ r)"
    using r by (cases ys) (simp_all add: seq_end_def is_digit_def)
  then have "sequence_nom (print_sequences xs @ r) =
      Inr (concat (map (\<lambda>x. '','' @ print_sequence x) ys) @ r, y)"
    unfolding xs print append_assoc using assms(2) xs by (intro sequence_ok) simp_all
  moreover have "separated_items (n_tag N '','') sequence_nom
      (concat (map (\<lambda>x. '','' @ print_sequence x) ys) @ r) = Inr (r, ys)"
  proof (rule separated_items_ok [where ok = seq_end and y = "'',''"])
    show "sequence_nom (print_sequence x @ t) = Inr (t, x)" if "x \<in> set ys" "seq_end t" for x t
      using that assms(2) xs by (intro sequence_ok) (auto simp: list_all_iff)
    show "rest_ok sequence_nom" by (rule advances_rest) (rule sequence_advances)
  qed (use r in \<open>auto simp: seq_end_def is_digit_def\<close>)
  moreover have "n_separated_sequences N (n_tag N '','') sequence_nom i =
      res_bind (sequence_nom i) (\<lambda>(i, x). map_ok (\<lambda>(j, xs). (j, x # xs))
        (separated_items (n_tag N '','') sequence_nom i))" for i
    using seq advances_rest [OF sequence_advances]
    by (simp only: seq_nom_def is_separated_list1_def bytes_advance not_Cons_self2 list.distinct simp_thms)
  ultimately show ?thesis
    by (simp only: sequence_set_parser_def seq_facts mapped_def) (simp add: xs)
qed

end

section \<open>A concrete instance\<close>

definition c_seq :: "unit SeqNom" where
  "c_seq = CoreNom.extend c_core \<lparr>n_map_value = mapped, n_value_asterisk = (\<lambda>x p. mapped p (\<lambda>_. x)),
     n_alt_seq_or_uid = c_alt, n_tuple_range = c_tuple3, n_map_range = mapped, n_map_single = mapped,
     n_alt_sequence = c_alt, n_separated_sequences = c_separated_list1, n_map_set = mapped\<rparr>"

lemma c_seq_ok: "core_nom c_seq" "seq_nom c_seq"
proof -
  show "core_nom c_seq"
    using c_core_ok unfolding core_nom_def bytes_nom_def c_seq_def CoreNom.extend_def by simp
  show "seq_nom c_seq"
    unfolding seq_nom_def c_seq_def CoreNom.extend_def by (simp add: c_alt_ok c_separated_list_ok)
qed

interpretation c_seq: seq_grammar c_seq
  by unfold_locales (fact c_seq_ok)+

section \<open>Sequence sets on the wire\<close>



end
