(* ===== verification/Imap_Parse_Mailbox.thy ===== *)
theory Imap_Parse_Mailbox
  imports Imap_Parse_Sequence
begin

text \<open>
  The parsers of \<open>imap-codec/src/flag.rs\<close> and, for names and patterns, of \<open>mailbox.rs\<close>, against what
  the encoder writes.
\<close>

record 'k MailNom = "'k SeqNom" +
  n_preceded_backslash :: "('k, char) imap_parser \<Rightarrow> ('k, Atom) imap_parser \<Rightarrow> ('k, Atom) imap_parser"
  n_map_system :: "('k, Atom) imap_parser \<Rightarrow> (Atom \<Rightarrow> Flag) \<Rightarrow> ('k, Flag) imap_parser"
  n_alt_flag :: "('k, Flag) imap_parser list \<Rightarrow> ('k, Flag) imap_parser"
  n_separated_flags :: "('k, char) imap_parser \<Rightarrow> ('k, Flag) imap_parser \<Rightarrow> ('k, Flag list) imap_parser"
  n_delimited_flags :: "('k, bytes) imap_parser \<Rightarrow> ('k, Flag list) imap_parser \<Rightarrow> ('k, bytes) imap_parser \<Rightarrow>
    ('k, Flag list) imap_parser"
  n_tuple_recent :: "('k, char) imap_parser \<times> ('k, Atom) imap_parser \<Rightarrow> ('k, char \<times> Atom) imap_parser"
  n_recognize_recent :: "('k, char \<times> Atom) imap_parser \<Rightarrow> ('k, bytes) imap_parser"
  n_map_flag_fetch :: "('k, Flag) imap_parser \<Rightarrow> (Flag \<Rightarrow> FlagFetch) \<Rightarrow> ('k, FlagFetch) imap_parser"
  n_value_flag_perm :: "FlagPerm \<Rightarrow> ('k, bytes) imap_parser \<Rightarrow> ('k, FlagPerm) imap_parser"
  n_map_flag_perm :: "('k, Flag) imap_parser \<Rightarrow> (Flag \<Rightarrow> FlagPerm) \<Rightarrow> ('k, FlagPerm) imap_parser"
  n_alt_flag_perm :: "('k, FlagPerm) imap_parser list \<Rightarrow> ('k, FlagPerm) imap_parser"
  n_map_attribute :: "('k, Atom) imap_parser \<Rightarrow> (Atom \<Rightarrow> FlagNameAttribute) \<Rightarrow>
    ('k, FlagNameAttribute) imap_parser"
  n_separated_attributes :: "('k, char) imap_parser \<Rightarrow> ('k, FlagNameAttribute) imap_parser \<Rightarrow>
    ('k, FlagNameAttribute list) imap_parser"
  n_map_list_token :: "('k, bytes) imap_parser \<Rightarrow> (bytes \<Rightarrow> ListMailbox) \<Rightarrow> ('k, ListMailbox) imap_parser"
  n_map_list_string :: "('k, IString) imap_parser \<Rightarrow> (IString \<Rightarrow> ListMailbox) \<Rightarrow> ('k, ListMailbox) imap_parser"
  n_alt_list_mailbox :: "('k, ListMailbox) imap_parser list \<Rightarrow> ('k, ListMailbox) imap_parser"
  n_map_mailbox :: "('k, AString) imap_parser \<Rightarrow> (AString \<Rightarrow> Mailbox) \<Rightarrow> ('k, Mailbox) imap_parser"
  n_opt_attributes :: "('k, FlagNameAttribute list) imap_parser \<Rightarrow>
    ('k, FlagNameAttribute list option) imap_parser"
  n_delimited_attributes :: "('k, bytes) imap_parser \<Rightarrow> ('k, FlagNameAttribute list option) imap_parser \<Rightarrow>
    ('k, bytes) imap_parser \<Rightarrow> ('k, FlagNameAttribute list option) imap_parser"
  n_delimited_delimiter :: "('k, char) imap_parser \<Rightarrow> ('k, QuotedChar) imap_parser \<Rightarrow>
    ('k, char) imap_parser \<Rightarrow> ('k, QuotedChar) imap_parser"
  n_map_delimiter :: "('k, QuotedChar) imap_parser \<Rightarrow> (QuotedChar \<Rightarrow> QuotedChar option) \<Rightarrow>
    ('k, QuotedChar option) imap_parser"
  n_value_delimiter :: "QuotedChar option \<Rightarrow> ('k, bytes) imap_parser \<Rightarrow> ('k, QuotedChar option) imap_parser"
  n_alt_delimiter :: "('k, QuotedChar option) imap_parser list \<Rightarrow> ('k, QuotedChar option) imap_parser"
  n_tuple_mailbox_list ::
    "('k, FlagNameAttribute list option) imap_parser \<times> ('k, char) imap_parser \<times>
     ('k, QuotedChar option) imap_parser \<times> ('k, char) imap_parser \<times> ('k, Mailbox) imap_parser \<Rightarrow>
     ('k, FlagNameAttribute list option \<times> char \<times> QuotedChar option \<times> char \<times> Mailbox) imap_parser"

definition mail_nom :: "('k, 'z) MailNom_scheme \<Rightarrow> bool" where
  "mail_nom N \<longleftrightarrow> is_preceded (n_preceded_backslash N) \<and> is_map (n_map_system N) \<and>
     is_alt (n_alt_flag N) \<and> is_separated_list0 (n_separated_flags N) \<and>
     is_delimited (n_delimited_flags N) \<and> is_tuple2 (n_tuple_recent N) \<and>
     is_recognize (n_recognize_recent N) \<and> is_map (n_map_flag_fetch N) \<and>
     is_value (n_value_flag_perm N) \<and> is_map (n_map_flag_perm N) \<and> is_alt (n_alt_flag_perm N) \<and>
     is_map (n_map_attribute N) \<and> is_separated_list1 (n_separated_attributes N) \<and>
     is_map (n_map_list_token N) \<and> is_map (n_map_list_string N) \<and> is_alt (n_alt_list_mailbox N) \<and>
     is_map (n_map_mailbox N) \<and> is_opt (n_opt_attributes N) \<and> is_delimited (n_delimited_attributes N) \<and>
     is_delimited (n_delimited_delimiter N) \<and> is_map (n_map_delimiter N) \<and>
     is_value (n_value_delimiter N) \<and> is_alt (n_alt_delimiter N) \<and> is_tuple5 (n_tuple_mailbox_list N)"

section \<open>Flags\<close>

definition flag_parser :: "('k, 'z) MailNom_scheme \<Rightarrow> ('k, Flag) imap_parser" where
  "flag_parser N =
     n_alt_flag N [
       n_map_system N (n_preceded_backslash N (n_char N backslash) (atom_parser N)) Flag_system,
       n_map_system N (atom_parser N) Flag_Keyword]"

definition flag_list_parser :: "('k, 'z) MailNom_scheme \<Rightarrow> ('k, Flag list) imap_parser" where
  "flag_list_parser N =
     n_delimited_flags N (n_tag N ''('') (n_separated_flags N (a_sp N) (flag_parser N)) (n_tag N '')'')"

definition flag_fetch_parser :: "('k, 'z) MailNom_scheme \<Rightarrow> ('k, FlagFetch) imap_parser" where
  "flag_fetch_parser N input =
     (case n_recognize_recent N (n_tuple_recent N (n_char N backslash, atom_parser N)) input of
        Inr (rem, peek) \<Rightarrow>
          if eq_ignore_ascii_case peek (backslash # ''recent'') then Inr (rem, FlagFetch_Recent)
          else n_map_flag_fetch N (flag_parser N) FlagFetch_Flag input
      | Inl _ \<Rightarrow> n_map_flag_fetch N (flag_parser N) FlagFetch_Flag input)"

definition flag_perm_parser :: "('k, 'z) MailNom_scheme \<Rightarrow> ('k, FlagPerm) imap_parser" where
  "flag_perm_parser N =
     n_alt_flag_perm N [
       n_value_flag_perm N FlagPerm_Asterisk (n_tag N (backslash # ''*'')),
       n_map_flag_perm N (flag_parser N) FlagPerm_Flag]"

definition mbx_list_flags_parser :: "('k, 'z) MailNom_scheme \<Rightarrow> ('k, FlagNameAttribute list) imap_parser" where
  "mbx_list_flags_parser N input =
     res_bind (n_separated_attributes N (a_sp N)
         (n_map_attribute N (n_preceded_backslash N (n_char N backslash) (atom_parser N))
           FlagNameAttribute_from) input)
       (\<lambda>(rest, flags). Inr (rest, flags))"

section \<open>Mailbox names and patterns\<close>

definition list_mailbox_parser :: "('k, 'z) MailNom_scheme \<Rightarrow> ('k, ListMailbox) imap_parser" where
  "list_mailbox_parser N =
     n_alt_list_mailbox N [
       n_map_list_token N (n_take_while1 N is_list_char) (\<lambda>bytes. ListMailbox_Token (ListCharString bytes)),
       n_map_list_string N (string_parser N) ListMailbox_String]"

text \<open>\<open>Mailbox::from\<close> does not panic (\<open>Mailbox_from_total\<close>).\<close>

definition mailbox_parser :: "('k, 'z) MailNom_scheme \<Rightarrow> ('k, Mailbox) imap_parser" where
  "mailbox_parser N = n_map_mailbox N (astring_parser N) (\<lambda>a. the (Mailbox_from a))"

definition mailbox_list_parser ::
  "('k, 'z) MailNom_scheme \<Rightarrow>
     ('k, FlagNameAttribute list option \<times> QuotedChar option \<times> Mailbox) imap_parser" where
  "mailbox_list_parser N input =
     res_bind (n_tuple_mailbox_list N (
         n_delimited_attributes N (n_tag N ''('') (n_opt_attributes N (mbx_list_flags_parser N))
           (n_tag N '')''),
         a_sp N,
         n_alt_delimiter N [
           n_map_delimiter N (n_delimited_delimiter N (a_dquote N) (quoted_char_parser N) (a_dquote N)) Some,
           n_value_delimiter N None (nil_parser N)],
         a_sp N,
         mailbox_parser N) input)
       (\<lambda>(rest, mbx_list_flags, _, maybe_delimiter, _, mailbox).
         Inr (rest, mbx_list_flags, maybe_delimiter, mailbox))"

section \<open>Reading back what was written\<close>

lemma atom_inner_ok: "atom.valid s \<Longrightarrow> ends is_atom_char r \<Longrightarrow> s @ r = c # t \<Longrightarrow> is_atom_char c"
  by (cases s) (auto simp: atom.valid_def)

lemma not_atom_chars [simp]: "\<not> is_atom_char sp" "\<not> is_atom_char CHR ''('' " "\<not> is_atom_char CHR '')''"
    "\<not> is_atom_char backslash" "\<not> is_atom_char dquote" "\<not> is_atom_char cr" "\<not> is_atom_char CHR ''*''"
  by (simp_all add: is_atom_char_def is_atom_specials_iff is_list_wildcards_def is_quoted_specials_def is_ctl_def)

text \<open>A mailbox name is read back up to the kind of its string.\<close>

fun readable_mailbox :: "Mailbox \<Rightarrow> bool" where
  "readable_mailbox Inbox \<longleftrightarrow> True"
| "readable_mailbox (Mailbox_Other m) \<longleftrightarrow> readable_astring (mailbox_inner m) \<and>
     \<not> eq_ignore_ascii_case (AString_as_ref (mailbox_inner m)) ''inbox''"

fun mailbox_rest :: "Mailbox \<Rightarrow> bytes \<Rightarrow> bool" where
  "mailbox_rest Inbox rest \<longleftrightarrow> ends is_astring_char rest"
| "mailbox_rest (Mailbox_Other m) rest \<longleftrightarrow> astring_rest (mailbox_inner m) rest"

fun reread_mailbox :: "Mailbox \<Rightarrow> Mailbox" where
  "reread_mailbox Inbox = Inbox"
| "reread_mailbox (Mailbox_Other m) = Mailbox_Other (MailboxOther (reread_astring (mailbox_inner m)))"

fun readable_list_mailbox :: "ListMailbox \<Rightarrow> bool" where
  "readable_list_mailbox (ListMailbox_Token t) \<longleftrightarrow> wf_list_char t"
| "readable_list_mailbox (ListMailbox_String s) \<longleftrightarrow> readable_istring s"

fun list_mailbox_rest :: "ListMailbox \<Rightarrow> bytes \<Rightarrow> bool" where
  "list_mailbox_rest (ListMailbox_Token t) rest \<longleftrightarrow> ends is_list_char rest"
| "list_mailbox_rest (ListMailbox_String s) rest \<longleftrightarrow> istring_rest s rest"

fun reread_list_mailbox :: "ListMailbox \<Rightarrow> ListMailbox" where
  "reread_list_mailbox (ListMailbox_Token t) = ListMailbox_Token t"
| "reread_list_mailbox (ListMailbox_String s) = ListMailbox_String (reread_istring s)"

lemma reread_as_ref [simp]: "AString_as_ref (reread_astring a) = AString_as_ref a"
  by (cases a rule: reread_astring.cases; simp) (case_tac s rule: reread_istring.cases; simp)

lemma inbox_atom: "atom_ext.valid ''INBOX''"
  by (simp add: valid_defs indicator_defs)

lemma delimiter_flat: "flat (delimiter_encode (Some q)) = dquote # flat (QuotedChar_encode q) @ [dquote]"
  by (simp add: delimiter_encode_def QuotedChar_encode_def write_all_seq)

lemma join_write_all:
  "join_serializable (map (\<lambda>x. write_all (f x)) xs) s = write_all (joined s (map f xs))"
proof (cases xs)
  case (Cons x ys)
  have step: "join_serializable (e # f # es) sep = each [e, write_all sep, join_serializable (f # es) sep]"
    for e f es sep by (simp add: join_serializable_def fun_eq_iff each_append)
  have "join_serializable (write_all (f x) # map (\<lambda>x. write_all (f x)) ys) s =
      write_all (f x @ concat (map (\<lambda>y. s @ f y) ys))"
  proof (induction ys arbitrary: x)
    case Nil
    show ?case by (simp add: join_serializable_def fun_eq_iff)
  next
    case (Cons y ys)
    have "join_serializable (write_all (f x) # map (\<lambda>x. write_all (f x)) (y # ys)) s =
        each [write_all (f x), write_all s, write_all (f y @ concat (map (\<lambda>y. s @ f y) ys))]"
      by (simp only: list.map step Cons.IH)
    then show ?case by (simp only: write_all_seq) (simp add: fun_eq_iff)
  qed
  with Cons show ?thesis by (simp add: o_def)
qed (simp add: join_serializable_def skip_def write_all_def fun_eq_iff)

locale mail_grammar = seq_grammar N for N :: "('k, 'z) MailNom_scheme" +
  assumes mail: "mail_nom N"
begin

lemmas mail_facts [simp] = mail [unfolded mail_nom_def]
lemmas mail_choice [simp] = mail [unfolded mail_nom_def is_alt_def]

lemma flag_advances [simp]: "advances (flag_parser N)"
  by (simp add: flag_parser_def rest_rules rest_alt)

lemma attribute_advances [simp]:
  "advances (mapped (mapped (both (n_char N backslash) (atom_parser N)) snd) FlagNameAttribute_from)"
  by (simp add: rest_rules)

lemma mailbox_advances [simp]: "advances (mailbox_parser N)" "advances (list_mailbox_parser N)"
  by (simp_all add: mailbox_parser_def list_mailbox_parser_def rest_rules rest_alt)

lemma flag_list_advances [simp]: "advances (flag_list_parser N)"
  by (simp add: flag_list_parser_def rest_rules rest_separated_list0 [of "n_separated_flags N"])

lemma mbx_list_flags_advances [simp]: "advances (mbx_list_flags_parser N)"
  unfolding mbx_list_flags_parser_def
  by (rule rest_bind(2)) (simp_all add: rest_separated_list1 [of "n_separated_attributes N"] rest_rules)

lemma mailbox_list_advances [simp]: "advances (mailbox_list_parser N)"
  unfolding mailbox_list_parser_def by (rule rest_bind(2)) (auto simp: rest_rules rest_alt)

lemma atom_inner_parse [simp]:
  "atom.valid s \<Longrightarrow> ends is_atom_char r \<Longrightarrow> atom_parser N (s @ r) = Inr (r, Atom s)"
  using atom_ok [of "Atom s"] by simp

lemma flag_ok:
  assumes "wf_flag f" "ends is_atom_char r"
  shows "flag_parser N (Flag_display f @ r) = Inr (r, f)"
proof (cases "system_flag f")
  case True
  then obtain s where "Flag_display f = backslash # s" "atom.valid s" "Flag_system (Atom s) = f"
    using flag_names.display_valid flag_names.from_display system_flag_display by blast
  then show ?thesis using assms(2) by (simp add: flag_parser_def nom_apply)
next
  case False
  with assms obtain a where f: "f = Flag_Keyword a" "wf_atom a" by (auto simp: system_flag_def)
  obtain c t where "atom_inner a = c # t" "is_atom_char c" using f(2) by (cases "atom_inner a") (auto simp: atom.valid_def)
  moreover from this have "c \<noteq> backslash" by auto
  ultimately show ?thesis
    using f assms(2) atom_inner_parse [of "atom_inner a" r] by (cases a) (simp add: flag_parser_def nom_apply)
qed

lemma flag_error [simp]: "\<not> is_atom_char c \<Longrightarrow> c \<noteq> backslash \<Longrightarrow> is_error (flag_parser N (c # i))"
  by (simp add: flag_parser_def nom_apply)

lemma flag_list_ok:
  assumes "list_all wf_flag fs"
  shows "flag_list_parser N (''('' @ joined '' '' (map Flag_display fs) @ '')'' @ r) = Inr (r, fs)"
proof -
  have "n_separated_flags N (a_sp N) (flag_parser N) (joined '' '' (map Flag_display fs) @ CHR '')'' # r) =
      Inr (CHR '')'' # r, fs)"
  proof (cases "fs = []")
    case True
    have "is_error (flag_parser N (CHR '')'' # r))" by simp
    then show ?thesis using True by (simp add: separated_list0_empty [of "n_separated_flags N"] rest_rules)
  next
    case False
    show ?thesis
    proof (rule separated_list_ok(2) [where ok = "ends is_atom_char" and y = sp])
      show "flag_parser N (Flag_display f @ t) = Inr (t, f)" if "f \<in> set fs" "ends is_atom_char t" for f t
        using that assms by (intro flag_ok) (auto simp: list_all_iff)
    qed (use False in \<open>auto simp: rest_rules\<close>)
  qed
  then show ?thesis by (simp add: flag_list_parser_def nom_apply)
qed

lemma mbx_list_flags_ok:
  assumes "list_all wf_name_attribute fs" "fs \<noteq> []"
  shows "mbx_list_flags_parser N (joined '' '' (map FlagNameAttribute_display fs) @ CHR '')'' # r) =
    Inr (CHR '')'' # r, fs)"
proof -
  let ?p = "mapped (mapped (both (n_char N backslash) (atom_parser N)) snd) FlagNameAttribute_from"
  have "n_separated_attributes N (a_sp N) ?p
      (joined '' '' (map FlagNameAttribute_display fs) @ CHR '')'' # r) = Inr (CHR '')'' # r, fs)"
  proof (rule separated_list_ok(1) [where ok = "ends is_atom_char" and y = sp])
    show "?p (FlagNameAttribute_display f @ t) = Inr (t, f)" if "f \<in> set fs" "ends is_atom_char t" for f t
    proof -
      have wf: "wf_name_attribute f" using that assms by (auto simp: list_all_iff)
      have "FlagNameAttribute_display f = backslash # tl (FlagNameAttribute_display f)" by (cases f) simp_all
      moreover note name_attributes.display_valid [OF wf] name_attributes.from_display [OF wf]
      ultimately obtain s where "FlagNameAttribute_display f = backslash # s" "atom.valid s"
          "FlagNameAttribute_from (Atom s) = f" by blast
      then show ?thesis using that by (simp add: nom_apply)
    qed
  qed (use assms in \<open>auto simp: rest_rules\<close>)
  then show ?thesis by (simp add: mbx_list_flags_parser_def)
qed

lemma mailbox_ok:
  assumes "readable_mailbox m" "mailbox_rest m rest"
  shows "mailbox_parser N (flat (Mailbox_encode m) @ rest) = Inr (rest, reread_mailbox m)"
proof (cases m)
  case Inbox
  have "astring_parser N (''INBOX'' @ rest) = Inr (rest, AString_Atom (AtomExt ''INBOX''))"
    using astring_ok [of "AString_Atom (AtomExt ''INBOX'')" rest] assms Inbox inbox_atom
    by (simp add: AtomExt_encode_def)
  moreover have "eq_ignore_ascii_case ''INBOX'' ''inbox''" by code_simp
  ultimately show ?thesis
    by (simp add: Inbox mailbox_parser_def nom_apply Mailbox_from_total)
next
  case (Mailbox_Other o')
  with assms show ?thesis
    by (simp add: mailbox_parser_def nom_apply Mailbox_from_total MailboxOther_encode_def astring_ok)
qed

lemma mailbox_list_ok:
  assumes "list_all wf_name_attribute fs" "pred_option ok_quoted_char d" "readable_mailbox m"
    "mailbox_rest m rest"
  shows "mailbox_list_parser N
      (''('' @ joined '' '' (map FlagNameAttribute_display fs) @ '') '' @ flat (delimiter_encode d) @ '' '' @
       flat (Mailbox_encode m) @ rest) =
    Inr (rest, (if fs = [] then None else Some fs), d, reread_mailbox m)"
proof -
  let ?tail = "CHR '' '' # flat (delimiter_encode d) @ '' '' @ flat (Mailbox_encode m) @ rest"
  have flags: "optional (mbx_list_flags_parser N)
      (joined '' '' (map FlagNameAttribute_display fs) @ CHR '')'' # ?tail) =
      Inr (CHR '')'' # ?tail, if fs = [] then None else Some fs)"
  proof (cases "fs = []")
    case True
    have "is_error (mbx_list_flags_parser N (CHR '')'' # ?tail))"
      by (simp add: mbx_list_flags_parser_def separated_list1_error [of "n_separated_attributes N"]
          rest_rules nom_apply)
    with True show ?thesis by simp
  next
    case False
    with assms(1) show ?thesis by (simp add: mbx_list_flags_ok)
  qed
  show ?thesis
  proof (cases d)
    case None
    with assms flags show ?thesis
      by (simp add: mailbox_list_parser_def nom_apply delimiter_encode_def nil_parser_def mailbox_ok)
  next
    case (Some q)
    with assms(2-) flags show ?thesis
      by (simp add: mailbox_list_parser_def nom_apply delimiter_flat quoted_char_ok mailbox_ok)
  qed
qed

lemma list_mailbox_ok:
  assumes "readable_list_mailbox l" "list_mailbox_rest l rest"
  shows "list_mailbox_parser N (flat (ListMailbox_encode l) @ rest) = Inr (rest, reread_list_mailbox l)"
proof (cases l)
  case (ListMailbox_Token t)
  with assms show ?thesis
    by (cases t) (simp add: list_mailbox_parser_def nom_apply ListCharString_encode_def list_char.valid_def)
next
  case (ListMailbox_String s)
  with assms have "string_parser N (flat (IString_encode s) @ rest) = Inr (rest, reread_istring s)"
    by (intro string_ok) simp_all
  moreover have "is_error (n_take_while1 N is_list_char (flat (IString_encode s) @ rest))"
    by (cases s) (simp_all add: flat_Literal announcement_def Quoted_encode_def QuotedUtf8_encode_def
        indicator_defs)
  ultimately show ?thesis using ListMailbox_String by (simp add: list_mailbox_parser_def nom_apply)
qed

text \<open>\<open>Recent\<close> is no flag that a client sets, but one that a server reports.\<close>

lemma flag_fetch_ok:
  assumes "wf_flag f" "ends is_atom_char r" "\<not> eq_ignore_ascii_case (Flag_display f) (backslash # ''recent'')"
  shows "flag_fetch_parser N (Flag_display f @ r) = Inr (r, FlagFetch_Flag f)"
    "flag_fetch_parser N ((backslash # ''Recent'') @ r) = Inr (r, FlagFetch_Recent)"
proof -
  have flag: "mapped (flag_parser N) FlagFetch_Flag (Flag_display f @ r) = Inr (r, FlagFetch_Flag f)"
    using flag_ok [OF assms(1,2)] by (simp add: mapped_def)
  show "flag_fetch_parser N (Flag_display f @ r) = Inr (r, FlagFetch_Flag f)"
  proof (cases "consumed (both (n_char N backslash) (atom_parser N)) (Flag_display f @ r)")
    case (Inl e)
    with flag show ?thesis by (simp add: flag_fetch_parser_def)
  next
    case (Inr a)
    have "Flag_display f = backslash # s \<Longrightarrow> atom.valid s \<Longrightarrow> a = (r, Flag_display f)" for s
      using Inr assms(2) by (auto simp: consumed_def both_def)
    moreover have "\<exists>s. Flag_display f = backslash # s \<and> atom.valid s"
    proof (cases "system_flag f")
      case True
      with flag_names.display_valid system_flag_display show ?thesis by blast
    next
      case False
      with assms(1) obtain c t where "Flag_display f = c # t" "is_atom_char c"
        by (cases f; auto simp: system_flag_def atom.valid_def neq_Nil_conv)
      moreover from this have "c \<noteq> backslash" by auto
      ultimately have "is_error (n_char N backslash (Flag_display f @ r))" by simp
      then have "is_error (consumed (both (n_char N backslash) (atom_parser N)) (Flag_display f @ r))"
        by (simp add: consumed_def both_def)
      with Inr show ?thesis by simp
    qed
    ultimately have "a = (r, Flag_display f)" by blast
    with Inr flag assms(3) show ?thesis by (simp add: flag_fetch_parser_def)
  qed
  have "atom.valid ''Recent''" by (simp add: valid_defs indicator_defs)
  from atom_inner_parse [OF this assms(2)]
  have "atom_parser N (CHR ''R'' # CHR ''e'' # CHR ''c'' # CHR ''e'' # CHR ''n'' # CHR ''t'' # r) =
    Inr (r, Atom ''Recent'')" by simp
  moreover have "eq_ignore_ascii_case (backslash # ''Recent'') (backslash # ''recent'')" by code_simp
  ultimately show "flag_fetch_parser N ((backslash # ''Recent'') @ r) = Inr (r, FlagFetch_Recent)"
    by (simp add: flag_fetch_parser_def consumed_def both_def)
qed

lemma flag_perm_ok:
  "wf_flag f \<Longrightarrow> ends is_atom_char r \<Longrightarrow> flag_perm_parser N (Flag_display f @ r) = Inr (r, FlagPerm_Flag f)"
  "flag_perm_parser N ((backslash # ''*'') @ r) = Inr (r, FlagPerm_Asterisk)"
proof -
  assume f: "wf_flag f" "ends is_atom_char r"
  have "is_error (n_tag N (backslash # ''*'') (Flag_display f @ r))"
  proof (cases "system_flag f")
    case True
    then obtain s where s: "Flag_display f = backslash # s" "atom.valid s"
      using flag_names.display_valid system_flag_display by blast
    from s(2) obtain c t where "s = c # t" "is_atom_char c" by (cases s) (auto simp: atom.valid_def)
    moreover from this have "c \<noteq> CHR ''*''" by auto
    ultimately show ?thesis by (simp add: s)
  next
    case False
    with f obtain a where a: "f = Flag_Keyword a" "wf_atom a" by (auto simp: system_flag_def)
    then obtain c t where "atom_inner a = c # t" "is_atom_char c"
      by (cases "atom_inner a") (auto simp: atom.valid_def)
    moreover from this have "c \<noteq> backslash" by auto
    ultimately show ?thesis by (cases a) (simp add: a)
  qed
  with flag_ok [OF f] show "flag_perm_parser N (Flag_display f @ r) = Inr (r, FlagPerm_Flag f)"
    by (simp add: flag_perm_parser_def nom_apply)
qed (simp add: flag_perm_parser_def nom_apply)

end

section \<open>A concrete instance\<close>

definition c_mail :: "unit MailNom" where
  "c_mail = SeqNom.extend c_seq \<lparr>n_preceded_backslash = c_preceded, n_map_system = mapped,
     n_alt_flag = c_alt, n_separated_flags = c_separated_list0, n_delimited_flags = c_delimited,
     n_tuple_recent = c_tuple2, n_recognize_recent = consumed, n_map_flag_fetch = mapped,
     n_value_flag_perm = (\<lambda>x p. mapped p (\<lambda>_. x)), n_map_flag_perm = mapped, n_alt_flag_perm = c_alt,
     n_map_attribute = mapped, n_separated_attributes = c_separated_list1, n_map_list_token = mapped,
     n_map_list_string = mapped, n_alt_list_mailbox = c_alt, n_map_mailbox = mapped,
     n_opt_attributes = optional, n_delimited_attributes = c_delimited,
     n_delimited_delimiter = c_delimited, n_map_delimiter = mapped,
     n_value_delimiter = (\<lambda>x p. mapped p (\<lambda>_. x)), n_alt_delimiter = c_alt,
     n_tuple_mailbox_list = (\<lambda>(p, q, r, s, t). both p (both q (both r (both s t))))\<rparr>"

lemma c_mail_ok: "core_nom c_mail" "seq_nom c_mail" "mail_nom c_mail"
proof -
  show "core_nom c_mail"
    using c_seq_ok(1) unfolding core_nom_def bytes_nom_def c_mail_def SeqNom.extend_def by simp
  show "seq_nom c_mail"
    using c_seq_ok(2) unfolding seq_nom_def c_mail_def SeqNom.extend_def by simp
  show "mail_nom c_mail"
    unfolding mail_nom_def c_mail_def SeqNom.extend_def by (simp add: c_alt_ok c_separated_list_ok)
qed

interpretation c_mail: mail_grammar c_mail
  by unfold_locales (fact c_mail_ok)+

section \<open>LIST responses\<close>



end
