(* ===== verification/Imap_Parse_Thread.thy ===== *)
theory Imap_Parse_Thread
  imports Imap_Parse_Mailbox
begin

text \<open>
  The parsers of \<open>imap-codec/src/extensions/thread.rs\<close>, whose recursion is limited, against what
  \<open>Display\<close> writes.
\<close>

record 'k ThreadNom = "'k MailNom" +
  n_map_alg :: "('k, Atom) imap_parser \<Rightarrow> (Atom \<Rightarrow> ThreadingAlgorithm) \<Rightarrow> ('k, ThreadingAlgorithm) imap_parser"
  n_separated_numbers :: "('k, char) imap_parser \<Rightarrow> ('k, u32) imap_parser \<Rightarrow> ('k, u32 list) imap_parser"
  n_many_from_threads :: "nat \<Rightarrow> ('k, Thread) imap_parser \<Rightarrow> ('k, Thread list) imap_parser"
  n_many1_threads :: "('k, Thread) imap_parser \<Rightarrow> ('k, Thread list) imap_parser"
  n_preceded_threads :: "('k, char) imap_parser \<Rightarrow> ('k, Thread list) imap_parser \<Rightarrow> ('k, Thread list) imap_parser"
  n_opt_threads :: "('k, Thread list) imap_parser \<Rightarrow> ('k, Thread list option) imap_parser"
  n_tuple_members :: "('k, u32 list) imap_parser \<times> ('k, Thread list option) imap_parser \<Rightarrow>
    ('k, u32 list \<times> Thread list option) imap_parser"
  n_map_members :: "('k, u32 list \<times> Thread list option) imap_parser \<Rightarrow>
    (u32 list \<times> Thread list option \<Rightarrow> Thread) \<Rightarrow> ('k, Thread) imap_parser"
  n_map_nested :: "('k, Thread list) imap_parser \<Rightarrow> (Thread list \<Rightarrow> Thread) \<Rightarrow> ('k, Thread) imap_parser"
  n_alt_thread :: "('k, Thread) imap_parser list \<Rightarrow> ('k, Thread) imap_parser"
  n_delimited_thread :: "('k, bytes) imap_parser \<Rightarrow> ('k, Thread) imap_parser \<Rightarrow> ('k, bytes) imap_parser \<Rightarrow>
    ('k, Thread) imap_parser"
  n_preceded_thread_data :: "('k, bytes) imap_parser \<Rightarrow> ('k, Thread list option) imap_parser \<Rightarrow>
    ('k, Thread list option) imap_parser"

text \<open>\<open>many_m_n\<close> is used with \<open>usize::MAX\<close> as its upper limit only.\<close>

definition thread_nom :: "('k, 'z) ThreadNom_scheme \<Rightarrow> bool" where
  "thread_nom N \<longleftrightarrow> is_map (n_map_alg N) \<and> is_separated_list1 (n_separated_numbers N) \<and>
     is_many_from (n_many_from_threads N) \<and> is_many1 (n_many1_threads N) \<and>
     is_preceded (n_preceded_threads N) \<and> is_opt (n_opt_threads N) \<and> is_tuple2 (n_tuple_members N) \<and>
     is_map (n_map_members N) \<and> is_map (n_map_nested N) \<and> is_alt (n_alt_thread N) \<and>
     is_delimited (n_delimited_thread N) \<and> is_preceded (n_preceded_thread_data N)"

definition thread_alg :: "('k, 'z) ThreadNom_scheme \<Rightarrow> ('k, ThreadingAlgorithm) imap_parser" where
  "thread_alg N = n_map_alg N (atom_parser N) ThreadingAlgorithm_from"

fun thread_list_limited :: "('k, 'z) ThreadNom_scheme \<Rightarrow> nat \<Rightarrow> ('k, Thread) imap_parser" where
  "thread_list_limited N remaining_recursion input =
     (if remaining_recursion = 0 then
        Inl (Nom_Failure \<lparr>pe_input = input, pe_kind = Kind_RecursionLimitExceeded\<rparr>)
      else
        let thread_list = (\<lambda>input. thread_list_limited N (remaining_recursion - 1) input) in
        res_bind (n_delimited_thread N
            (n_tag N ''('')
            (n_alt_thread N [
               n_map_members N
                 (n_tuple_members N (
                    n_separated_numbers N (a_sp N) (nz_number_parser N),
                    n_opt_threads N (n_preceded_threads N (a_sp N) (n_many_from_threads N 2 thread_list))))
                 (\<lambda>(first, answers). Thread_Members first answers),
               n_map_nested N (n_many_from_threads N 2 thread_list) Thread_Nested])
            (n_tag N '')'') input)
          (\<lambda>(rem, out). Inr (rem, out)))"

declare thread_list_limited.simps [simp del]

definition thread_list :: "('k, 'z) ThreadNom_scheme \<Rightarrow> nat \<Rightarrow> ('k, Thread) imap_parser" where
  "thread_list N remaining_recursions = (\<lambda>input. thread_list_limited N remaining_recursions input)"

definition thread_data :: "('k, 'z) ThreadNom_scheme \<Rightarrow> ('k, Data) imap_parser" where
  "thread_data N input =
     res_bind (n_preceded_thread_data N
         (n_tag_no_case N ''THREAD'')
         (n_opt_threads N (n_preceded_threads N (a_sp N) (n_many1_threads N (thread_list N 8)))) input)
       (\<lambda>(remaining, thread_list).
         Inr (remaining, Data_Thread (case thread_list of Some ts \<Rightarrow> ts | None \<Rightarrow> [])))"

text \<open>How deep a thread is nested, itself included.\<close>

fun thread_depth :: "Thread \<Rightarrow> nat" where
  "thread_depth (Thread_Members numbers None) = 1"
| "thread_depth (Thread_Members numbers (Some answers)) = Suc (fold max (map thread_depth answers) 0)"
| "thread_depth (Thread_Nested answers) = Suc (fold max (map thread_depth answers) 0)"

lemma fold_max_le: "fold max (map f xs) (a :: nat) \<le> n \<longleftrightarrow> a \<le> n \<and> list_all (\<lambda>x. f x \<le> n) xs"
  by (induction xs arbitrary: a) auto

locale thread_grammar = core_grammar N for N :: "('k, 'z) ThreadNom_scheme" +
  assumes thread: "thread_nom N"
begin

lemmas thread_facts [simp] = thread [unfolded thread_nom_def]
lemmas thread_choice [simp] = thread [unfolded thread_nom_def is_alt_def]

lemma at_least_threads: "at_least n (n_many_from_threads N n)" "at_least 1 (n_many1_threads N)"
  using thread unfolding thread_nom_def is_many_from_def is_many1_def by blast+

lemma numbers_advances: "advances (n_separated_numbers N (a_sp N) (nz_number_parser N))"
  by (simp add: rest_separated_list1 [of "n_separated_numbers N"] rest_rules)

lemma thread_list_limited_0: "too_deep (thread_list_limited N 0 i)"
  by (simp add: thread_list_limited.simps)

abbreviation members_nom :: "nat \<Rightarrow> ('k, Thread) imap_parser" where
  "members_nom n \<equiv> n_map_members N
     (n_tuple_members N (
        n_separated_numbers N (a_sp N) (nz_number_parser N),
        n_opt_threads N (n_preceded_threads N (a_sp N) (n_many_from_threads N 2 (thread_list_limited N n)))))
     (\<lambda>(first, answers). Thread_Members first answers)"

abbreviation nested_nom :: "nat \<Rightarrow> ('k, Thread) imap_parser" where
  "nested_nom n \<equiv> n_map_nested N (n_many_from_threads N 2 (thread_list_limited N n)) Thread_Nested"

lemma thread_list_limited_Suc:
  "thread_list_limited N (Suc n) =
     n_delimited_thread N (n_tag N ''('') (n_alt_thread N [members_nom n, nested_nom n]) (n_tag N '')'')"
  by (simp add: fun_eq_iff thread_list_limited.simps [of N "Suc n"] Let_def)

lemma thread_list_advances: "advances (thread_list_limited N n)"
proof (induction n)
  case 0
  show ?case by (simp add: advances_def thread_list_limited.simps)
next
  case (Suc n)
  note many = rest_at_least [OF at_least_threads(1) this]
  show ?case
    unfolding thread_list_limited_Suc
    by (simp add: rest_rules rest_alt numbers_advances many)
qed

text \<open>Several threads in a row.\<close>

lemma threads_limited:
  assumes item: "\<And>t r. t \<in> set ts \<Longrightarrow>
      if thread_depth t \<le> n then thread_list_limited N n (print_thread t @ r) = Inr (r, t)
      else too_deep (thread_list_limited N n (print_thread t @ r))"
    and many: "at_least k m" "k \<le> length ts"
    and r: "ts \<noteq> []" "r = c # r'" "c \<noteq> CHR ''(''"
  shows "if list_all (\<lambda>t. thread_depth t \<le> n) ts
    then m (thread_list_limited N n) (concat (map print_thread ts) @ r) = Inr (r, ts)
    else too_deep (m (thread_list_limited N n) (concat (map print_thread ts) @ r))"
proof -
  have pos: "0 < thread_depth t" for t by (cases t rule: thread_depth.cases) simp_all
  have "if list_all (\<lambda>t. thread_depth t \<le> n) ts
      then many_items (thread_list_limited N n) (concat (map print_thread ts) @ r) = Inr (r, ts)
      else too_deep (many_items (thread_list_limited N n) (concat (map print_thread ts) @ r))"
  proof (rule many_items_limited [OF thread_list_advances])
    assume "list_all (\<lambda>t. thread_depth t \<le> n) ts"
    moreover obtain t where "t \<in> set ts" using r(1) by (cases ts) auto
    ultimately have "thread_depth t \<le> n" by (simp add: list_all_iff)
    with pos [of t] obtain l where "n = Suc l" by (cases n) auto
    with r show "is_error (thread_list_limited N n r)"
      by (simp add: thread_list_limited_Suc nom_apply)
  qed (use item in \<open>force+\<close>)
  then show ?thesis
    using many thread_list_advances [of n]
    by (auto simp: at_least_def split: if_splits dest!: too_deep_failure)
qed

lemma numbers_ok:
  assumes "ns \<noteq> []" "0 \<notin> set ns" "r = c # r'" "\<not> is_digit c" "c = sp \<Longrightarrow> \<exists>d t. r' = d # t \<and> \<not> is_digit d"
  shows "n_separated_numbers N (a_sp N) (nz_number_parser N) (print_prefix ns @ r) = Inr (r, ns)"
proof -
  have print: "print_prefix ns = joined '' '' (map (\<lambda>n. dec (unat n)) ns)"
    using assms(1) by (cases ns) (simp_all add: print_prefix_def o_def)
  have stop: "is_error (a_sp N r) \<or> (\<exists>j y. a_sp N r = Inr (j, y) \<and> is_error (nz_number_parser N j))"
  proof (cases "c = sp")
    case True
    with assms(5) obtain d t where "r' = d # t" "\<not> is_digit d" by blast
    with True assms(3) show ?thesis by simp
  next
    case False
    with assms(3) show ?thesis by simp
  qed
  show ?thesis
    unfolding print
  proof (rule separated_list_ok(1) [where ok = "ends is_digit" and y = sp])
    show "nz_number_parser N (dec (unat n) @ t) = Inr (t, n)" if "n \<in> set ns" "ends is_digit t" for n t
      using that assms(2) by (intro nz_number_ok) auto
  qed (use assms stop in \<open>simp_all add: rest_rules is_digit_def\<close>)
qed

lemma thread_limited:
  "wf_thread t \<Longrightarrow>
    if thread_depth t \<le> n then thread_list_limited N n (print_thread t @ rest) = Inr (rest, t)
    else too_deep (thread_list_limited N n (print_thread t @ rest))"
proof (induction n arbitrary: t rest)
  case 0
  have "0 < thread_depth t" by (cases t rule: thread_depth.cases) simp_all
  then show ?case by (simp add: thread_list_limited_0)
next
  case (Suc n)
  have inner: "if list_all (\<lambda>t. thread_depth t \<le> n) ts
      then n_many_from_threads N 2 (thread_list_limited N n)
        (concat (map print_thread ts) @ CHR '')'' # rest) = Inr (CHR '')'' # rest, ts)
      else too_deep (n_many_from_threads N 2 (thread_list_limited N n)
        (concat (map print_thread ts) @ CHR '')'' # rest))"
    if "2 \<le> length ts" "list_all wf_thread ts" for ts
    using that Suc.IH
    by (intro threads_limited [OF _ at_least_threads(1)]) (auto simp: list_all_iff)
  have first: "\<exists>i. concat (map print_thread ts) @ r = CHR ''('' # i" if len: "2 \<le> length ts" for ts r
  proof -
    obtain u us where "ts = u # us" using len by (cases ts) auto
    then show ?thesis by (cases u rule: print_thread.cases) simp_all
  qed
  show ?case
  proof (cases t rule: print_thread.cases)
    case (1 ns)
    with Suc.prems numbers_ok [of ns "CHR '')'' # rest"] show ?thesis
      by (simp add: thread_list_limited_Suc nom_apply is_digit_def)
  next
    case (2 ns ts)
    with Suc.prems have ts: "2 \<le> length ts" "list_all wf_thread ts" "ns \<noteq> []" "0 \<notin> set ns" by auto
    from first [OF ts(1)] obtain i where i: "concat (map print_thread ts) @ CHR '')'' # rest = CHR ''('' # i"
      by blast
    have "n_separated_numbers N (a_sp N) (nz_number_parser N)
        (print_prefix ns @ '' '' @ concat (map print_thread ts) @ CHR '')'' # rest) =
        Inr ('' '' @ concat (map print_thread ts) @ CHR '')'' # rest, ns)"
      using numbers_ok [of ns "'' '' @ concat (map print_thread ts) @ CHR '')'' # rest"] ts i
      by (simp add: is_digit_def)
    with inner [OF ts(1,2)] 2 show ?thesis
      by (auto simp: thread_list_limited_Suc nom_apply fold_max_le optional_def
          dest!: too_deep_failure split: if_splits)
  next
    case (3 ts)
    with Suc.prems have ts: "2 \<le> length ts" "list_all wf_thread ts" by auto
    from first [OF ts(1)] obtain i where i: "concat (map print_thread ts) @ CHR '')'' # rest = CHR ''('' # i"
      by blast
    have "is_error (n_separated_numbers N (a_sp N) (nz_number_parser N) (CHR ''('' # i))"
      by (simp add: separated_list1_error [of "n_separated_numbers N"] rest_rules is_digit_def)
    with inner [OF ts] 3 i show ?thesis
      by (auto simp: thread_list_limited_Suc nom_apply fold_max_le
          dest!: too_deep_failure split: if_splits)
  qed
qed

text \<open>The answer to \<open>THREAD\<close>, with the limit that the parser of responses uses.\<close>

lemma thread_data_ok:
  assumes "list_all wf_thread ts" "ends (\<lambda>c. c = sp \<or> c = CHR ''('') rest"
  shows "if list_all (\<lambda>t. thread_depth t \<le> 8) ts
    then thread_data N (''THREAD'' @ (if ts = [] then [] else '' '') @ concat (map print_thread ts) @ rest) =
      Inr (rest, Data_Thread ts)
    else too_deep (thread_data N
      (''THREAD'' @ (if ts = [] then [] else '' '') @ concat (map print_thread ts) @ rest))"
proof -
  obtain c r where rest: "rest = c # r" "c \<noteq> sp" "c \<noteq> CHR ''(''" using assms(2) by (cases rest) auto
  show ?thesis
  proof (cases "ts = []")
    case True
    with rest show ?thesis by (simp add: thread_data_def nom_apply)
  next
    case False
    have "if list_all (\<lambda>t. thread_depth t \<le> 8) ts
      then n_many1_threads N (thread_list_limited N 8) (concat (map print_thread ts) @ rest) = Inr (rest, ts)
      else too_deep (n_many1_threads N (thread_list_limited N 8) (concat (map print_thread ts) @ rest))"
      using assms(1) rest False
      by (intro threads_limited [OF _ at_least_threads(2)] thread_limited)
        (auto simp: list_all_iff Suc_le_eq)
    with False show ?thesis
      by (auto simp: thread_data_def thread_list_def nom_apply optional_def
          dest!: too_deep_failure split: if_splits)
  qed
qed

lemma thread_alg_ok:
  assumes "wf_threading a" "ends is_atom_char rest"
  shows "thread_alg N (ThreadingAlgorithm_display a @ rest) = Inr (rest, a)"
proof -
  have "atom.valid (ThreadingAlgorithm_display a)" "ThreadingAlgorithm_from (Atom (ThreadingAlgorithm_display a)) = a"
    using assms(1) threading_names.display_valid threading_names.from_display by blast+
  with assms(2) atom_ok [of "Atom (ThreadingAlgorithm_display a)" rest] show ?thesis
    by (simp add: thread_alg_def nom_apply)
qed

end

section \<open>A concrete instance\<close>

definition c_thread :: "unit ThreadNom" where
  "c_thread = MailNom.extend c_mail \<lparr>n_map_alg = mapped, n_separated_numbers = c_separated_list1,
     n_many_from_threads = c_many, n_many1_threads = c_many 1, n_preceded_threads = c_preceded,
     n_opt_threads = optional, n_tuple_members = c_tuple2, n_map_members = mapped, n_map_nested = mapped,
     n_alt_thread = c_alt, n_delimited_thread = c_delimited, n_preceded_thread_data = c_preceded\<rparr>"

lemma c_thread_ok: "core_nom c_thread" "seq_nom c_thread" "mail_nom c_thread" "thread_nom c_thread"
proof -
  show "core_nom c_thread"
    using c_mail_ok(1) unfolding core_nom_def bytes_nom_def c_thread_def MailNom.extend_def by simp
  show "seq_nom c_thread"
    using c_mail_ok(2) unfolding seq_nom_def c_thread_def MailNom.extend_def by simp
  show "mail_nom c_thread"
    using c_mail_ok(3) unfolding mail_nom_def c_thread_def MailNom.extend_def by simp
  show "thread_nom c_thread"
    using c_many_ok unfolding thread_nom_def c_thread_def MailNom.extend_def
    by (simp add: c_alt_ok c_separated_list_ok)
qed

interpretation c_thread: thread_grammar c_thread
  by unfold_locales (fact c_thread_ok)+

section \<open>THREAD responses\<close>

text \<open>C22: the answer to \<open>THREAD\<close> is read back if and only if no thread in it is nested deeper than eight
  levels. A deeper one makes the parser fail for good with \<open>RecursionLimitExceeded\<close>, so the recursion
  is bounded whatever a peer sends, and no alternative is tried after it.\<close>

theorem thread_response_parsed:
  fixes N :: "('k, 'z) ThreadNom_scheme"
  assumes "core_nom N" "thread_nom N"
    and ts: "list_all wf_thread ts" "ends (\<lambda>c. c = sp \<or> c = CHR ''('') rest"
  shows "\<exists>i. flat (Data_match env (Data_Thread ts)) @ rest = ''* '' @ i \<and>
    (if list_all (\<lambda>t. thread_depth t \<le> 8) ts then thread_data N i = Inr (rest, Data_Thread ts)
     else \<exists>e. thread_data N i = Inl (Nom_Failure e) \<and> pe_kind e = Kind_RecursionLimitExceeded)"
proof -
  have N: "thread_grammar N"
    by (intro thread_grammar.intro core_grammar.intro thread_grammar_axioms.intro assms)
  have "each (map Thread_encode us) = write_all (concat (map print_thread us))" if "list_all wf_thread us" for us
    using that
  proof (induction us)
    case (Cons u us)
    then have "each (map Thread_encode us) = write_all (concat (map print_thread us))" by simp
    moreover have "Thread_encode u = write_all (print_thread u)"
      using Cons.prems by (simp add: Thread_encode_def Thread_display_print)
    ultimately have "each (map Thread_encode (u # us)) =
        each [write_all (print_thread u), write_all (concat (map print_thread us))]"
      by (simp add: fun_eq_iff)
    then show ?case by (simp add: write_all_seq)
  qed (simp add: fun_eq_iff write_all_def)
  from this [OF ts(1)] have "flat (Data_match env (Data_Thread ts)) @ rest = ''* '' @
      ''THREAD'' @ (if ts = [] then [] else '' '') @ concat (map print_thread ts) @ rest"
    by (simp add: write_all_seq)
  moreover have "if list_all (\<lambda>t. thread_depth t \<le> 8) ts
    then thread_data N (''THREAD'' @ (if ts = [] then [] else '' '') @ concat (map print_thread ts) @ rest) =
      Inr (rest, Data_Thread ts)
    else \<exists>e. thread_data N (''THREAD'' @ (if ts = [] then [] else '' '') @ concat (map print_thread ts) @ rest) =
      Inl (Nom_Failure e) \<and> pe_kind e = Kind_RecursionLimitExceeded"
    using thread_grammar.thread_data_ok [OF N ts] by (auto dest: too_deep_failure split: if_splits)
  ultimately show ?thesis by blast
qed

lemma thread_response_parsed_witness:
  "\<exists>i. flat (Data_match demo_env (Data_Thread [demo_thread])) @ crlf = ''* '' @ i \<and>
    thread_data c_thread i = Inr (crlf, Data_Thread [demo_thread])"
  using thread_response_parsed [OF c_thread_ok(1,4), of "[demo_thread]" crlf demo_env]
  by (simp add: demo_thread_def)

end
