(* ===== verification/Imap_Parse_Envelope.thy ===== *)
theory Imap_Parse_Envelope
  imports Imap_Parse_Thread
begin

text \<open>
  The parsers of \<open>imap-codec/src/envelope.rs\<close>, and what encoders of composed data write.
\<close>

section \<open>What composed encoders write\<close>

text \<open>An encoder of this development writes the same bytes whatever was written before.\<close>

definition steady :: "emitter \<Rightarrow> bool" where
  "steady e \<longleftrightarrow> writes e (flat e)"

named_theorems steady_intros \<open>encoders that write the same bytes in every context\<close>

lemma steady_write [simp, steady_intros]: "steady (write_all s)"
  by (simp add: steady_def)

lemma steady_string [simp, steady_intros]:
  "steady (IString_encode s)" "steady (AString_encode a)" "steady (NString_encode n)" "steady (Mailbox_encode m)"
  by (simp_all add: steady_def)

lemma writes_each: "list_all steady es \<Longrightarrow> writes (each es) (concat (map flat es))"
  by (induction es) (auto simp: steady_def intro!: writes_Nil writes_Cons)

lemma steady_each [simp, steady_intros]: "list_all steady es \<Longrightarrow> steady (each es)"
  using writes_each [of es] writes_flat [OF writes_each, of es] by (simp add: steady_def)

lemma flat_each [simp]: "list_all steady es \<Longrightarrow> flat (each es) = concat (map flat es)"
  by (rule writes_flat [OF writes_each])

lemma steady_skip [simp, steady_intros]: "steady skip" "flat skip = []"
proof -
  have "writes skip []" by (simp add: skip_def writes_def)
  from writes_flat [OF this] this show "steady skip" "flat skip = []" by (simp_all add: steady_def)
qed

lemma joined_Cons: "joined s (x # xs) = x @ (if xs = [] then [] else s @ joined s xs)"
  by (cases xs) simp_all

lemma joined_snoc: "joined s (xs @ [x]) = concat (map (\<lambda>y. y @ s) xs) @ x"
  by (induction xs) (simp_all add: joined_Cons del: joined.simps(2))

lemma writes_separated:
  "list_all steady es \<Longrightarrow>
     writes (each (map (\<lambda>item. each [item, write_all s]) es)) (concat (map (\<lambda>y. y @ s) (map flat es)))"
proof (induction es)
  case (Cons e es)
  then have "writes e (flat e)" by (simp add: steady_def)
  then have "writes (each [e, write_all s]) (flat e @ s @ [])"
    by (intro writes_Cons writes_Nil writes_write)
  moreover have "list_all steady es" using Cons.prems by simp
  ultimately have "writes (each (each [e, write_all s] # map (\<lambda>item. each [item, write_all s]) es))
      ((flat e @ s @ []) @ concat (map (\<lambda>y. y @ s) (map flat es)))"
    by (rule writes_Cons [OF _ Cons.IH])
  then show ?case by (simp only: list.map concat.simps append_assoc append_Nil2)
qed (simp add: writes_Nil)

lemma writes_join:
  "list_all steady es \<Longrightarrow> writes (join_serializable es s) (joined s (map flat es))"
proof (cases es rule: rev_cases)
  case Nil
  then show ?thesis using steady_skip by (simp add: join_serializable_def steady_def)
next
  case (snoc fs e)
  assume es: "list_all steady es"
  with snoc have "writes (join_serializable es s) (concat (map (\<lambda>y. y @ s) (map flat fs)) @ flat e @ [])"
    by (simp only: join_serializable_def snoc butlast_snoc last_snoc)
      (auto intro!: writes_Cons writes_Nil writes_separated simp: steady_def simp del: map_map)
  with snoc show ?thesis by (simp add: joined_snoc del: map_map)
qed

lemma writes_list1:
  "list_all steady es \<Longrightarrow>
     writes (List1OrNil es s) (if es = [] then ''NIL'' else ''('' @ joined s (map flat es) @ '')'')"
proof (cases es rule: rev_cases)
  case (snoc fs e)
  assume es: "list_all steady es"
  with snoc have "writes (List1OrNil es s)
      (''('' @ concat (map (\<lambda>y. y @ s) (map flat fs)) @ flat e @ '')'' @ [])"
    by (simp only: List1OrNil_def snoc butlast_snoc last_snoc)
      (auto intro!: writes_Cons [of _ "''(''", simplified] writes_Cons writes_Nil writes_separated
        simp: steady_def simp del: map_map)
  with snoc show ?thesis by (simp add: joined_snoc del: map_map)
qed (simp add: List1OrNil_def)

lemma steadyI: "writes e s \<Longrightarrow> steady e"
  using writes_flat [of e s] by (simp add: steady_def)

lemma steady_lists [simp, steady_intros]:
  "list_all steady es \<Longrightarrow> steady (join_serializable es s)"
  "list_all steady es \<Longrightarrow> steady (List1OrNil es s)"
  by (erule writes_join [THEN steadyI], erule writes_list1 [THEN steadyI])

lemma flat_lists [simp]:
  "list_all steady es \<Longrightarrow> flat (join_serializable es s) = joined s (map flat es)"
  "list_all steady es \<Longrightarrow>
     flat (List1OrNil es s) = (if es = [] then ''NIL'' else ''('' @ joined s (map flat es) @ '')'')"
  by (erule writes_join [THEN writes_flat], erule writes_list1 [THEN writes_flat])

lemma attributes_list1:
  "List1AttributeValueOrNil ps = List1OrNil (map (\<lambda>(a, v). each [a, write_all '' '', v]) ps) '' ''"
proof (cases ps rule: rev_cases)
  case (snoc qs q)
  have "each (map (\<lambda>(a, v). each [a, write_all '' '', v, write_all '' '']) rs) =
      each (map (\<lambda>item. each [item, write_all '' '']) (map (\<lambda>(a, v). each [a, write_all '' '', v]) rs))" for rs
    by (induction rs) (auto simp: fun_eq_iff)
  with snoc show ?thesis
    by (cases q) (simp add: List1AttributeValueOrNil_def List1OrNil_def del: each.simps map_map)
qed (simp add: List1AttributeValueOrNil_def List1OrNil_def)

text \<open>Strings that are read back as they are; a \<open>QuotedUtf8\<close> of plain text is not.\<close>

definition exact_istring :: "IString \<Rightarrow> bool" where
  "exact_istring s \<longleftrightarrow> readable_istring s \<and> reread_istring s = s"

definition exact_nstring :: "NString \<Rightarrow> bool" where
  "exact_nstring n \<longleftrightarrow> (case nstring_option n of None \<Rightarrow> True | Some s \<Rightarrow> exact_istring s)"

context core_grammar
begin

lemma exact_string [simp]:
  "exact_istring s \<Longrightarrow> rest \<noteq> [] \<Longrightarrow> string_parser N (flat (IString_encode s) @ rest) = Inr (rest, s)"
  using string_ok [of s rest] by (cases s) (simp_all add: exact_istring_def)

lemma exact_nstring [simp]:
  "exact_nstring n \<Longrightarrow> rest \<noteq> [] \<Longrightarrow> nstring_parser N (flat (NString_encode n) @ rest) = Inr (rest, n)"
  using nstring_ok [of n rest]
  by (cases n; cases "nstring_option n"; cases "the (nstring_option n)")
    (simp_all add: exact_nstring_def exact_istring_def readable_nstring_def nstring_rest_def reread_nstring_def)

end

section \<open>Envelopes\<close>

type_synonym ('n, 'a, 'c) envelope_parts =
  "'n \<times> 'c \<times> 'n \<times> 'c \<times> 'a \<times> 'c \<times> 'a \<times> 'c \<times> 'a \<times> 'c \<times> 'a \<times> 'c \<times> 'a \<times> 'c \<times> 'a \<times> 'c \<times> 'n \<times> 'c \<times> 'n"

record 'k EnvelopeNom = "'k ThreadNom" +
  n_many0_sp :: "('k, char) imap_parser \<Rightarrow> ('k, char list) imap_parser"
  n_tuple_address :: "('k, NString) imap_parser \<times> ('k, char) imap_parser \<times> ('k, NString) imap_parser \<times>
      ('k, char) imap_parser \<times> ('k, NString) imap_parser \<times> ('k, char) imap_parser \<times> ('k, NString) imap_parser \<Rightarrow>
    ('k, NString \<times> char \<times> NString \<times> char \<times> NString \<times> char \<times> NString) imap_parser"
  n_delimited_address :: "('k, bytes) imap_parser \<Rightarrow>
    ('k, NString \<times> char \<times> NString \<times> char \<times> NString \<times> char \<times> NString) imap_parser \<Rightarrow>
    ('k, bytes) imap_parser \<Rightarrow> ('k, NString \<times> char \<times> NString \<times> char \<times> NString \<times> char \<times> NString) imap_parser"
  n_preceded_address :: "('k, char list) imap_parser \<Rightarrow>
    ('k, NString \<times> char \<times> NString \<times> char \<times> NString \<times> char \<times> NString) imap_parser \<Rightarrow>
    ('k, NString \<times> char \<times> NString \<times> char \<times> NString \<times> char \<times> NString) imap_parser"
  n_many1_addresses :: "('k, Address) imap_parser \<Rightarrow> ('k, Address list) imap_parser"
  n_delimited_addresses :: "('k, bytes) imap_parser \<Rightarrow> ('k, Address list) imap_parser \<Rightarrow>
    ('k, bytes) imap_parser \<Rightarrow> ('k, Address list) imap_parser"
  n_map_no_addresses :: "('k, bytes) imap_parser \<Rightarrow> (bytes \<Rightarrow> Address list) \<Rightarrow> ('k, Address list) imap_parser"
  n_alt_addresses :: "('k, Address list) imap_parser list \<Rightarrow> ('k, Address list) imap_parser"
  n_tuple_envelope ::
    "(('k, NString) imap_parser, ('k, Address list) imap_parser, ('k, char) imap_parser) envelope_parts \<Rightarrow>
     ('k, (NString, Address list, char) envelope_parts) imap_parser"
  n_delimited_envelope :: "('k, bytes) imap_parser \<Rightarrow>
    ('k, (NString, Address list, char) envelope_parts) imap_parser \<Rightarrow> ('k, bytes) imap_parser \<Rightarrow>
    ('k, (NString, Address list, char) envelope_parts) imap_parser"

definition envelope_nom :: "('k, 'z) EnvelopeNom_scheme \<Rightarrow> bool" where
  "envelope_nom N \<longleftrightarrow> is_many0 (n_many0_sp N) \<and>
     (\<forall>n1 c1 n2 c2 n3 c3 n4. n_tuple_address N (n1, c1, n2, c2, n3, c3, n4) =
        both n1 (both c1 (both n2 (both c2 (both n3 (both c3 n4)))))) \<and>
     is_delimited (n_delimited_address N) \<and> is_preceded (n_preceded_address N) \<and>
     is_many1 (n_many1_addresses N) \<and> is_delimited (n_delimited_addresses N) \<and>
     is_map (n_map_no_addresses N) \<and> is_alt (n_alt_addresses N) \<and>
     (\<forall>n1 c1 n2 c2 a1 c3 a2 c4 a3 c5 a4 c6 a5 c7 a6 c8 n3 c9 n4.
        n_tuple_envelope N (n1, c1, n2, c2, a1, c3, a2, c4, a3, c5, a4, c6, a5, c7, a6, c8, n3, c9, n4) =
        both n1 (both c1 (both n2 (both c2 (both a1 (both c3 (both a2 (both c4 (both a3 (both c5 (both a4
          (both c6 (both a5 (both c7 (both a6 (both c8 (both n3 (both c9 n4)))))))))))))))))) \<and>
     is_delimited (n_delimited_envelope N)"

definition address_parser :: "('k, 'z) EnvelopeNom_scheme \<Rightarrow> ('k, Address) imap_parser" where
  "address_parser N input =
     res_bind (n_preceded_address N (n_many0_sp N (a_sp N))
         (n_delimited_address N
            (n_tag N ''('')
            (n_tuple_address N (nstring_parser N, a_sp N, nstring_parser N, a_sp N, nstring_parser N, a_sp N,
               nstring_parser N))
            (n_tag N '')'')) input)
       (\<lambda>(remaining, name, _, adl, _, mailbox, _, host).
         Inr (remaining, \<lparr>addr_name = name, addr_adl = adl, addr_mailbox = mailbox, addr_host = host\<rparr>))"

text \<open>\<open>env_from\<close>, \<open>env_sender\<close>, \<open>env_reply_to\<close>, \<open>env_to\<close>, \<open>env_cc\<close> and \<open>env_bcc\<close> are the same code.\<close>

definition env_addresses :: "('k, 'z) EnvelopeNom_scheme \<Rightarrow> ('k, Address list) imap_parser" where
  "env_addresses N =
     n_alt_addresses N [
       n_delimited_addresses N (n_tag N ''('') (n_many1_addresses N (address_parser N)) (n_tag N '')''),
       n_map_no_addresses N (nil_parser N) (\<lambda>_. [])]"

definition envelope_parser :: "('k, 'z) EnvelopeNom_scheme \<Rightarrow> ('k, Envelope) imap_parser" where
  "envelope_parser N input =
     res_bind (n_delimited_envelope N
         (n_tag N ''('')
         (n_tuple_envelope N (
            nstring_parser N, a_sp N, nstring_parser N, a_sp N, env_addresses N, a_sp N,
            env_addresses N, a_sp N, env_addresses N, a_sp N, env_addresses N, a_sp N,
            env_addresses N, a_sp N, env_addresses N, a_sp N, nstring_parser N, a_sp N, nstring_parser N))
         (n_tag N '')'') input)
       (\<lambda>(remaining, date, _, subject, _, from, _, sender, _, reply_to, _, to, _, cc, _, bcc, _,
            in_reply_to, _, message_id).
         Inr (remaining, \<lparr>env_date = date, env_subject = subject, env_from = from, env_sender = sender,
           env_reply_to = reply_to, env_to = to, env_cc = cc, env_bcc = bcc,
           env_in_reply_to = in_reply_to, env_message_id = message_id\<rparr>))"

definition exact_address :: "Address \<Rightarrow> bool" where
  "exact_address a \<longleftrightarrow> exact_nstring (addr_name a) \<and> exact_nstring (addr_adl a) \<and>
     exact_nstring (addr_mailbox a) \<and> exact_nstring (addr_host a)"

definition exact_envelope :: "Envelope \<Rightarrow> bool" where
  "exact_envelope e \<longleftrightarrow> exact_nstring (env_date e) \<and> exact_nstring (env_subject e) \<and>
     list_all exact_address (env_from e) \<and> list_all exact_address (env_sender e) \<and>
     list_all exact_address (env_reply_to e) \<and> list_all exact_address (env_to e) \<and>
     list_all exact_address (env_cc e) \<and> list_all exact_address (env_bcc e) \<and>
     exact_nstring (env_in_reply_to e) \<and> exact_nstring (env_message_id e)"

lemma steady_address [simp, steady_intros]: "steady (Address_encode a)"
  by (simp add: Address_encode_def)

lemma flat_address: "flat (Address_encode a) = ''('' @ flat (NString_encode (addr_name a)) @ '' '' @
    flat (NString_encode (addr_adl a)) @ '' '' @ flat (NString_encode (addr_mailbox a)) @ '' '' @
    flat (NString_encode (addr_host a)) @ '')''"
  by (simp add: Address_encode_def)

lemma steady_addresses [simp]: "list_all steady (map Address_encode as)"
  by (induction as) simp_all

lemma steady_envelope [simp, steady_intros]: "steady (Envelope_encode e)"
  by (simp add: Envelope_encode_def)

locale envelope_grammar = core_grammar N for N :: "('k, 'z) EnvelopeNom_scheme" +
  assumes envelope: "envelope_nom N"
begin

lemmas envelope_facts [simp] = envelope [unfolded envelope_nom_def]
lemmas envelope_choice [simp] = envelope [unfolded envelope_nom_def is_alt_def]

lemma many1_addresses: "at_least 1 (n_many1_addresses N)"
  using envelope by (simp add: envelope_nom_def is_many1_def)

lemma address_advances [simp]: "advances (address_parser N)"
  unfolding address_parser_def
  by (rule rest_bind(2)) (auto simp: rest_rules rest_many0 [of "n_many0_sp N"])

lemma addresses_advances [simp]: "advances (env_addresses N)"
  by (simp add: env_addresses_def nil_parser_def rest_rules rest_alt rest_at_least [OF many1_addresses])

lemma no_spaces [simp]: "c \<noteq> sp \<Longrightarrow> n_many0_sp N (a_sp N) (c # i) = Inr (c # i, [])"
proof -
  assume c: "c \<noteq> sp"
  have "is_error (a_sp N (c # i))" using c by simp
  then show ?thesis
    using envelope_facts by (cases "a_sp N (c # i)") (auto simp: is_many0_def many_items_step)
qed

lemma address_ok: "exact_address a \<Longrightarrow> address_parser N (flat (Address_encode a) @ r) = Inr (r, a)"
  by (simp add: address_parser_def nom_apply flat_address exact_address_def)

lemma address_error: "c \<noteq> sp \<Longrightarrow> c \<noteq> CHR ''('' \<Longrightarrow> is_error (address_parser N (c # i))"
  by (simp add: address_parser_def nom_apply)

lemma addresses_ok [simp]:
  assumes "list_all exact_address as"
  shows "env_addresses N (flat (List1OrNil (map Address_encode as) []) @ r) = Inr (r, as)"
proof (cases "as = []")
  case True
  then show ?thesis by (simp add: env_addresses_def nil_parser_def nom_apply)
next
  case False
  have "joined [] ys = concat ys" for ys by (induction ys) (simp_all add: joined_Cons del: joined.simps(2))
  then have flat: "flat (List1OrNil (map Address_encode as) []) =
      ''('' @ concat (map (\<lambda>a. flat (Address_encode a)) as) @ '')''"
    using False by (simp add: o_def)
  have "many_items (address_parser N) (concat (map (\<lambda>a. flat (Address_encode a)) as) @ CHR '')'' # r) =
      Inr (CHR '')'' # r, as)"
    by (rule many_items_ok) (use assms in \<open>simp_all add: address_error address_ok list_all_iff\<close>)
  then have "n_many1_addresses N (address_parser N)
      (concat (map (\<lambda>a. flat (Address_encode a)) as) @ CHR '')'' # r) = Inr (CHR '')'' # r, as)"
    using many1_addresses False by (simp add: at_least_def Suc_le_eq)
  then show ?thesis unfolding flat by (simp add: env_addresses_def nom_apply)
qed

lemma envelope_ok: "exact_envelope e \<Longrightarrow> envelope_parser N (flat (Envelope_encode e) @ r) = Inr (r, e)"
  by (simp add: envelope_parser_def nom_apply Envelope_encode_def exact_envelope_def del: flat_lists(2))

end

section \<open>A concrete instance\<close>

definition c_envelope :: "unit EnvelopeNom" where
  "c_envelope = ThreadNom.extend c_thread \<lparr>n_many0_sp = c_many 0,
     n_tuple_address = (\<lambda>(n1, c1, n2, c2, n3, c3, n4).
       both n1 (both c1 (both n2 (both c2 (both n3 (both c3 n4)))))),
     n_delimited_address = c_delimited, n_preceded_address = c_preceded,
     n_many1_addresses = c_many 1, n_delimited_addresses = c_delimited, n_map_no_addresses = mapped,
     n_alt_addresses = c_alt,
     n_tuple_envelope = (\<lambda>(n1, c1, n2, c2, a1, c3, a2, c4, a3, c5, a4, c6, a5, c7, a6, c8, n3, c9, n4).
       both n1 (both c1 (both n2 (both c2 (both a1 (both c3 (both a2 (both c4 (both a3 (both c5 (both a4
         (both c6 (both a5 (both c7 (both a6 (both c8 (both n3 (both c9 n4)))))))))))))))))),
     n_delimited_envelope = c_delimited\<rparr>"

lemma c_envelope_ok: "core_nom c_envelope" "seq_nom c_envelope" "mail_nom c_envelope" "thread_nom c_envelope"
    "envelope_nom c_envelope"
proof -
  show "core_nom c_envelope"
    using c_thread_ok(1) unfolding core_nom_def bytes_nom_def c_envelope_def ThreadNom.extend_def by simp
  show "seq_nom c_envelope"
    using c_thread_ok(2) unfolding seq_nom_def c_envelope_def ThreadNom.extend_def by simp
  show "mail_nom c_envelope"
    using c_thread_ok(3) unfolding mail_nom_def c_envelope_def ThreadNom.extend_def by simp
  show "thread_nom c_envelope"
    using c_thread_ok(4) unfolding thread_nom_def c_envelope_def ThreadNom.extend_def by simp
  show "envelope_nom c_envelope"
    using c_many_ok unfolding envelope_nom_def c_envelope_def ThreadNom.extend_def
    by (simp add: c_alt_ok)
qed

interpretation c_envelope: envelope_grammar c_envelope
  by unfold_locales (fact c_envelope_ok)+

end
