(* ===== verification/Imap_Parse_Body.thy ===== *)
theory Imap_Parse_Body
  imports Imap_Parse_Envelope
begin

text \<open>
  The parsers of \<open>imap-codec/src/body.rs\<close> against what the encoder writes, and how deep they recurse.
\<close>

section \<open>The combinators in use\<close>

type_synonym ('p, 'n, 'i, 'u, 'c) field_parts = "'p \<times> 'c \<times> 'n \<times> 'c \<times> 'n \<times> 'c \<times> 'i \<times> 'c \<times> 'u"
type_synonym ('m, 'f, 'e, 'b, 'u, 'c) message_parts = "'m \<times> 'c \<times> 'f \<times> 'c \<times> 'e \<times> 'c \<times> 'b \<times> 'c \<times> 'u"
type_synonym Parameters = "(IString \<times> IString) list"
type_synonym DispositionValue = "(IString \<times> Parameters) option"
type_synonym Specific = "BasicFields \<times> SpecificFields"

record 'k PartNom = "'k EnvelopeNom" +
  n_tuple_strings :: "('k, IString) imap_parser \<times> ('k, char) imap_parser \<times> ('k, IString) imap_parser \<Rightarrow>
    ('k, IString \<times> char \<times> IString) imap_parser"
  n_map_strings :: "('k, IString \<times> char \<times> IString) imap_parser \<Rightarrow>
    (IString \<times> char \<times> IString \<Rightarrow> IString \<times> IString) \<Rightarrow> ('k, IString \<times> IString) imap_parser"
  n_separated_params :: "('k, char) imap_parser \<Rightarrow> ('k, IString \<times> IString) imap_parser \<Rightarrow>
    ('k, Parameters) imap_parser"
  n_delimited_params :: "('k, bytes) imap_parser \<Rightarrow> ('k, Parameters) imap_parser \<Rightarrow>
    ('k, bytes) imap_parser \<Rightarrow> ('k, Parameters) imap_parser"
  n_map_no_params :: "('k, bytes) imap_parser \<Rightarrow> (bytes \<Rightarrow> Parameters) \<Rightarrow> ('k, Parameters) imap_parser"
  n_alt_params :: "('k, Parameters) imap_parser list \<Rightarrow> ('k, Parameters) imap_parser"
  n_map_enc :: "('k, NString) imap_parser \<Rightarrow> (NString \<Rightarrow> IString) \<Rightarrow> ('k, IString) imap_parser"
  n_tuple_negative :: "('k, bytes) imap_parser \<times> ('k, u32) imap_parser \<Rightarrow> ('k, bytes \<times> u32) imap_parser"
  n_map_negative :: "('k, bytes \<times> u32) imap_parser \<Rightarrow> (bytes \<times> u32 \<Rightarrow> u32) \<Rightarrow> ('k, u32) imap_parser"
  n_alt_octets :: "('k, u32) imap_parser list \<Rightarrow> ('k, u32) imap_parser"
  n_tuple_fields ::
    "(('k, Parameters) imap_parser, ('k, NString) imap_parser, ('k, IString) imap_parser,
      ('k, u32) imap_parser, ('k, char) imap_parser) field_parts \<Rightarrow>
     ('k, (Parameters, NString, IString, u32, char) field_parts) imap_parser"
  n_tuple_dsp :: "('k, IString) imap_parser \<times> ('k, char) imap_parser \<times> ('k, Parameters) imap_parser \<Rightarrow>
    ('k, IString \<times> char \<times> Parameters) imap_parser"
  n_map_dsp :: "('k, IString \<times> char \<times> Parameters) imap_parser \<Rightarrow>
    (IString \<times> char \<times> Parameters \<Rightarrow> DispositionValue) \<Rightarrow> ('k, DispositionValue) imap_parser"
  n_delimited_dsp :: "('k, bytes) imap_parser \<Rightarrow> ('k, DispositionValue) imap_parser \<Rightarrow>
    ('k, bytes) imap_parser \<Rightarrow> ('k, DispositionValue) imap_parser"
  n_map_no_dsp :: "('k, bytes) imap_parser \<Rightarrow> (bytes \<Rightarrow> DispositionValue) \<Rightarrow> ('k, DispositionValue) imap_parser"
  n_alt_dsp :: "('k, DispositionValue) imap_parser list \<Rightarrow> ('k, DispositionValue) imap_parser"
  n_map_lang :: "('k, NString) imap_parser \<Rightarrow> (NString \<Rightarrow> IString list) \<Rightarrow> ('k, IString list) imap_parser"
  n_separated_langs :: "('k, char) imap_parser \<Rightarrow> ('k, IString) imap_parser \<Rightarrow> ('k, IString list) imap_parser"
  n_delimited_langs :: "('k, bytes) imap_parser \<Rightarrow> ('k, IString list) imap_parser \<Rightarrow>
    ('k, bytes) imap_parser \<Rightarrow> ('k, IString list) imap_parser"
  n_alt_langs :: "('k, IString list) imap_parser list \<Rightarrow> ('k, IString list) imap_parser"
  n_map_ext_nstring :: "('k, NString) imap_parser \<Rightarrow> (NString \<Rightarrow> BodyExtension) \<Rightarrow> ('k, BodyExtension) imap_parser"
  n_map_ext_number :: "('k, u32) imap_parser \<Rightarrow> (u32 \<Rightarrow> BodyExtension) \<Rightarrow> ('k, BodyExtension) imap_parser"
  n_separated_exts :: "('k, char) imap_parser \<Rightarrow> ('k, BodyExtension) imap_parser \<Rightarrow>
    ('k, BodyExtension list) imap_parser"
  n_delimited_exts :: "('k, bytes) imap_parser \<Rightarrow> ('k, BodyExtension list) imap_parser \<Rightarrow>
    ('k, bytes) imap_parser \<Rightarrow> ('k, BodyExtension list) imap_parser"
  n_map_ext_list :: "('k, BodyExtension list) imap_parser \<Rightarrow> (BodyExtension list \<Rightarrow> BodyExtension) \<Rightarrow>
    ('k, BodyExtension) imap_parser"
  n_alt_ext :: "('k, BodyExtension) imap_parser list \<Rightarrow> ('k, BodyExtension) imap_parser"
  n_preceded_loc :: "('k, char) imap_parser \<Rightarrow> ('k, NString) imap_parser \<Rightarrow> ('k, NString) imap_parser"
  n_preceded_ext :: "('k, char) imap_parser \<Rightarrow> ('k, BodyExtension) imap_parser \<Rightarrow> ('k, BodyExtension) imap_parser"
  n_many0_ext :: "('k, BodyExtension) imap_parser \<Rightarrow> ('k, BodyExtension list) imap_parser"
  n_tuple_loc :: "('k, NString) imap_parser \<times> ('k, BodyExtension list) imap_parser \<Rightarrow>
    ('k, NString \<times> BodyExtension list) imap_parser"
  n_map_loc :: "('k, NString \<times> BodyExtension list) imap_parser \<Rightarrow>
    (NString \<times> BodyExtension list \<Rightarrow> Location) \<Rightarrow> ('k, Location) imap_parser"
  n_opt_loc :: "('k, Location) imap_parser \<Rightarrow> ('k, Location option) imap_parser"
  n_preceded_lang :: "('k, char) imap_parser \<Rightarrow> ('k, IString list) imap_parser \<Rightarrow> ('k, IString list) imap_parser"
  n_tuple_lang :: "('k, IString list) imap_parser \<times> ('k, Location option) imap_parser \<Rightarrow>
    ('k, IString list \<times> Location option) imap_parser"
  n_map_language :: "('k, IString list \<times> Location option) imap_parser \<Rightarrow>
    (IString list \<times> Location option \<Rightarrow> Language) \<Rightarrow> ('k, Language) imap_parser"
  n_opt_lang :: "('k, Language) imap_parser \<Rightarrow> ('k, Language option) imap_parser"
  n_preceded_dsp :: "('k, char) imap_parser \<Rightarrow> ('k, DispositionValue) imap_parser \<Rightarrow>
    ('k, DispositionValue) imap_parser"
  n_tuple_disposition :: "('k, DispositionValue) imap_parser \<times> ('k, Language option) imap_parser \<Rightarrow>
    ('k, DispositionValue \<times> Language option) imap_parser"
  n_map_disposition :: "('k, DispositionValue \<times> Language option) imap_parser \<Rightarrow>
    (DispositionValue \<times> Language option \<Rightarrow> Disposition) \<Rightarrow> ('k, Disposition) imap_parser"
  n_opt_disposition :: "('k, Disposition) imap_parser \<Rightarrow> ('k, Disposition option) imap_parser"
  n_tuple_single :: "('k, NString) imap_parser \<times> ('k, Disposition option) imap_parser \<Rightarrow>
    ('k, NString \<times> Disposition option) imap_parser"
  n_map_single_ext :: "('k, NString \<times> Disposition option) imap_parser \<Rightarrow>
    (NString \<times> Disposition option \<Rightarrow> SinglePartExtensionData) \<Rightarrow> ('k, SinglePartExtensionData) imap_parser"
  n_tuple_multi :: "('k, Parameters) imap_parser \<times> ('k, Disposition option) imap_parser \<Rightarrow>
    ('k, Parameters \<times> Disposition option) imap_parser"
  n_map_multi_ext :: "('k, Parameters \<times> Disposition option) imap_parser \<Rightarrow>
    (Parameters \<times> Disposition option \<Rightarrow> MultiPartExtensionData) \<Rightarrow> ('k, MultiPartExtensionData) imap_parser"

definition part_nom :: "('k, 'z) PartNom_scheme \<Rightarrow> bool" where
  "part_nom N \<longleftrightarrow> is_tuple3 (n_tuple_strings N) \<and> is_map (n_map_strings N) \<and>
     is_separated_list0 (n_separated_params N) \<and> is_delimited (n_delimited_params N) \<and>
     is_map (n_map_no_params N) \<and> is_alt (n_alt_params N) \<and> is_map (n_map_enc N) \<and>
     is_tuple2 (n_tuple_negative N) \<and> is_map (n_map_negative N) \<and> is_alt (n_alt_octets N) \<and>
     (\<forall>p c1 n1 c2 n2 c3 i c4 u. n_tuple_fields N (p, c1, n1, c2, n2, c3, i, c4, u) =
        both p (both c1 (both n1 (both c2 (both n2 (both c3 (both i (both c4 u)))))))) \<and>
     is_tuple3 (n_tuple_dsp N) \<and> is_map (n_map_dsp N) \<and> is_delimited (n_delimited_dsp N) \<and>
     is_map (n_map_no_dsp N) \<and> is_alt (n_alt_dsp N) \<and> is_map (n_map_lang N) \<and>
     is_separated_list1 (n_separated_langs N) \<and> is_delimited (n_delimited_langs N) \<and>
     is_alt (n_alt_langs N) \<and> is_map (n_map_ext_nstring N) \<and> is_map (n_map_ext_number N) \<and>
     is_separated_list1 (n_separated_exts N) \<and> is_delimited (n_delimited_exts N) \<and>
     is_map (n_map_ext_list N) \<and> is_alt (n_alt_ext N) \<and> is_preceded (n_preceded_loc N) \<and>
     is_preceded (n_preceded_ext N) \<and> is_many0 (n_many0_ext N) \<and> is_tuple2 (n_tuple_loc N) \<and>
     is_map (n_map_loc N) \<and> is_opt (n_opt_loc N) \<and> is_preceded (n_preceded_lang N) \<and>
     is_tuple2 (n_tuple_lang N) \<and> is_map (n_map_language N) \<and> is_opt (n_opt_lang N) \<and>
     is_preceded (n_preceded_dsp N) \<and> is_tuple2 (n_tuple_disposition N) \<and>
     is_map (n_map_disposition N) \<and> is_opt (n_opt_disposition N) \<and> is_tuple2 (n_tuple_single N) \<and>
     is_map (n_map_single_ext N) \<and> is_tuple2 (n_tuple_multi N) \<and> is_map (n_map_multi_ext N)"

section \<open>Fields and extension data\<close>

definition media_message :: "('k, 'z) PartNom_scheme \<Rightarrow> ('k, bytes) imap_parser" where
  "media_message N = n_tag_no_case N ([dquote] @ ''MESSAGE'' @ [dquote, sp, dquote] @ ''RFC822'' @ [dquote])"

definition media_basic :: "('k, 'z) PartNom_scheme \<Rightarrow> ('k, IString \<times> IString) imap_parser" where
  "media_basic N input =
     res_bind (n_tuple_strings N (string_parser N, a_sp N, string_parser N) input)
       (\<lambda>(remaining, type, _, subtype). Inr (remaining, type, subtype))"

definition body_fld_param :: "('k, 'z) PartNom_scheme \<Rightarrow> ('k, Parameters) imap_parser" where
  "body_fld_param N input =
     res_bind (n_alt_params N [
         n_delimited_params N
           (n_tag N ''('')
           (n_separated_params N (a_sp N)
             (n_map_strings N (n_tuple_strings N (string_parser N, a_sp N, string_parser N))
               (\<lambda>(key, _, value). (key, value))))
           (n_tag N '')''),
         n_map_no_params N (nil_parser N) (\<lambda>_. [])] input)
       (\<lambda>(remaining, parsed_body_fld_param). Inr (remaining, parsed_body_fld_param))"

definition body_fld_enc :: "('k, 'z) PartNom_scheme \<Rightarrow> ('k, IString) imap_parser" where
  "body_fld_enc N =
     n_map_enc N (nstring_parser N)
       (\<lambda>enc. case nstring_option enc of Some enc \<Rightarrow> enc | None \<Rightarrow> projr (IString_try_from []))"

definition body_fld_octets :: "('k, 'z) PartNom_scheme \<Rightarrow> ('k, u32) imap_parser" where
  "body_fld_octets N =
     n_alt_octets N [
       number_parser N,
       n_map_negative N (n_tuple_negative N (n_tag N ''-'', number_parser N)) (\<lambda>(_, _). 0)]"

definition body_fields_parser :: "('k, 'z) PartNom_scheme \<Rightarrow> ('k, BasicFields) imap_parser" where
  "body_fields_parser N input =
     res_bind (n_tuple_fields N (body_fld_param N, a_sp N, nstring_parser N, a_sp N, nstring_parser N, a_sp N,
         body_fld_enc N, a_sp N, body_fld_octets N) input)
       (\<lambda>(remaining, parameter_list, _, id, _, description, _, content_transfer_encoding, _, size).
         Inr (remaining, \<lparr>bf_parameter_list = parameter_list, bf_id = id, bf_description = description,
           bf_content_transfer_encoding = content_transfer_encoding, bf_size = size\<rparr>))"

definition body_fld_dsp :: "('k, 'z) PartNom_scheme \<Rightarrow> ('k, DispositionValue) imap_parser" where
  "body_fld_dsp N =
     n_alt_dsp N [
       n_delimited_dsp N
         (n_tag N ''('')
         (n_map_dsp N (n_tuple_dsp N (string_parser N, a_sp N, body_fld_param N))
           (\<lambda>(string, _, body_fld_param). Some (string, body_fld_param)))
         (n_tag N '')''),
       n_map_no_dsp N (nil_parser N) (\<lambda>_. None)]"

definition body_fld_lang :: "('k, 'z) PartNom_scheme \<Rightarrow> ('k, IString list) imap_parser" where
  "body_fld_lang N =
     n_alt_langs N [
       n_map_lang N (nstring_parser N)
         (\<lambda>nstring. case nstring_option nstring of Some item \<Rightarrow> [item] | None \<Rightarrow> []),
       n_delimited_langs N (n_tag N ''('') (n_separated_langs N (a_sp N) (string_parser N)) (n_tag N '')'')]"

fun body_extension_limited :: "('k, 'z) PartNom_scheme \<Rightarrow> nat \<Rightarrow> ('k, BodyExtension) imap_parser" where
  "body_extension_limited N remaining_recursion input =
     (if remaining_recursion = 0 then
        Inl (Nom_Failure \<lparr>pe_input = input, pe_kind = Kind_RecursionLimitExceeded\<rparr>)
      else
        let body_extension = (\<lambda>input. body_extension_limited N (remaining_recursion - 1) input) in
        n_alt_ext N [
          n_map_ext_nstring N (nstring_parser N) BodyExtension_NString,
          n_map_ext_number N (number_parser N) BodyExtension_Number,
          n_map_ext_list N
            (n_delimited_exts N (n_tag N ''('') (n_separated_exts N (a_sp N) body_extension) (n_tag N '')''))
            BodyExtension_List] input)"

declare body_extension_limited.simps [simp del]

definition body_extension :: "('k, 'z) PartNom_scheme \<Rightarrow> nat \<Rightarrow> ('k, BodyExtension) imap_parser" where
  "body_extension N remaining_recursions = (\<lambda>input. body_extension_limited N remaining_recursions input)"

text \<open>The tail of the extension data is the same expression in \<open>body_ext_1part\<close> and \<open>body_ext_mpart\<close>.\<close>

definition body_ext_tail :: "('k, 'z) PartNom_scheme \<Rightarrow> ('k, Disposition) imap_parser" where
  "body_ext_tail N =
     n_map_disposition N (n_tuple_disposition N (
         n_preceded_dsp N (a_sp N) (body_fld_dsp N),
         n_opt_lang N (n_map_language N (n_tuple_lang N (
             n_preceded_lang N (a_sp N) (body_fld_lang N),
             n_opt_loc N (n_map_loc N (n_tuple_loc N (
                 n_preceded_loc N (a_sp N) (nstring_parser N),
                 n_many0_ext N (n_preceded_ext N (a_sp N) (body_extension N 8))))
               (\<lambda>(location, extensions). \<lparr>loc_location = location, loc_extensions = extensions\<rparr>))))
           (\<lambda>(language, tail). \<lparr>lang_language = language, lang_tail = tail\<rparr>))))
       (\<lambda>(disposition, tail). \<lparr>disp_disposition = disposition, disp_tail = tail\<rparr>)"

definition body_ext_1part :: "('k, 'z) PartNom_scheme \<Rightarrow> ('k, SinglePartExtensionData) imap_parser" where
  "body_ext_1part N =
     n_map_single_ext N (n_tuple_single N (nstring_parser N, n_opt_disposition N (body_ext_tail N)))
       (\<lambda>(md5, tail). \<lparr>sp_md5 = md5, sp_tail = tail\<rparr>)"

definition body_ext_mpart :: "('k, 'z) PartNom_scheme \<Rightarrow> ('k, MultiPartExtensionData) imap_parser" where
  "body_ext_mpart N =
     n_map_multi_ext N (n_tuple_multi N (body_fld_param N, n_opt_disposition N (body_ext_tail N)))
       (\<lambda>(parameter_list, tail). \<lparr>mp_parameter_list = parameter_list, mp_tail = tail\<rparr>)"

section \<open>Reading back fields and extension data\<close>

text \<open>What the encoder writes for the parts is followed by a space or by the parenthesis that closes the
  part around them.\<close>

definition closes :: "bytes \<Rightarrow> bool" where
  "closes r \<longleftrightarrow> r \<noteq> [] \<and> (hd r = sp \<or> hd r = CHR '')'')"

lemma closes_simps [simp]: "closes (c # r) \<longleftrightarrow> c = sp \<or> c = CHR '')''" "\<not> closes []"
  by (auto simp: closes_def)

lemma closesE: "closes r \<Longrightarrow> (\<And>c t. r = c # t \<Longrightarrow> c = sp \<or> c = CHR '')'' \<Longrightarrow> thesis) \<Longrightarrow> thesis"
  by (cases r) auto

lemma closes_ends [simp]: "closes r \<Longrightarrow> r \<noteq> [] \<and> ends is_digit r"
  by (elim closesE) (auto simp: is_digit_def)

definition exact_params :: "Parameters \<Rightarrow> bool" where
  "exact_params ps \<longleftrightarrow> list_all (\<lambda>(k, v). exact_istring k \<and> exact_istring v) ps"

definition exact_fields :: "BasicFields \<Rightarrow> bool" where
  "exact_fields b \<longleftrightarrow> exact_params (bf_parameter_list b) \<and> exact_nstring (bf_id b) \<and>
     exact_nstring (bf_description b) \<and> exact_istring (bf_content_transfer_encoding b)"

fun exact_extension :: "BodyExtension \<Rightarrow> bool" where
  "exact_extension (BodyExtension_NString n) \<longleftrightarrow> exact_nstring n"
| "exact_extension (BodyExtension_Number n) \<longleftrightarrow> True"
| "exact_extension (BodyExtension_List xs) \<longleftrightarrow> xs \<noteq> [] \<and> list_all exact_extension xs"

fun extension_depth :: "BodyExtension \<Rightarrow> nat" where
  "extension_depth (BodyExtension_List xs) = Suc (fold max (map extension_depth xs) 0)"
| "extension_depth _ = 1"

definition exact_disposition :: "Disposition \<Rightarrow> bool" where
  "exact_disposition d \<longleftrightarrow>
     pred_option (\<lambda>(s, ps). exact_istring s \<and> exact_params ps) (disp_disposition d) \<and>
     pred_option (\<lambda>l. list_all exact_istring (lang_language l) \<and>
       pred_option (\<lambda>x. exact_nstring (loc_location x) \<and>
           list_all (\<lambda>e. exact_extension e \<and> extension_depth e \<le> 8) (loc_extensions x))
         (lang_tail l)) (disp_tail d)"

lemma steady_u32 [simp, steady_intros]: "steady (u32_encode n)"
  by (simp add: u32_encode_def)

lemma steady_map: "(\<And>x. x \<in> set xs \<Longrightarrow> steady (f x)) \<Longrightarrow> list_all steady (map f xs)"
  by (simp add: list_all_iff)

lemma steady_attributes [simp]: "steady (List1AttributeValueOrNil (attributes ps))"
  unfolding attributes_list1 attributes_def
  by (intro steady_lists) (auto simp: list_all_iff)

lemma flat_attributes: "flat (List1AttributeValueOrNil (attributes ps)) =
    (if ps = [] then ''NIL'' else ''('' @
       joined '' '' (map (\<lambda>(k, v). flat (IString_encode k) @ '' '' @ flat (IString_encode v)) ps) @ '')'')"
proof -
  let ?es = "map (\<lambda>(a, v). each [a, write_all '' '', v]) (attributes ps)"
  have st: "list_all steady ?es" by (auto simp: attributes_def list_all_iff)
  have "map flat ?es = map (\<lambda>(k, v). flat (IString_encode k) @ '' '' @ flat (IString_encode v)) ps"
    by (auto simp: attributes_def)
  then show ?thesis
    unfolding attributes_list1 flat_lists(2) [OF st] by (simp add: attributes_def del: map_map)
qed

lemma steady_extension [simp, steady_intros]: "steady (BodyExtension_encode x)"
proof (induction x)
  case (BodyExtension_List xs)
  then have "list_all steady (map BodyExtension_encode xs)" by (simp add: list_all_iff)
  then show ?case unfolding BodyExtension_encode.simps by (intro steady_each) simp
qed simp_all

lemma flat_extension_list: "flat (BodyExtension_encode (BodyExtension_List xs)) =
    ''('' @ joined '' '' (map (\<lambda>x. flat (BodyExtension_encode x)) xs) @ '')''"
proof -
  have st: "list_all steady (map BodyExtension_encode xs)" by (intro steady_map) simp
  have "flat (BodyExtension_encode (BodyExtension_List xs)) =
      flat (write_all ''('') @ flat (join_serializable (map BodyExtension_encode xs) '' '') @ flat (write_all '')'') @ []"
    unfolding BodyExtension_encode.simps by (subst flat_each) (simp_all add: st)
  then show ?thesis by (simp add: st o_def)
qed

lemma steady_fields [simp, steady_intros]: "steady (BasicFields_encode b)"
  by (simp add: BasicFields_encode_def)

lemma steady_tail [simp]: "(\<And>x. t = Some x \<Longrightarrow> steady (enc x)) \<Longrightarrow> steady (tail_encode enc t)"
  by (cases t) (simp_all add: tail_encode_def)

lemma flat_tail: "(\<And>x. t = Some x \<Longrightarrow> steady (enc x)) \<Longrightarrow>
    flat (tail_encode enc t) = (case t of Some x \<Rightarrow> '' '' @ flat (enc x) | None \<Rightarrow> [])"
  by (cases t) (simp_all add: tail_encode_def)

locale part_grammar = envelope_grammar N for N :: "('k, 'z) PartNom_scheme" +
  assumes part: "part_nom N"
begin

lemmas part_facts [simp] = part [unfolded part_nom_def]
lemmas part_choice [simp] = part [unfolded part_nom_def is_alt_def]

lemma nstring_error: "c \<noteq> dquote \<Longrightarrow> c \<noteq> CHR ''{'' \<Longrightarrow> ascii_lower c \<noteq> CHR ''n'' \<Longrightarrow>
    is_error (nstring_parser N (c # i))"
proof -
  assume c: "c \<noteq> dquote" "c \<noteq> CHR ''{''" "ascii_lower c \<noteq> CHR ''n''"
  have "ascii_lower (CHR ''N'') = CHR ''n''" by code_simp
  with c show ?thesis by (auto simp: nstring_parser_def nil_parser_def nom_apply)
qed

lemma params_ok [simp]:
  assumes "exact_params ps"
  shows "body_fld_param N (flat (List1AttributeValueOrNil (attributes ps)) @ r) = Inr (r, ps)"
proof -
  let ?p = "mapped (both (string_parser N) (both (a_sp N) (string_parser N))) (\<lambda>(key, _, value). (key, value))"
  show ?thesis
  proof (cases "ps = []")
    case True
    then show ?thesis by (simp add: body_fld_param_def flat_attributes nil_parser_def nom_apply)
  next
    case False
    have "n_separated_params N (a_sp N) ?p (joined '' '' (map (\<lambda>(k, v). flat (IString_encode k) @ '' '' @
        flat (IString_encode v)) ps) @ CHR '')'' # r) = Inr (CHR '')'' # r, ps)"
    proof (rule separated_list_ok(2) [where ok = "\<lambda>r. r \<noteq> []" and y = sp])
      show "?p ((case x of (k, v) \<Rightarrow> flat (IString_encode k) @ '' '' @ flat (IString_encode v)) @ t) = Inr (t, x)"
        if "x \<in> set ps" "t \<noteq> []" for x t
        using that assms by (cases x) (auto simp: exact_params_def list_all_iff nom_apply)
    qed (use False in \<open>simp_all add: rest_rules\<close>)
    with False show ?thesis by (simp add: body_fld_param_def flat_attributes nom_apply)
  qed
qed

lemma fields_ok [simp]:
  assumes "exact_fields b" "closes r"
  shows "body_fields_parser N (flat (BasicFields_encode b) @ r) = Inr (r, b)"
proof -
  have enc: "body_fld_enc N (flat (IString_encode s) @ t) = Inr (t, s)" if "exact_istring s" "t \<noteq> []" for s t
    using exact_nstring [of "NString (Some s)" t] that by (simp add: body_fld_enc_def nom_apply exact_nstring_def)
  show ?thesis
    using assms closes_ends [OF assms(2)]
    by (simp add: body_fields_parser_def body_fld_octets_def nom_apply BasicFields_encode_def
        exact_fields_def enc)
qed

lemma langs_ok [simp]:
  assumes "list_all exact_istring ls" "closes r"
  shows "body_fld_lang N (flat (List1OrNil (map IString_encode ls) '' '') @ r) = Inr (r, ls)"
proof (cases "ls = []")
  case True
  with assms exact_nstring [of "NString None" r] show ?thesis
    by (simp add: body_fld_lang_def nom_apply exact_nstring_def)
next
  case False
  have st: "list_all steady (map IString_encode ls)" by (intro steady_map) simp
  have "n_separated_langs N (a_sp N) (string_parser N)
      (joined '' '' (map (\<lambda>l. flat (IString_encode l)) ls) @ CHR '')'' # r) = Inr (CHR '')'' # r, ls)"
  proof (rule separated_list_ok(1) [where ok = "\<lambda>r. r \<noteq> []" and y = sp])
    show "string_parser N (flat (IString_encode l) @ t) = Inr (t, l)" if "l \<in> set ls" "t \<noteq> []" for l t
      using that assms by (auto simp: list_all_iff)
  qed (use False in \<open>simp_all add: rest_rules\<close>)
  moreover have "ascii_lower CHR ''('' \<noteq> CHR ''n''" by code_simp
  ultimately show ?thesis
    using False by (simp add: body_fld_lang_def nom_apply nstring_error st o_def)
qed

lemma dsp_ok [simp]:
  assumes "pred_option (\<lambda>(s, ps). exact_istring s \<and> exact_params ps) d"
  shows "body_fld_dsp N (flat (case d of
        Some (s, ps) \<Rightarrow> each [write_all ''('', IString_encode s, write_all '' '',
          List1AttributeValueOrNil (attributes ps), write_all '')'']
      | None \<Rightarrow> write_all ''NIL'') @ r) = Inr (r, d)"
  using assms
  by (cases d) (auto simp: body_fld_dsp_def nil_parser_def nom_apply)

text \<open>Extensions are limited.\<close>

lemma extension_0: "too_deep (body_extension_limited N 0 i)"
  by (simp add: body_extension_limited.simps)

lemma extension_Suc: "body_extension_limited N (Suc n) =
    n_alt_ext N [
      n_map_ext_nstring N (nstring_parser N) BodyExtension_NString,
      n_map_ext_number N (number_parser N) BodyExtension_Number,
      n_map_ext_list N
        (n_delimited_exts N (n_tag N ''('') (n_separated_exts N (a_sp N) (body_extension_limited N n))
          (n_tag N '')''))
        BodyExtension_List]"
  by (simp add: fun_eq_iff body_extension_limited.simps [of N "Suc n"] Let_def)

lemma extension_advances [simp]: "advances (body_extension_limited N n)"
proof (induction n)
  case 0
  show ?case by (simp add: advances_def body_extension_limited.simps)
next
  case (Suc n)
  then show ?case
    unfolding extension_Suc
    by (simp add: rest_rules rest_alt rest_separated_list1 [of "n_separated_exts N"])
qed

lemma extension_limited:
  "exact_extension x \<Longrightarrow> closes r \<Longrightarrow>
    if extension_depth x \<le> n then body_extension_limited N n (flat (BodyExtension_encode x) @ r) = Inr (r, x)
    else too_deep (body_extension_limited N n (flat (BodyExtension_encode x) @ r))"
proof (induction n arbitrary: x r)
  case 0
  have "0 < extension_depth x" by (cases x) simp_all
  then show ?case by (simp add: extension_0)
next
  case (Suc n)
  show ?case
  proof (cases x)
    case (BodyExtension_NString m)
    with Suc.prems show ?thesis by (simp add: extension_Suc nom_apply)
  next
    case (BodyExtension_Number m)
    obtain d t where d: "dec (unat m) = d # t" "is_digit d" using dec_digits [of "unat m"] by (cases "dec (unat m)") auto
    then have "ascii_lower d = d" by (auto simp: ascii_lower_def is_digit_def)
    with d have "is_error (nstring_parser N (dec (unat m) @ r))"
      by (auto simp: is_digit_def intro!: nstring_error)
    with Suc.prems BodyExtension_Number show ?thesis by (simp add: extension_Suc nom_apply u32_encode_def)
  next
    case (BodyExtension_List xs)
    have "if list_all (\<lambda>x. extension_depth x \<le> n) xs
        then n_separated_exts N (a_sp N) (body_extension_limited N n)
          (joined '' '' (map (\<lambda>x. flat (BodyExtension_encode x)) xs) @ CHR '')'' # r) = Inr (CHR '')'' # r, xs)
        else too_deep (n_separated_exts N (a_sp N) (body_extension_limited N n)
          (joined '' '' (map (\<lambda>x. flat (BodyExtension_encode x)) xs) @ CHR '')'' # r))"
    proof (rule separated_list1_limited [where ok = closes and y = sp])
      fix y t
      assume y: "y \<in> set xs" "closes t"
      then have ext: "exact_extension y" using Suc.prems BodyExtension_List by (auto simp: list_all_iff)
      from Suc.IH [OF this y(2)] show "extension_depth y \<le> n \<Longrightarrow>
          body_extension_limited N n (flat (BodyExtension_encode y) @ t) = Inr (t, y)"
        and "\<not> extension_depth y \<le> n \<Longrightarrow>
          too_deep (body_extension_limited N n (flat (BodyExtension_encode y) @ t))" by simp_all
    qed (use Suc.prems BodyExtension_List in \<open>simp_all add: rest_rules\<close>)
    moreover have "ascii_lower CHR ''('' \<noteq> CHR ''n''" by code_simp
    moreover have "flat (BodyExtension_encode x) @ r = CHR ''('' #
        joined '' '' (map (\<lambda>x. flat (BodyExtension_encode x)) xs) @ CHR '')'' # r"
      by (simp only: BodyExtension_List flat_extension_list) simp
    ultimately have "if list_all (\<lambda>x. extension_depth x \<le> n) xs
        then body_extension_limited N (Suc n) (flat (BodyExtension_encode x) @ r) = Inr (r, BodyExtension_List xs)
        else too_deep (body_extension_limited N (Suc n) (flat (BodyExtension_encode x) @ r))"
      by (auto simp: extension_Suc nom_apply nstring_error is_digit_def
          dest!: too_deep_failure split: if_splits)
    moreover have "extension_depth x \<le> Suc n \<longleftrightarrow> list_all (\<lambda>x. extension_depth x \<le> n) xs"
      by (simp add: BodyExtension_List fold_max_le)
    ultimately show ?thesis by (simp only: BodyExtension_List)
  qed
qed

lemma tail_advances [simp]: "advances (body_ext_tail N)"
proof -
  have exts: "rest_ok (n_many0_ext N (mapped (both (a_sp N) (body_extension_limited N 8)) snd))"
    by (simp add: rest_many0 [of "n_many0_ext N"] rest_rules)
  have lang: "advances (body_fld_lang N)"
    by (simp add: body_fld_lang_def rest_rules rest_alt rest_separated_list1 [of "n_separated_langs N"])
  have param: "advances (body_fld_param N)"
    unfolding body_fld_param_def
    by (rule rest_bind(2)) (auto simp: nil_parser_def rest_rules rest_alt
      rest_separated_list0 [of "n_separated_params N"])
  then have "advances (body_fld_dsp N)"
    by (simp add: body_fld_dsp_def nil_parser_def rest_rules rest_alt)
  with lang exts show ?thesis by (simp add: body_ext_tail_def body_extension_def rest_rules)
qed

lemma ext_advances [simp]: "advances (body_ext_1part N)" "advances (body_ext_mpart N)"
    "advances (body_fields_parser N)"
proof -
  have param: "advances (body_fld_param N)"
    unfolding body_fld_param_def
    by (rule rest_bind(2)) (auto simp: nil_parser_def rest_rules rest_alt
      rest_separated_list0 [of "n_separated_params N"])
  show "advances (body_ext_1part N)" by (simp add: body_ext_1part_def rest_rules)
  show "advances (body_ext_mpart N)" using param by (simp add: body_ext_mpart_def rest_rules)
  have "advances (body_fld_enc N)" by (simp add: body_fld_enc_def rest_rules)
  moreover have "advances (body_fld_octets N)" by (simp add: body_fld_octets_def rest_rules rest_alt)
  ultimately show "advances (body_fields_parser N)"
    unfolding body_fields_parser_def using param
    by (intro rest_bind(2)) (auto simp: rest_rules)
qed

end

lemma steady_location [simp, steady_intros]: "steady (Location_encode l)"
  unfolding Location_encode_def by (intro steady_each) (auto simp: list_all_iff intro!: steady_each)

lemma flat_location: "flat (Location_encode l) =
    flat (NString_encode (loc_location l)) @
    concat (map (\<lambda>x. '' '' @ flat (BodyExtension_encode x)) (loc_extensions l))"
proof -
  have st: "list_all steady (map (\<lambda>x. each [write_all '' '', BodyExtension_encode x]) (loc_extensions l))"
    by (intro steady_map) simp
  then show ?thesis
    unfolding Location_encode_def by (subst flat_each) (simp_all add: o_def)
qed

lemma steady_language [simp, steady_intros]: "steady (Language_encode l)"
  unfolding Language_encode_def by (intro steady_each) (simp add: steady_map)

lemma flat_language: "flat (Language_encode l) =
    flat (List1OrNil (map IString_encode (lang_language l)) '' '') @
    (case lang_tail l of Some x \<Rightarrow> '' '' @ flat (Location_encode x) | None \<Rightarrow> [])"
  unfolding Language_encode_def by (subst flat_each) (simp_all add: steady_map flat_tail del: flat_lists)

lemma steady_dsp: "steady (case d of
      Some (s, ps) \<Rightarrow> each [write_all ''('', IString_encode s, write_all '' '',
        List1AttributeValueOrNil (attributes ps), write_all '')'']
    | None \<Rightarrow> write_all ''NIL'')"
  by (auto split: option.split intro!: steady_each)

lemma steady_disposition [simp, steady_intros]: "steady (Disposition_encode d)"
  unfolding Disposition_encode_def by (intro steady_each) (simp add: steady_dsp)

lemma flat_disposition: "flat (Disposition_encode d) =
    flat (case disp_disposition d of
        Some (s, ps) \<Rightarrow> each [write_all ''('', IString_encode s, write_all '' '',
          List1AttributeValueOrNil (attributes ps), write_all '')'']
      | None \<Rightarrow> write_all ''NIL'') @
    (case disp_tail d of Some x \<Rightarrow> '' '' @ flat (Language_encode x) | None \<Rightarrow> [])"
  unfolding Disposition_encode_def by (subst flat_each) (simp_all add: steady_dsp flat_tail)

context part_grammar
begin

lemma location_ok:
  assumes "exact_nstring (loc_location l)"
    "list_all (\<lambda>e. exact_extension e \<and> extension_depth e \<le> 8) (loc_extensions l)"
  shows "both (mapped (both (a_sp N) (nstring_parser N)) snd)
      (n_many0_ext N (mapped (both (a_sp N) (body_extension N 8)) snd))
      ('' '' @ flat (Location_encode l) @ CHR '')'' # r) =
    Inr (CHR '')'' # r, loc_location l, loc_extensions l)"
proof -
  let ?p = "mapped (both (a_sp N) (body_extension N 8)) snd"
  have adv: "advances ?p" by (simp add: rest_rules body_extension_def)
  have "many_items ?p (concat (map (\<lambda>x. '' '' @ flat (BodyExtension_encode x)) xs) @ CHR '')'' # r) =
      Inr (CHR '')'' # r, xs)"
    if "list_all (\<lambda>e. exact_extension e \<and> extension_depth e \<le> 8) xs" for xs
    using that
  proof (induction xs)
    case Nil
    have "is_error (?p (CHR '')'' # r))" by (simp add: nom_apply)
    then show ?case by (cases "?p (CHR '')'' # r)") (auto simp: many_items_step [OF adv])
  next
    case (Cons x xs)
    have "closes (concat (map (\<lambda>x. '' '' @ flat (BodyExtension_encode x)) xs) @ CHR '')'' # r)"
      by (cases xs) simp_all
    with Cons.prems extension_limited [of x _ 8]
    have "?p ('' '' @ flat (BodyExtension_encode x) @
          concat (map (\<lambda>x. '' '' @ flat (BodyExtension_encode x)) xs) @ CHR '')'' # r) =
        Inr (concat (map (\<lambda>x. '' '' @ flat (BodyExtension_encode x)) xs) @ CHR '')'' # r, x)"
      by (simp add: nom_apply body_extension_def)
    with Cons show ?case by (simp add: many_items_step [OF adv, of "sp # i" for i])
  qed
  from this [OF assms(2)] have "n_many0_ext N ?p
      (concat (map (\<lambda>x. '' '' @ flat (BodyExtension_encode x)) (loc_extensions l)) @ CHR '')'' # r) =
      Inr (CHR '')'' # r, loc_extensions l)"
    using part adv by (simp add: part_nom_def is_many0_def)
  with assms(1) show ?thesis by (simp add: flat_location both_def mapped_def)
qed

lemma tail_ok:
  assumes "exact_disposition d"
  shows "body_ext_tail N ('' '' @ flat (Disposition_encode d) @ CHR '')'' # r) = Inr (CHR '')'' # r, d)"
proof -
  have loc: "optional (mapped (both (mapped (both (a_sp N) (nstring_parser N)) snd)
        (n_many0_ext N (mapped (both (a_sp N) (body_extension N 8)) snd)))
        (\<lambda>(location, extensions). \<lparr>loc_location = location, loc_extensions = extensions\<rparr>))
      ((case x of Some x \<Rightarrow> '' '' @ flat (Location_encode x) | None \<Rightarrow> []) @ CHR '')'' # r) =
    Inr (CHR '')'' # r, x)"
    if "pred_option (\<lambda>x. exact_nstring (loc_location x) \<and>
      list_all (\<lambda>e. exact_extension e \<and> extension_depth e \<le> 8) (loc_extensions x)) x" for x
  proof (cases x)
    case None
    then show ?thesis by (simp add: nom_apply)
  next
    case (Some l)
    with that location_ok [of l r] show ?thesis by (simp add: mapped_def)
  qed
  obtain v t where d: "d = \<lparr>disp_disposition = v, disp_tail = t\<rparr>" by (cases d)
  show ?thesis
  proof (cases t)
    case None
    with assms d show ?thesis
      by (simp add: body_ext_tail_def nom_apply flat_disposition exact_disposition_def)
  next
    case (Some l)
    obtain ls x where l: "l = \<lparr>lang_language = ls, lang_tail = x\<rparr>" by (cases l)
    from assms d Some l
    have exact: "pred_option (\<lambda>(s, ps). exact_istring s \<and> exact_params ps) v" "list_all exact_istring ls"
        "pred_option (\<lambda>x. exact_nstring (loc_location x) \<and>
          list_all (\<lambda>e. exact_extension e \<and> extension_depth e \<le> 8) (loc_extensions x)) x"
      by (simp_all add: exact_disposition_def)
    have "closes ((case x of Some x \<Rightarrow> '' '' @ flat (Location_encode x) | None \<Rightarrow> []) @ CHR '')'' # r)"
      by (cases x) simp_all
    note lang = langs_ok [OF exact(2) this]
    from Some d l exact lang loc [OF exact(3)] show ?thesis
      by (simp add: body_ext_tail_def mapped_def both_def flat_disposition flat_language del: flat_lists)
  qed
qed

end

end
