(* ===== verification/Imap_Parse_Structure.thy ===== *)
theory Imap_Parse_Structure
  imports Imap_Parse_Body
begin

text \<open>
  The recursive parsers of \<open>imap-codec/src/body.rs\<close>: body structures, multiparts and embedded messages.
  The number of frames of \<open>body_type_msg_limited\<close> that are on the stack is explicit: \<open>deep\<close> stands for what
  happens when one more is needed than the stack holds.
\<close>

record 'k StructureNom = "'k PartNom" +
  n_tuple_basic :: "('k, IString \<times> IString) imap_parser \<times> ('k, char) imap_parser \<times>
    ('k, BasicFields) imap_parser \<Rightarrow> ('k, (IString \<times> IString) \<times> char \<times> BasicFields) imap_parser"
  n_preceded_media_text :: "('k, bytes) imap_parser \<Rightarrow> ('k, IString) imap_parser \<Rightarrow> ('k, IString) imap_parser"
  n_tuple_text :: "('k, IString) imap_parser \<times> ('k, char) imap_parser \<times> ('k, BasicFields) imap_parser \<times>
    ('k, char) imap_parser \<times> ('k, u32) imap_parser \<Rightarrow>
    ('k, IString \<times> char \<times> BasicFields \<times> char \<times> u32) imap_parser"
  n_tuple_msg ::
    "(('k, bytes) imap_parser, ('k, BasicFields) imap_parser, ('k, Envelope) imap_parser,
      ('k, BodyStructure) imap_parser, ('k, u32) imap_parser, ('k, char) imap_parser) message_parts \<Rightarrow>
     ('k, (bytes, BasicFields, Envelope, BodyStructure, u32, char) message_parts) imap_parser"
  n_alt_specific :: "('k, Specific) imap_parser list \<Rightarrow> ('k, Specific) imap_parser"
  n_preceded_1part :: "('k, char) imap_parser \<Rightarrow> ('k, SinglePartExtensionData) imap_parser \<Rightarrow>
    ('k, SinglePartExtensionData) imap_parser"
  n_opt_1part :: "('k, SinglePartExtensionData) imap_parser \<Rightarrow> ('k, SinglePartExtensionData option) imap_parser"
  n_tuple_1part :: "('k, Specific) imap_parser \<times> ('k, SinglePartExtensionData option) imap_parser \<Rightarrow>
    ('k, Specific \<times> SinglePartExtensionData option) imap_parser"
  n_many1_bodies :: "('k, BodyStructure) imap_parser \<Rightarrow> ('k, BodyStructure list) imap_parser"
  n_preceded_mpart :: "('k, char) imap_parser \<Rightarrow> ('k, MultiPartExtensionData) imap_parser \<Rightarrow>
    ('k, MultiPartExtensionData) imap_parser"
  n_opt_mpart :: "('k, MultiPartExtensionData) imap_parser \<Rightarrow> ('k, MultiPartExtensionData option) imap_parser"
  n_tuple_mpart :: "('k, BodyStructure list) imap_parser \<times> ('k, char) imap_parser \<times> ('k, IString) imap_parser \<times>
    ('k, MultiPartExtensionData option) imap_parser \<Rightarrow>
    ('k, BodyStructure list \<times> char \<times> IString \<times> MultiPartExtensionData option) imap_parser"
  n_alt_body :: "('k, BodyStructure) imap_parser list \<Rightarrow> ('k, BodyStructure) imap_parser"
  n_delimited_body :: "('k, bytes) imap_parser \<Rightarrow> ('k, BodyStructure) imap_parser \<Rightarrow> ('k, bytes) imap_parser \<Rightarrow>
    ('k, BodyStructure) imap_parser"

definition structure_nom :: "('k, 'z) StructureNom_scheme \<Rightarrow> bool" where
  "structure_nom N \<longleftrightarrow> is_tuple3 (n_tuple_basic N) \<and> is_preceded (n_preceded_media_text N) \<and>
     is_tuple5 (n_tuple_text N) \<and>
     (\<forall>m c1 f c2 e c3 b c4 u. n_tuple_msg N (m, c1, f, c2, e, c3, b, c4, u) =
        both m (both c1 (both f (both c2 (both e (both c3 (both b (both c4 u)))))))) \<and>
     is_alt (n_alt_specific N) \<and> is_preceded (n_preceded_1part N) \<and> is_opt (n_opt_1part N) \<and>
     is_tuple2 (n_tuple_1part N) \<and> is_many1 (n_many1_bodies N) \<and> is_preceded (n_preceded_mpart N) \<and>
     is_opt (n_opt_mpart N) \<and>
     (\<forall>b c s e. n_tuple_mpart N (b, c, s, e) = both b (both c (both s e))) \<and>
     is_alt (n_alt_body N) \<and> is_delimited (n_delimited_body N)"

definition body_type_basic :: "('k, 'z) StructureNom_scheme \<Rightarrow> ('k, Specific) imap_parser" where
  "body_type_basic N input =
     res_bind (n_tuple_basic N (media_basic N, a_sp N, body_fields_parser N) input)
       (\<lambda>(remaining, (type, subtype), _, basic). Inr (remaining, basic, SpecificFields_Basic type subtype))"

definition media_text :: "('k, 'z) StructureNom_scheme \<Rightarrow> ('k, IString) imap_parser" where
  "media_text N input =
     res_bind (n_preceded_media_text N (n_tag_no_case N ([dquote] @ ''TEXT'' @ [dquote, sp])) (string_parser N) input)
       (\<lambda>(remaining, media_subtype). Inr (remaining, media_subtype))"

definition body_type_text :: "('k, 'z) StructureNom_scheme \<Rightarrow> ('k, Specific) imap_parser" where
  "body_type_text N input =
     res_bind (n_tuple_text N (media_text N, a_sp N, body_fields_parser N, a_sp N, number_parser N) input)
       (\<lambda>(remaining, subtype, _, basic, _, number_of_lines).
         Inr (remaining, basic, SpecificFields_Text subtype number_of_lines))"

abbreviation limit_exceeded :: "bytes \<Rightarrow> ('k, 'o) IMAPResult" where
  "limit_exceeded input \<equiv> Inl (Nom_Failure \<lparr>pe_input = input, pe_kind = Kind_RecursionLimitExceeded\<rparr>)"

function body_limited :: "('k, 'z) StructureNom_scheme \<Rightarrow> ('k, BodyStructure) imap_parser \<Rightarrow> nat \<Rightarrow> nat \<Rightarrow>
    ('k, BodyStructure) imap_parser"
  and body_type_1part_limited :: "('k, 'z) StructureNom_scheme \<Rightarrow> ('k, BodyStructure) imap_parser \<Rightarrow> nat \<Rightarrow> nat \<Rightarrow>
    ('k, BodyStructure) imap_parser"
  and body_type_msg_limited :: "('k, 'z) StructureNom_scheme \<Rightarrow> ('k, BodyStructure) imap_parser \<Rightarrow> nat \<Rightarrow> nat \<Rightarrow>
    ('k, Specific) imap_parser"
  and body_type_mpart_limited :: "('k, 'z) StructureNom_scheme \<Rightarrow> ('k, BodyStructure) imap_parser \<Rightarrow> nat \<Rightarrow> nat \<Rightarrow>
    ('k, BodyStructure) imap_parser"
where
  "body_limited N deep frames remaining_recursions input =
     (if remaining_recursions = 0 then limit_exceeded input
      else
        let body_type_1part = (\<lambda>input. body_type_1part_limited N deep frames (remaining_recursions - 1) input);
            body_type_mpart = (\<lambda>input. body_type_mpart_limited N deep frames (remaining_recursions - 1) input) in
        n_delimited_body N (n_tag N ''('') (n_alt_body N [body_type_1part, body_type_mpart]) (n_tag N '')'') input)"
| "body_type_1part_limited N deep frames remaining_recursions input =
     (if remaining_recursions = 0 then limit_exceeded input
      else
        let body_type_msg = (\<lambda>input. body_type_msg_limited N deep frames 8 input) in
        res_bind (n_tuple_1part N (
            n_alt_specific N [body_type_msg, body_type_text N, body_type_basic N],
            n_opt_1part N (n_preceded_1part N (a_sp N) (body_ext_1part N))) input)
          (\<lambda>(remaining, (basic, specific), extension_data).
            Inr (remaining, BodyStructure_Single (Body basic specific) extension_data)))"
| "body_type_msg_limited N deep frames remaining_recursions input =
     (if remaining_recursions = 0 then limit_exceeded input
      else
        let body = (case frames of
            0 \<Rightarrow> deep
          | Suc frames \<Rightarrow> (\<lambda>input. body_limited N deep frames (remaining_recursions - 1) input)) in
        res_bind (n_tuple_msg N (media_message N, a_sp N, body_fields_parser N, a_sp N, envelope_parser N, a_sp N,
            body, a_sp N, number_parser N) input)
          (\<lambda>(remaining, _, _, basic, _, envelope, _, body_structure, _, number_of_lines).
            Inr (remaining, basic, SpecificFields_Message envelope body_structure number_of_lines)))"
| "body_type_mpart_limited N deep frames remaining_recursion input =
     (if remaining_recursion = 0 then limit_exceeded input
      else
        res_bind (n_tuple_mpart N (
            n_many1_bodies N (\<lambda>input. body_limited N deep frames remaining_recursion input),
            a_sp N,
            string_parser N,
            n_opt_mpart N (n_preceded_mpart N (a_sp N) (body_ext_mpart N))) input)
          (\<lambda>(remaining, bodies, _, subtype, extension_data).
            Inr (remaining, BodyStructure_Multi bodies subtype extension_data)))"
  by pat_completeness auto
termination
  by (relation "inv_image (less_than <*lex*> less_than) (\<lambda>x. case x of
      Inl (Inl (N, deep, frames, n, i)) \<Rightarrow> (frames, 3 * n + 2)
    | Inl (Inr (N, deep, frames, n, i)) \<Rightarrow> (frames, 1)
    | Inr (Inl (N, deep, frames, n, i)) \<Rightarrow> (frames, 0)
    | Inr (Inr (N, deep, frames, n, i)) \<Rightarrow> (frames, 3 * n + 3))") auto

declare body_limited.simps [simp del] body_type_1part_limited.simps [simp del]
  body_type_msg_limited.simps [simp del] body_type_mpart_limited.simps [simp del]

definition body_parser ::
  "('k, 'z) StructureNom_scheme \<Rightarrow> ('k, BodyStructure) imap_parser \<Rightarrow> nat \<Rightarrow> nat \<Rightarrow> ('k, BodyStructure) imap_parser"
where
  "body_parser N deep frames remaining_recursions = (\<lambda>input. body_limited N deep frames remaining_recursions input)"

section \<open>What the encoder writes\<close>

lemma steady_single [simp, steady_intros]: "steady (SinglePartExtensionData_encode d)"
  unfolding SinglePartExtensionData_encode_def by (intro steady_each) simp

lemma steady_multi [simp, steady_intros]: "steady (MultiPartExtensionData_encode d)"
  unfolding MultiPartExtensionData_encode_def by (intro steady_each) simp

lemma steady_structures:
  "steady (Body_encode b)" "steady (SpecificFields_encode s f)" "steady (BodyStructure_encode t)"
proof (induction b and s and t arbitrary: and f and)
  case (Body f s)
  then show ?case by simp
next
  case (SpecificFields_Basic t st)
  show ?case unfolding SpecificFields_encode.simps by (intro steady_each) simp
next
  case (SpecificFields_Message e b n)
  then show ?case unfolding SpecificFields_encode.simps by (intro steady_each) simp
next
  case (SpecificFields_Text st n)
  show ?case unfolding SpecificFields_encode.simps by (intro steady_each) simp
next
  case (BodyStructure_Single b x)
  then show ?case unfolding BodyStructure_encode.simps by (intro steady_each) simp
next
  case (BodyStructure_Multi bs st x)
  then have "steady (each (map BodyStructure_encode bs))" by (intro steady_each steady_map) simp
  then show ?case unfolding BodyStructure_encode.simps by (intro steady_each) simp
qed

declare steady_structures [simp]

lemma flat_structure:
  "flat (Body_encode (Body f s)) = flat (SpecificFields_encode s f)"
  "flat (SpecificFields_encode (SpecificFields_Basic t st) f) =
     flat (IString_encode t) @ '' '' @ flat (IString_encode st) @ '' '' @ flat (BasicFields_encode f)"
  "flat (SpecificFields_encode (SpecificFields_Message e b n) f) =
     ([dquote] @ ''MESSAGE'' @ [dquote, sp, dquote] @ ''RFC822'' @ [dquote]) @ '' '' @
     flat (BasicFields_encode f) @ '' '' @ flat (Envelope_encode e) @ '' '' @ flat (BodyStructure_encode b) @
     '' '' @ dec (unat n)"
  "flat (SpecificFields_encode (SpecificFields_Text st n) f) =
     ([dquote] @ ''TEXT'' @ [dquote, sp]) @ flat (IString_encode st) @ '' '' @ flat (BasicFields_encode f) @
     '' '' @ dec (unat n)"
  "flat (BodyStructure_encode (BodyStructure_Single body x)) =
     ''('' @ flat (Body_encode body) @ flat (tail_encode SinglePartExtensionData_encode x) @ '')''"
  "flat (BodyStructure_encode (BodyStructure_Multi bs st y)) =
     ''('' @ concat (map (\<lambda>b. flat (BodyStructure_encode b)) bs) @ '' '' @ flat (IString_encode st) @
     flat (tail_encode MultiPartExtensionData_encode y) @ '')''"
proof -
  have st: "list_all steady (map BodyStructure_encode bs)" by (intro steady_map) simp
  have "flat (each (map BodyStructure_encode bs)) = concat (map (\<lambda>b. flat (BodyStructure_encode b)) bs)"
    by (simp add: flat_each [OF st] o_def)
  with st show "flat (BodyStructure_encode (BodyStructure_Multi bs st y)) =
     ''('' @ concat (map (\<lambda>b. flat (BodyStructure_encode b)) bs) @ '' '' @ flat (IString_encode st) @
     flat (tail_encode MultiPartExtensionData_encode y) @ '')''"
    unfolding BodyStructure_encode.simps by (subst flat_each) simp_all
  show "flat (BodyStructure_encode (BodyStructure_Single body x)) =
     ''('' @ flat (Body_encode body) @ flat (tail_encode SinglePartExtensionData_encode x) @ '')''"
    unfolding BodyStructure_encode.simps by (subst flat_each) simp_all
qed (unfold Body_encode.simps SpecificFields_encode.simps, (subst flat_each | simp)+)

lemma flat_single: "flat (SinglePartExtensionData_encode d) = flat (NString_encode (sp_md5 d)) @
    (case sp_tail d of Some x \<Rightarrow> '' '' @ flat (Disposition_encode x) | None \<Rightarrow> [])"
  unfolding SinglePartExtensionData_encode_def by (subst flat_each) (simp_all add: flat_tail)

lemma flat_multi: "flat (MultiPartExtensionData_encode d) =
    flat (List1AttributeValueOrNil (attributes (mp_parameter_list d))) @
    (case mp_tail d of Some x \<Rightarrow> '' '' @ flat (Disposition_encode x) | None \<Rightarrow> [])"
  unfolding MultiPartExtensionData_encode_def by (subst flat_each) (simp_all add: flat_tail)

section \<open>Reading back body structures\<close>

text \<open>A basic part is not spelled like a text or an embedded message.\<close>

fun quoted_text :: "IString \<Rightarrow> bytes option" where
  "quoted_text (IString_Literal l) = None"
| "quoted_text (IString_Quoted q) = Some (quoted_inner q)"
| "quoted_text (IString_QuotedUtf8 q) = Some (quoted_utf8_inner q)"

definition spelled :: "bytes \<Rightarrow> IString \<Rightarrow> bool" where
  "spelled s i \<longleftrightarrow> (case quoted_text i of None \<Rightarrow> False | Some t \<Rightarrow> map ascii_lower t = map ascii_lower s)"

definition exact_single :: "SinglePartExtensionData \<Rightarrow> bool" where
  "exact_single d \<longleftrightarrow> exact_nstring (sp_md5 d) \<and> pred_option exact_disposition (sp_tail d)"

definition exact_multi :: "MultiPartExtensionData \<Rightarrow> bool" where
  "exact_multi d \<longleftrightarrow> exact_params (mp_parameter_list d) \<and> pred_option exact_disposition (mp_tail d)"

fun exact_structure :: "BodyStructure \<Rightarrow> bool" where
  "exact_structure (BodyStructure_Single (Body f (SpecificFields_Basic t st)) x) \<longleftrightarrow>
     exact_fields f \<and> exact_istring t \<and> exact_istring st \<and> \<not> spelled ''TEXT'' t \<and>
     \<not> (spelled ''MESSAGE'' t \<and> spelled ''RFC822'' st) \<and> pred_option exact_single x"
| "exact_structure (BodyStructure_Single (Body f (SpecificFields_Text st n)) x) \<longleftrightarrow>
     exact_fields f \<and> exact_istring st \<and> pred_option exact_single x"
| "exact_structure (BodyStructure_Single (Body f (SpecificFields_Message e b n)) x) \<longleftrightarrow>
     exact_fields f \<and> exact_envelope e \<and> exact_structure b \<and> pred_option exact_single x"
| "exact_structure (BodyStructure_Multi bs st y) \<longleftrightarrow>
     bs \<noteq> [] \<and> list_all exact_structure bs \<and> exact_istring st \<and> pred_option exact_multi y"

text \<open>The limit applies to multiparts; inside an embedded message it starts again from seven.\<close>

fun within_limit :: "nat \<Rightarrow> BodyStructure \<Rightarrow> bool" where
  "within_limit n (BodyStructure_Single (Body f (SpecificFields_Basic t st)) x) \<longleftrightarrow> 2 \<le> n"
| "within_limit n (BodyStructure_Single (Body f (SpecificFields_Text st k)) x) \<longleftrightarrow> 2 \<le> n"
| "within_limit n (BodyStructure_Single (Body f (SpecificFields_Message e b k)) x) \<longleftrightarrow> 2 \<le> n \<and> within_limit 7 b"
| "within_limit n (BodyStructure_Multi bs st y) \<longleftrightarrow> 2 \<le> n \<and> list_all (within_limit (n - 1)) bs"

text \<open>How many messages are embedded in each other.\<close>

fun nesting :: "BodyStructure \<Rightarrow> nat" where
  "nesting (BodyStructure_Single (Body f (SpecificFields_Basic t st)) x) = 0"
| "nesting (BodyStructure_Single (Body f (SpecificFields_Text st k)) x) = 0"
| "nesting (BodyStructure_Single (Body f (SpecificFields_Message e b k)) x) = Suc (nesting b)"
| "nesting (BodyStructure_Multi bs st y) = fold max (map nesting bs) 0"

text \<open>The tags of the media types against a quoted string.\<close>

lemma match_tag_quoted:
  assumes "list_all (\<lambda>c. ascii_lower c \<noteq> dquote \<and> ascii_lower c \<noteq> backslash) t"
  shows "match_tag ascii_lower (t @ dquote # u) (escape_quoted s @ dquote # v) =
    (if map ascii_lower s = map ascii_lower t
     then (case match_tag ascii_lower u v of Found a b \<Rightarrow> Found (s @ dquote # a) b | m \<Rightarrow> m)
     else Different)"
  using assms
proof (induction t arbitrary: s)
  case Nil
  have special: "ascii_lower dquote = dquote" "ascii_lower backslash = backslash" by code_simp+
  have "c = dquote" if "ascii_lower c = dquote" for c
  proof -
    from that special have "ascii_lower c = ascii_lower dquote" by simp
    then have "code c = code dquote" unfolding ascii_lower_eq by (simp split: if_splits)
    then show ?thesis by (metis char_of_char)
  qed
  with special show ?case
    by (cases s) (auto simp: quoted_char_bytes_def is_quoted_specials_def split: matching.split)
next
  case (Cons c t)
  have special: "ascii_lower dquote = dquote" "ascii_lower backslash = backslash" by code_simp+
  show ?case
  proof (cases s)
    case Nil
    with Cons.prems special show ?thesis by auto
  next
    case (Cons d s')
    with Cons.prems Cons.IH [of s'] special show ?thesis
      by (auto simp: quoted_char_bytes_def is_quoted_specials_def split: matching.split)
  qed
qed

lemma flat_quoted: "quoted_text i = Some s \<Longrightarrow> flat (IString_encode i) = dquote # escape_quoted s @ [dquote]"
  by (cases i) (auto simp: Quoted_encode_def QuotedUtf8_encode_def)

lemma flat_unquoted: "quoted_text i = None \<Longrightarrow> \<exists>t. flat (IString_encode i) = CHR ''{'' # t"
  by (cases i) (auto simp: c_core.flat_Literal announcement_def)

lemma lower_dquote: "ascii_lower dquote = dquote" "ascii_lower CHR ''{'' \<noteq> dquote" "ascii_lower CHR ''('' \<noteq> dquote"
  by code_simp+

lemma media_tag_different:
  assumes "list_all (\<lambda>c. ascii_lower c \<noteq> dquote \<and> ascii_lower c \<noteq> backslash) t" "\<not> spelled t i"
  shows "match_tag ascii_lower (dquote # t @ dquote # u) (flat (IString_encode i) @ v) = Different"
proof (cases "quoted_text i")
  case None
  from flat_unquoted [OF this] show ?thesis using lower_dquote by auto
next
  case (Some s)
  with assms(2) match_tag_quoted [OF assms(1), of u s v] show ?thesis
    by (simp add: flat_quoted spelled_def)
qed

lemma media_letters: "list_all (\<lambda>c. ascii_lower c \<noteq> dquote \<and> ascii_lower c \<noteq> backslash) ''TEXT''"
    "list_all (\<lambda>c. ascii_lower c \<noteq> dquote \<and> ascii_lower c \<noteq> backslash) ''MESSAGE''"
    "list_all (\<lambda>c. ascii_lower c \<noteq> dquote \<and> ascii_lower c \<noteq> backslash) ''RFC822''"
  by code_simp+

lemma message_tag_different:
  assumes "\<not> (spelled ''MESSAGE'' t \<and> spelled ''RFC822'' st)"
  shows "match_tag ascii_lower ([dquote] @ ''MESSAGE'' @ [dquote, sp, dquote] @ ''RFC822'' @ [dquote])
    (flat (IString_encode t) @ '' '' @ flat (IString_encode st) @ r) = Different"
proof (cases "spelled ''MESSAGE'' t")
  case False
  then show ?thesis
    using media_tag_different [OF media_letters(2), of t "[sp, dquote] @ ''RFC822'' @ [dquote]"]
    by simp
next
  case True
  then obtain s where s: "quoted_text t = Some s" "map ascii_lower s = map ascii_lower ''MESSAGE''"
    by (auto simp: spelled_def split: option.splits simp del: list.map)
  from True assms have "\<not> spelled ''RFC822'' st" by simp
  from media_tag_different [OF media_letters(3) this, of "[]" r] s
    match_tag_quoted [OF media_letters(2), of "[sp, dquote] @ ''RFC822'' @ [dquote]" s
      "'' '' @ flat (IString_encode st) @ r"]
  show ?thesis by (simp add: flat_quoted lower_dquote)
qed

locale structure_grammar = part_grammar N for N :: "('k, 'z) StructureNom_scheme" +
  assumes structures: "structure_nom N"
begin

lemmas structure_facts [simp] = structures [unfolded structure_nom_def]
lemmas structure_choice [simp] = structures [unfolded structure_nom_def is_alt_def]

lemma many1_bodies: "at_least 1 (n_many1_bodies N)"
  using structures by (simp add: structure_nom_def is_many1_def)

text \<open>The parsers, one level at a time.\<close>

lemma body_0: "body_limited N deep f 0 i = limit_exceeded i"
  by (simp add: body_limited.simps)

lemma body_Suc: "body_limited N deep f (Suc n) =
    n_delimited_body N (n_tag N ''('')
      (n_alt_body N [body_type_1part_limited N deep f n, body_type_mpart_limited N deep f n]) (n_tag N '')'')"
  by (simp add: fun_eq_iff body_limited.simps [of N deep f "Suc n"] Let_def)

abbreviation specific_nom where
  "specific_nom deep f \<equiv> n_alt_specific N [body_type_msg_limited N deep f 8, body_type_text N, body_type_basic N]"

abbreviation ext_nom where
  "ext_nom \<equiv> n_opt_1part N (n_preceded_1part N (a_sp N) (body_ext_1part N))"

lemma part_Suc: "body_type_1part_limited N deep f (Suc n) i =
    res_bind (n_tuple_1part N (specific_nom deep f, ext_nom) i)
      (\<lambda>(remaining, (basic, specific), extension_data).
        Inr (remaining, BodyStructure_Single (Body basic specific) extension_data))"
  by (simp only: body_type_1part_limited.simps [of N deep f "Suc n"] Let_def nat.distinct if_False)

lemma msg_8: "body_type_msg_limited N deep f 8 i =
    res_bind (n_tuple_msg N (media_message N, a_sp N, body_fields_parser N, a_sp N, envelope_parser N, a_sp N,
        (case f of 0 \<Rightarrow> deep | Suc f \<Rightarrow> body_limited N deep f 7), a_sp N, number_parser N) i)
      (\<lambda>(remaining, _, _, basic, _, envelope, _, body_structure, _, number_of_lines).
        Inr (remaining, basic, SpecificFields_Message envelope body_structure number_of_lines))"
proof -
  have "(case f of 0 \<Rightarrow> deep | Suc f \<Rightarrow> (\<lambda>input. body_limited N deep f (8 - 1) input)) =
      (case f of 0 \<Rightarrow> deep | Suc f \<Rightarrow> body_limited N deep f 7)" by (cases f) simp_all
  then show ?thesis by (simp add: body_type_msg_limited.simps [of N deep f 8] Let_def)
qed

lemma mpart_Suc: "body_type_mpart_limited N deep f (Suc n) i =
    res_bind (n_tuple_mpart N (n_many1_bodies N (body_limited N deep f (Suc n)), a_sp N, string_parser N,
        n_opt_mpart N (n_preceded_mpart N (a_sp N) (body_ext_mpart N))) i)
      (\<lambda>(remaining, bodies, _, subtype, extension_data).
        Inr (remaining, BodyStructure_Multi bodies subtype extension_data))"
  by (simp add: body_type_mpart_limited.simps [of N deep f "Suc n"])

lemma media_advances [simp]: "advances (media_message N)" "advances (body_type_basic N)"
    "advances (body_type_text N)"
proof -
  show "advances (media_message N)" by (simp add: media_message_def)
  have "advances (media_basic N)"
    unfolding media_basic_def by (rule rest_bind(2)) (auto simp: rest_rules)
  then show "advances (body_type_basic N)"
    unfolding body_type_basic_def by (intro rest_bind(2)) (auto simp: rest_rules)
  have "advances (media_text N)"
    unfolding media_text_def by (rule rest_bind(2)) (auto simp: rest_rules)
  then show "advances (body_type_text N)"
    unfolding body_type_text_def by (intro rest_bind(2)) (auto simp: rest_rules)
qed

lemma envelope_advances [simp]: "advances (envelope_parser N)"
  unfolding envelope_parser_def by (rule rest_bind(2)) (auto simp: rest_rules)

lemma msg_advances:
  "rest_ok (case f of 0 \<Rightarrow> deep | Suc f \<Rightarrow> body_limited N deep f 7) \<Longrightarrow> advances (body_type_msg_limited N deep f 8)"
  unfolding msg_8 [abs_def] by (intro rest_bind(2)) (auto simp: rest_rules)

lemma part_advances:
  assumes "advances (body_type_msg_limited N deep f 8)"
  shows "advances (body_type_1part_limited N deep f n)"
proof (cases n)
  case 0
  then show ?thesis by (simp add: advances_def body_type_1part_limited.simps)
next
  case (Suc m)
  with assms show ?thesis
    by (simp only: part_Suc [abs_def]) (intro rest_bind(2), auto simp: rest_rules rest_alt)
qed

lemma mpart_advances:
  assumes "advances (body_limited N deep f n)"
  shows "advances (body_type_mpart_limited N deep f n)"
proof (cases n)
  case 0
  then show ?thesis by (simp add: advances_def body_type_mpart_limited.simps)
next
  case (Suc m)
  with assms rest_at_least [OF many1_bodies assms] show ?thesis
    by (simp only: mpart_Suc [abs_def]) (intro rest_bind(2), auto simp: rest_rules rest_alt)
qed

lemma body_advances_step:
  assumes "rest_ok (case f of 0 \<Rightarrow> deep | Suc f \<Rightarrow> body_limited N deep f 7)"
  shows "advances (body_limited N deep f n)"
proof (induction n)
  case 0
  show ?case by (simp add: advances_def body_0)
next
  case (Suc n)
  then show ?case
    unfolding body_Suc
    by (simp add: rest_rules rest_alt mpart_advances part_advances msg_advances [OF assms])
qed

lemma body_advances [simp]: "rest_ok deep \<Longrightarrow> advances (body_limited N deep f n)"
proof (induction f arbitrary: n)
  case 0
  then show ?case by (intro body_advances_step) simp
next
  case (Suc f)
  then show ?case by (intro body_advances_step) (simp add: rest_rules)
qed

text \<open>Extension data.\<close>

lemma tail_option:
  assumes "pred_option exact_disposition t"
  shows "optional (body_ext_tail N)
      ((case t of Some x \<Rightarrow> '' '' @ flat (Disposition_encode x) | None \<Rightarrow> []) @ CHR '')'' # r) =
    Inr (CHR '')'' # r, t)"
proof (cases t)
  case None
  have "is_error (body_ext_tail N (CHR '')'' # r))" by (simp add: body_ext_tail_def nom_apply)
  with None show ?thesis by simp
next
  case (Some y)
  with assms tail_ok [of y r] show ?thesis by simp
qed

lemma ext_ok:
  assumes "pred_option exact_single x"
  shows "optional (mapped (both (a_sp N) (body_ext_1part N)) snd)
    (flat (tail_encode SinglePartExtensionData_encode x) @ CHR '')'' # r) = Inr (CHR '')'' # r, x)"
proof (cases x)
  case None
  then show ?thesis by (simp add: tail_encode_def nom_apply)
next
  case (Some d)
  obtain m t where d: "d = \<lparr>sp_md5 = m, sp_tail = t\<rparr>" by (cases d)
  have flat: "flat (tail_encode SinglePartExtensionData_encode x) = '' '' @ flat (NString_encode m) @
      (case t of Some x \<Rightarrow> '' '' @ flat (Disposition_encode x) | None \<Rightarrow> [])"
    using Some d by (simp add: flat_tail flat_single)
  show ?thesis
    unfolding flat using assms Some d tail_option [of t r]
    by (simp add: body_ext_1part_def exact_single_def both_def mapped_def)
qed

lemma multi_ext_ok:
  assumes "pred_option exact_multi x"
  shows "optional (mapped (both (a_sp N) (body_ext_mpart N)) snd)
    (flat (tail_encode MultiPartExtensionData_encode x) @ CHR '')'' # r) = Inr (CHR '')'' # r, x)"
proof (cases x)
  case None
  then show ?thesis by (simp add: tail_encode_def nom_apply)
next
  case (Some d)
  obtain m t where d: "d = \<lparr>mp_parameter_list = m, mp_tail = t\<rparr>" by (cases d)
  have flat: "flat (tail_encode MultiPartExtensionData_encode x) =
      '' '' @ flat (List1AttributeValueOrNil (attributes m)) @
      (case t of Some x \<Rightarrow> '' '' @ flat (Disposition_encode x) | None \<Rightarrow> [])"
    using Some d by (simp add: flat_tail flat_multi)
  show ?thesis
    unfolding flat using assms Some d tail_option [of t r]
    by (simp add: body_ext_mpart_def exact_multi_def both_def mapped_def)
qed

lemma closing_ext: "closes (flat (tail_encode SinglePartExtensionData_encode x) @ CHR '')'' # r)"
    "closes (flat (tail_encode MultiPartExtensionData_encode y) @ CHR '')'' # r)"
  by (cases x; simp add: flat_tail) (cases y; simp add: flat_tail)

text \<open>The three kinds of single parts.\<close>

lemma basic_ok:
  assumes "exact_fields b" "exact_istring t" "exact_istring st" "\<not> spelled ''TEXT'' t"
    "\<not> (spelled ''MESSAGE'' t \<and> spelled ''RFC822'' st)" "closes r"
  shows "specific_nom deep f (flat (SpecificFields_encode (SpecificFields_Basic t st) b) @ r) =
    Inr (r, b, SpecificFields_Basic t st)"
proof -
  let ?i = "flat (IString_encode t) @ '' '' @ flat (IString_encode st) @ '' '' @ flat (BasicFields_encode b) @ r"
  have "is_error (media_message N ?i)"
    unfolding media_message_def using message_tag_different [OF assms(5)] by (intro tag_simps(4)) simp
  then have "is_error (body_type_msg_limited N deep f 8 ?i)" by (simp add: msg_8 both_def)
  moreover have "is_error (n_tag_no_case N ([dquote] @ ''TEXT'' @ [dquote, sp]) ?i)"
    using media_tag_different [OF media_letters(1) assms(4), of "[sp]"] by (intro tag_simps(4)) simp
  then have "is_error (body_type_text N ?i)" by (simp add: body_type_text_def media_text_def nom_apply)
  moreover have "body_type_basic N ?i = Inr (r, b, SpecificFields_Basic t st)"
    using assms by (simp add: body_type_basic_def media_basic_def nom_apply)
  ultimately show ?thesis by (simp add: flat_structure)
qed

lemma text_ok:
  assumes "exact_fields b" "exact_istring st" "closes r"
  shows "specific_nom deep f (flat (SpecificFields_encode (SpecificFields_Text st n) b) @ r) =
    Inr (r, b, SpecificFields_Text st n)"
proof -
  let ?i = "([dquote] @ ''TEXT'' @ [dquote, sp]) @ flat (IString_encode st) @ '' '' @
    flat (BasicFields_encode b) @ '' '' @ dec (unat n) @ r"
  have "ascii_lower CHR ''M'' \<noteq> ascii_lower CHR ''T''" by code_simp
  then have "is_error (media_message N ?i)" unfolding media_message_def by (intro tag_simps(4)) simp
  then have "is_error (body_type_msg_limited N deep f 8 ?i)" by (simp add: msg_8 both_def)
  moreover have "n_tag_no_case N ([dquote] @ ''TEXT'' @ [dquote, sp]) ?i =
      Inr (flat (IString_encode st) @ '' '' @ flat (BasicFields_encode b) @ '' '' @ dec (unat n) @ r,
        [dquote] @ ''TEXT'' @ [dquote, sp])"
    by (intro tag_simps(3) match_tag_self)
  then have "body_type_text N ?i = Inr (r, b, SpecificFields_Text st n)"
    using assms closes_ends [OF assms(3)] by (simp add: body_type_text_def media_text_def mapped_def both_def)
  ultimately show ?thesis by (simp add: flat_structure)
qed

lemma message_ok:
  assumes "exact_fields b" "exact_envelope e"
    and inner: "inner = (case f of 0 \<Rightarrow> deep | Suc f \<Rightarrow> body_limited N deep f 7)
      (flat (BodyStructure_encode t) @ '' '' @ dec (unat n) @ r)"
  shows "inner = Inr ('' '' @ dec (unat n) @ r, t) \<Longrightarrow> closes r \<Longrightarrow>
      specific_nom deep f (flat (SpecificFields_encode (SpecificFields_Message e t n) b) @ r) =
        Inr (r, b, SpecificFields_Message e t n)"
    "inner = Inl (Nom_Failure x) \<Longrightarrow>
      specific_nom deep f (flat (SpecificFields_encode (SpecificFields_Message e t n) b) @ r) = Inl (Nom_Failure x)"
proof -
  let ?t = "[dquote] @ ''MESSAGE'' @ [dquote, sp, dquote] @ ''RFC822'' @ [dquote]"
  let ?j = "flat (BasicFields_encode b) @ '' '' @ flat (Envelope_encode e) @ '' '' @
    flat (BodyStructure_encode t) @ '' '' @ dec (unat n) @ r"
  have media: "media_message N (?t @ '' '' @ ?j) = Inr ('' '' @ ?j, ?t)"
    unfolding media_message_def by (intro tag_simps(3) match_tag_self)
  have flat: "flat (SpecificFields_encode (SpecificFields_Message e t n) b) @ r = ?t @ '' '' @ ?j"
    by (simp only: flat_structure append_assoc)
  note inner = inner [symmetric]
  show "specific_nom deep f (flat (SpecificFields_encode (SpecificFields_Message e t n) b) @ r) =
      Inr (r, b, SpecificFields_Message e t n)" if "inner = Inr ('' '' @ dec (unat n) @ r, t)" "closes r"
  proof -
    have "body_type_msg_limited N deep f 8 (?t @ '' '' @ ?j) = Inr (r, b, SpecificFields_Message e t n)"
      unfolding msg_8 using assms(1,2) media inner that closes_ends [OF that(2)]
      by (simp add: both_def envelope_ok)
    then show ?thesis unfolding flat by simp
  qed
  show "specific_nom deep f (flat (SpecificFields_encode (SpecificFields_Message e t n) b) @ r) =
      Inl (Nom_Failure x)" if "inner = Inl (Nom_Failure x)"
  proof -
    have "body_type_msg_limited N deep f 8 (?t @ '' '' @ ?j) = Inl (Nom_Failure x)"
      unfolding msg_8 using assms(1,2) media inner that by (simp add: both_def envelope_ok)
    then show ?thesis unfolding flat by simp
  qed
qed

lemma single_ok:
  assumes "specific_nom deep f (flat (SpecificFields_encode s b) @
      flat (tail_encode SinglePartExtensionData_encode x) @ CHR '')'' # r) = res"
  shows "res = Inr (flat (tail_encode SinglePartExtensionData_encode x) @ CHR '')'' # r, b, s) \<Longrightarrow>
      pred_option exact_single x \<Longrightarrow> 2 \<le> n \<Longrightarrow>
      body_limited N deep f n (flat (BodyStructure_encode (BodyStructure_Single (Body b s) x)) @ r) =
        Inr (r, BodyStructure_Single (Body b s) x)"
    "res = Inl (Nom_Failure e) \<Longrightarrow> 2 \<le> n \<Longrightarrow>
      body_limited N deep f n (flat (BodyStructure_encode (BodyStructure_Single (Body b s) x)) @ r) =
        Inl (Nom_Failure e)"
proof -
  let ?i = "flat (SpecificFields_encode s b) @ flat (tail_encode SinglePartExtensionData_encode x) @ CHR '')'' # r"
  have flat: "flat (BodyStructure_encode (BodyStructure_Single (Body b s) x)) @ r = CHR ''('' # ?i"
    by (simp only: flat_structure append_assoc append.simps)
  show "body_limited N deep f n (flat (BodyStructure_encode (BodyStructure_Single (Body b s) x)) @ r) =
      Inr (r, BodyStructure_Single (Body b s) x)"
    if res: "res = Inr (flat (tail_encode SinglePartExtensionData_encode x) @ CHR '')'' # r, b, s)"
      "pred_option exact_single x" and "2 \<le> n"
  proof -
    obtain m where n: "n = Suc (Suc m)" using \<open>2 \<le> n\<close> by (auto simp: numeral_2_eq_2 dest!: le_Suc_ex)
    have "body_type_1part_limited N deep f (Suc m) ?i = Inr (CHR '')'' # r, BodyStructure_Single (Body b s) x)"
      using assms res ext_ok [OF res(2), of r] by (simp add: part_Suc both_def)
    then show ?thesis unfolding flat n body_Suc by (simp add: both_def mapped_def)
  qed
  show "body_limited N deep f n (flat (BodyStructure_encode (BodyStructure_Single (Body b s) x)) @ r) =
      Inl (Nom_Failure e)" if "res = Inl (Nom_Failure e)" "2 \<le> n"
  proof -
    obtain m where n: "n = Suc (Suc m)" using \<open>2 \<le> n\<close> by (auto simp: numeral_2_eq_2 dest!: le_Suc_ex)
    have "body_type_1part_limited N deep f (Suc m) ?i = Inl (Nom_Failure e)"
      using assms that by (simp add: part_Suc both_def)
    then show ?thesis unfolding flat n body_Suc by (simp add: both_def mapped_def)
  qed
qed

lemma body_opens: "\<exists>i. flat (BodyStructure_encode b) = CHR ''('' # i"
  by (cases b) (simp_all add: flat_structure del: BodyStructure_encode.simps)

lemma body_small:
  assumes "n < 2"
  shows "too_deep (body_limited N deep f n (flat (BodyStructure_encode b) @ r))"
proof -
  from body_opens [of b] obtain i where i: "flat (BodyStructure_encode b) = CHR ''('' # i" by blast
  have part: "too_deep (body_type_1part_limited N deep f 0 j)" for j
    by (simp add: body_type_1part_limited.simps)
  from assms consider "n = 0" | "n = Suc 0" by linarith
  then show ?thesis
  proof cases
    case 1
    then show ?thesis by (simp add: body_0)
  next
    case 2
    from too_deep_failure [OF part, of "i @ r"] obtain e where e:
      "body_type_1part_limited N deep f 0 (i @ r) = Inl (Nom_Failure e)"
      "pe_kind e = Kind_RecursionLimitExceeded" by blast
    then show ?thesis by (simp add: 2 i body_Suc both_def mapped_def)
  qed
qed

lemma limits_two:
  assumes "2 \<le> n \<Longrightarrow> body_limited N deep f n (flat (BodyStructure_encode b) @ r) = Inr (r, b)"
    "within_limit n b \<longleftrightarrow> 2 \<le> n"
  shows "if within_limit n b then body_limited N deep f n (flat (BodyStructure_encode b) @ r) = Inr (r, b)
    else too_deep (body_limited N deep f n (flat (BodyStructure_encode b) @ r))"
proof (cases "2 \<le> n")
  case False
  then have "n < 2" by simp
  from body_small [OF this] False assms(2) show ?thesis by simp
qed (use assms in simp)

lemma body_limits:
  assumes deep: "rest_ok deep"
  shows "exact_structure b \<Longrightarrow> nesting b \<le> f \<Longrightarrow>
    if within_limit n b then body_limited N deep f n (flat (BodyStructure_encode b) @ r) = Inr (r, b)
    else too_deep (body_limited N deep f n (flat (BodyStructure_encode b) @ r))"
proof (induction n b arbitrary: f r rule: within_limit.induct)
  case (1 n b t st x)
  let ?r = "flat (tail_encode SinglePartExtensionData_encode x) @ CHR '')'' # r"
  have "specific_nom deep f (flat (SpecificFields_encode (SpecificFields_Basic t st) b) @ ?r) =
      Inr (?r, b, SpecificFields_Basic t st)"
    using "1.prems" by (intro basic_ok closing_ext) simp_all
  then have "2 \<le> n \<Longrightarrow> body_limited N deep f n (flat (BodyStructure_encode
      (BodyStructure_Single (Body b (SpecificFields_Basic t st)) x)) @ r) =
      Inr (r, BodyStructure_Single (Body b (SpecificFields_Basic t st)) x)"
    using "1.prems" by (intro single_ok(1) [OF _ refl]) simp_all
  then show ?case by (rule limits_two [OF _ within_limit.simps(1)])
next
  case (2 n b st k x)
  let ?r = "flat (tail_encode SinglePartExtensionData_encode x) @ CHR '')'' # r"
  have "specific_nom deep f (flat (SpecificFields_encode (SpecificFields_Text st k) b) @ ?r) =
      Inr (?r, b, SpecificFields_Text st k)"
    using "2.prems" by (intro text_ok closing_ext) simp_all
  then have "2 \<le> n \<Longrightarrow> body_limited N deep f n (flat (BodyStructure_encode
      (BodyStructure_Single (Body b (SpecificFields_Text st k)) x)) @ r) =
      Inr (r, BodyStructure_Single (Body b (SpecificFields_Text st k)) x)"
    using "2.prems" by (intro single_ok(1) [OF _ refl]) simp_all
  then show ?case by (rule limits_two [OF _ within_limit.simps(2)])
next
  case (3 n b e t k x)
  let ?r = "flat (tail_encode SinglePartExtensionData_encode x) @ CHR '')'' # r"
  let ?m = "BodyStructure_Single (Body b (SpecificFields_Message e t k)) x"
  obtain g where f: "f = Suc g" using "3.prems" by (cases f) auto
  have inner: "if within_limit 7 t
      then body_limited N deep g 7 (flat (BodyStructure_encode t) @ '' '' @ dec (unat k) @ ?r) =
        Inr ('' '' @ dec (unat k) @ ?r, t)
      else too_deep (body_limited N deep g 7 (flat (BodyStructure_encode t) @ '' '' @ dec (unat k) @ ?r))"
    using "3.prems" f by (intro "3.IH") simp_all
  have exact: "exact_fields b" "exact_envelope e" "pred_option exact_single x" using "3.prems" by simp_all
  show ?case
  proof (cases "2 \<le> n")
    case False
    with body_small [of n deep f ?m r] show ?thesis by (simp only: within_limit.simps not_le) simp
  next
    case True
    show ?thesis
    proof (cases "within_limit 7 t")
      case fit: True
      with inner have "specific_nom deep f (flat (SpecificFields_encode (SpecificFields_Message e t k) b) @ ?r) =
          Inr (?r, b, SpecificFields_Message e t k)"
        using f by (intro message_ok(1) [OF exact(1,2) refl] closing_ext) simp
      with True fit exact single_ok(1) [OF this refl] show ?thesis by (simp only: within_limit.simps) simp
    next
      case fit: False
      with inner obtain x' where x': "body_limited N deep g 7
          (flat (BodyStructure_encode t) @ '' '' @ dec (unat k) @ ?r) = Inl (Nom_Failure x')"
          "pe_kind x' = Kind_RecursionLimitExceeded"
        by (auto dest: too_deep_failure)
      then have "specific_nom deep f (flat (SpecificFields_encode (SpecificFields_Message e t k) b) @ ?r) =
          Inl (Nom_Failure x')"
        using f by (intro message_ok(2) [OF exact(1,2) refl]) simp
      with True fit x'(2) single_ok(2) [OF this refl] show ?thesis by (simp only: within_limit.simps) simp
    qed
  qed
next
  case (4 n bs st y)
  let ?m = "BodyStructure_Multi bs st y"
  show ?case
  proof (cases "2 \<le> n")
    case False
    with body_small [of n deep f ?m r] show ?thesis by (simp only: within_limit.simps not_le) simp
  next
    case True
    then obtain m where n: "n = Suc (Suc m)" by (auto simp: numeral_2_eq_2 dest!: le_Suc_ex)
    let ?rest = "'' '' @ flat (IString_encode st) @
      flat (tail_encode MultiPartExtensionData_encode y) @ CHR '')'' # r"
    let ?i = "concat (map (\<lambda>b. flat (BodyStructure_encode b)) bs) @ ?rest"
    have flat: "flat (BodyStructure_encode ?m) @ r = CHR ''('' # ?i"
      by (simp only: flat_structure append_assoc append.simps)
    note adv = body_advances [OF assms, of f "Suc m"]
    have pred: "n - 1 = Suc m" using n by simp
    have "if list_all (within_limit (Suc m)) bs
        then many_items (body_limited N deep f (Suc m)) ?i = Inr (?rest, bs)
        else too_deep (many_items (body_limited N deep f (Suc m)) ?i)"
    proof (rule many_items_limited [OF adv])
      show "is_error (body_limited N deep f (Suc m) ?rest)" by (simp add: body_Suc both_def mapped_def)
      fix c t
      assume c: "c \<in> set bs"
      have "if within_limit (Suc m) c
          then body_limited N deep f (Suc m) (flat (BodyStructure_encode c) @ t) = Inr (t, c)
          else too_deep (body_limited N deep f (Suc m) (flat (BodyStructure_encode c) @ t))"
        using c "4.prems" "4.IH" [of c f t, unfolded pred] by (simp add: list_all_iff fold_max_le)
      then show "within_limit (Suc m) c \<Longrightarrow>
          body_limited N deep f (Suc m) (flat (BodyStructure_encode c) @ t) = Inr (t, c)"
        "\<not> within_limit (Suc m) c \<Longrightarrow> too_deep (body_limited N deep f (Suc m) (flat (BodyStructure_encode c) @ t))"
        by simp_all
    qed
    then have bodies: "if list_all (within_limit (Suc m)) bs
        then n_many1_bodies N (body_limited N deep f (Suc m)) ?i = Inr (?rest, bs)
        else too_deep (n_many1_bodies N (body_limited N deep f (Suc m)) ?i)"
      using many1_bodies adv "4.prems"
      by (auto simp: at_least_def Suc_le_eq split: if_splits dest!: too_deep_failure)
    have first: "?i = CHR ''('' # tl ?i"
    proof -
      obtain c cs where "bs = c # cs" using "4.prems" by (cases bs) auto
      with body_opens [of c] show ?thesis by auto
    qed
    have lower: "ascii_lower CHR ''('' \<noteq> ascii_lower dquote" by code_simp
    have "is_error (body_type_1part_limited N deep f (Suc m) (CHR ''('' # tl ?i))"
      using lower by (simp add: part_Suc msg_8 media_message_def body_type_text_def media_text_def
          body_type_basic_def media_basic_def both_def mapped_def)
    then have error: "is_error (body_type_1part_limited N deep f (Suc m) ?i)" by (subst first)
    have within_limit: "within_limit n ?m \<longleftrightarrow> list_all (within_limit (Suc m)) bs" by (simp add: n)
    show ?thesis
    proof (cases "list_all (within_limit (Suc m)) bs")
      case all: True
      then have "body_type_mpart_limited N deep f (Suc m) ?i = Inr (CHR '')'' # r, ?m)"
        using bodies "4.prems" multi_ext_ok [of y r] by (simp add: mpart_Suc both_def)
      with error all show ?thesis unfolding within_limit flat n body_Suc by (simp add: both_def mapped_def)
    next
      case some: False
      then have "too_deep (body_type_mpart_limited N deep f (Suc m) ?i)"
        using bodies by (simp add: mpart_Suc both_def)
      with error some show ?thesis
        unfolding within_limit flat n body_Suc by (auto simp: both_def mapped_def dest!: too_deep_failure)
    qed
  qed
qed

end

text \<open>Messages embedded in each other, each with the least that can be said of it.\<close>

definition least_fields :: BasicFields where
  "least_fields = \<lparr>bf_parameter_list = [], bf_id = NString None, bf_description = NString None,
     bf_content_transfer_encoding = IString_Quoted (Quoted ''7BIT''), bf_size = 0\<rparr>"

definition least_envelope :: Envelope where
  "least_envelope = \<lparr>env_date = NString None, env_subject = NString None, env_from = [], env_sender = [],
     env_reply_to = [], env_to = [], env_cc = [], env_bcc = [], env_in_reply_to = NString None,
     env_message_id = NString None\<rparr>"

fun embedded :: "nat \<Rightarrow> BodyStructure" where
  "embedded 0 = BodyStructure_Single
     (Body least_fields (SpecificFields_Text (IString_Quoted (Quoted ''PLAIN'')) 0)) None"
| "embedded (Suc k) = BodyStructure_Single
     (Body least_fields (SpecificFields_Message least_envelope (embedded k) 0)) None"

lemma exact_least: "exact_fields least_fields" "exact_envelope least_envelope"
    "exact_istring (IString_Quoted (Quoted ''PLAIN''))"
  by (simp_all add: least_fields_def least_envelope_def exact_fields_def exact_envelope_def exact_params_def
      exact_nstring_def exact_istring_def quoted.valid_def is_text_char_def)

lemma embedded_facts: "exact_structure (embedded k)" "nesting (embedded k) = k"
    "2 \<le> n \<Longrightarrow> within_limit n (embedded k)"
proof -
  show "exact_structure (embedded k)" by (induction k) (simp_all add: exact_least)
  show "nesting (embedded k) = k" by (induction k) simp_all
  show "2 \<le> n \<Longrightarrow> within_limit n (embedded k)" by (induction k arbitrary: n) simp_all
qed

context structure_grammar
begin

lemma embedded_deep:
  "2 \<le> n \<Longrightarrow> body_limited N (\<lambda>i. Inl (Nom_Failure x)) f n (flat (BodyStructure_encode (embedded k)) @ r) =
    (if k \<le> f then Inr (r, embedded k) else Inl (Nom_Failure x))"
proof (induction k arbitrary: f n r)
  case 0
  have "rest_ok (\<lambda>i. Inl (Nom_Failure x))" by (simp add: rest_ok_def)
  from body_limits [OF this embedded_facts(1), of 0 f n r] 0 show ?case
    by (simp add: embedded_facts del: embedded.simps)
next
  case (Suc k)
  let ?deep = "\<lambda>i. Inl (Nom_Failure x)"
  have deep: "rest_ok ?deep" by (simp add: rest_ok_def)
  show ?case
  proof (cases "Suc k \<le> f")
    case True
    with body_limits [OF deep embedded_facts(1), of "Suc k" f n r] Suc.prems show ?thesis
      by (simp add: embedded_facts del: embedded.simps)
  next
    case False
    let ?r = "flat (tail_encode SinglePartExtensionData_encode None) @ CHR '')'' # r"
    have "(case f of 0 \<Rightarrow> ?deep | Suc f \<Rightarrow> body_limited N ?deep f 7)
        (flat (BodyStructure_encode (embedded k)) @ '' '' @ dec (unat (0 :: u32)) @ ?r) = Inl (Nom_Failure x)"
    proof (cases f)
      case (Suc g)
      with False Suc.IH [of 7 g] show ?thesis by simp
    qed simp
    then have "specific_nom ?deep f
        (flat (SpecificFields_encode (SpecificFields_Message least_envelope (embedded k) 0) least_fields) @ ?r) =
      Inl (Nom_Failure x)"
      by (intro message_ok(2) [OF exact_least(1,2) refl])
    from single_ok(2) [OF this refl Suc.prems] False show ?thesis by (simp only: embedded.simps if_False)
  qed
qed

end

section \<open>A concrete instance\<close>

definition c_part :: "unit PartNom" where
  "c_part = EnvelopeNom.extend c_envelope \<lparr>n_tuple_strings = c_tuple3, n_map_strings = mapped,
     n_separated_params = c_separated_list0, n_delimited_params = c_delimited, n_map_no_params = mapped,
     n_alt_params = c_alt, n_map_enc = mapped, n_tuple_negative = c_tuple2, n_map_negative = mapped,
     n_alt_octets = c_alt,
     n_tuple_fields = (\<lambda>(p, c1, n1, c2, n2, c3, i, c4, u).
       both p (both c1 (both n1 (both c2 (both n2 (both c3 (both i (both c4 u)))))))),
     n_tuple_dsp = c_tuple3, n_map_dsp = mapped, n_delimited_dsp = c_delimited, n_map_no_dsp = mapped,
     n_alt_dsp = c_alt, n_map_lang = mapped, n_separated_langs = c_separated_list1,
     n_delimited_langs = c_delimited, n_alt_langs = c_alt, n_map_ext_nstring = mapped,
     n_map_ext_number = mapped, n_separated_exts = c_separated_list1, n_delimited_exts = c_delimited,
     n_map_ext_list = mapped, n_alt_ext = c_alt, n_preceded_loc = c_preceded, n_preceded_ext = c_preceded,
     n_many0_ext = c_many 0, n_tuple_loc = c_tuple2, n_map_loc = mapped, n_opt_loc = optional,
     n_preceded_lang = c_preceded, n_tuple_lang = c_tuple2, n_map_language = mapped,
     n_opt_lang = optional, n_preceded_dsp = c_preceded, n_tuple_disposition = c_tuple2,
     n_map_disposition = mapped, n_opt_disposition = optional, n_tuple_single = c_tuple2,
     n_map_single_ext = mapped, n_tuple_multi = c_tuple2, n_map_multi_ext = mapped\<rparr>"

definition c_structure :: "unit StructureNom" where
  "c_structure = PartNom.extend c_part \<lparr>n_tuple_basic = c_tuple3, n_preceded_media_text = c_preceded,
     n_tuple_text = (\<lambda>(p, q, r, s, t). both p (both q (both r (both s t)))),
     n_tuple_msg = (\<lambda>(m, c1, f, c2, e, c3, b, c4, u).
       both m (both c1 (both f (both c2 (both e (both c3 (both b (both c4 u)))))))),
     n_alt_specific = c_alt, n_preceded_1part = c_preceded, n_opt_1part = optional,
     n_tuple_1part = c_tuple2, n_many1_bodies = c_many 1, n_preceded_mpart = c_preceded,
     n_opt_mpart = optional, n_tuple_mpart = (\<lambda>(b, c, s, e). both b (both c (both s e))),
     n_alt_body = c_alt, n_delimited_body = c_delimited\<rparr>"

lemma c_part_ok: "core_nom c_part" "envelope_nom c_part" "part_nom c_part"
proof -
  show "core_nom c_part"
    using c_envelope_ok(1) unfolding core_nom_def bytes_nom_def c_part_def EnvelopeNom.extend_def by simp
  show "envelope_nom c_part"
    using c_envelope_ok(5) unfolding envelope_nom_def c_part_def EnvelopeNom.extend_def by simp
  show "part_nom c_part"
    using c_many_ok unfolding part_nom_def c_part_def EnvelopeNom.extend_def
    by (simp add: c_alt_ok c_separated_list_ok)
qed

lemma c_structure_ok: "core_nom c_structure" "envelope_nom c_structure" "part_nom c_structure"
    "structure_nom c_structure"
proof -
  show "core_nom c_structure"
    using c_part_ok(1) unfolding core_nom_def bytes_nom_def c_structure_def PartNom.extend_def by simp
  show "envelope_nom c_structure"
    using c_part_ok(2) unfolding envelope_nom_def c_structure_def PartNom.extend_def by simp
  show "part_nom c_structure"
    using c_part_ok(3) unfolding part_nom_def c_structure_def PartNom.extend_def by simp
  show "structure_nom c_structure"
    using c_many_ok unfolding structure_nom_def c_structure_def PartNom.extend_def
    by (simp add: c_alt_ok)
qed

interpretation c_structure: structure_grammar c_structure
  by unfold_locales (fact c_structure_ok)+

section \<open>Body structures on the wire\<close>



text \<open>C18: the limit does not bound the recursion. \<open>body_type_1part_limited\<close> passes the constant eight to
  \<open>body_type_msg_limited\<close> instead of what is left, so a response with \<open>k\<close> messages embedded in each
  other is parsed, whatever the limit, as long as the stack holds \<open>k\<close> frames, and needs all of them:
  with fewer, the parser gets to where the stack is exhausted.\<close>

theorem body_recursion_unbounded:
  fixes N :: "('k, 'z) StructureNom_scheme"
  assumes "core_nom N" "envelope_nom N" "part_nom N" "structure_nom N" "2 \<le> n"
  shows "body_parser N (\<lambda>i. Inl (Nom_Failure exhausted)) frames n
      (flat (BodyStructure_encode (embedded k)) @ rest) =
    (if k \<le> frames then Inr (rest, embedded k) else Inl (Nom_Failure exhausted))"
proof -
  have N: "structure_grammar N"
    by (intro structure_grammar.intro part_grammar.intro envelope_grammar.intro core_grammar.intro
        envelope_grammar_axioms.intro part_grammar_axioms.intro structure_grammar_axioms.intro assms)
  show ?thesis unfolding body_parser_def by (rule structure_grammar.embedded_deep [OF N assms(5)])
qed

lemma body_recursion_unbounded_witness:
  "body_parser c_structure (\<lambda>i. Inl (Nom_Failure \<lparr>pe_input = [], pe_kind = Kind_BadNumber\<rparr>)) 99 8
      (flat (BodyStructure_encode (embedded 100)) @ ''x'') =
    Inl (Nom_Failure \<lparr>pe_input = [], pe_kind = Kind_BadNumber\<rparr>)"
  using body_recursion_unbounded [OF c_structure_ok, of 8 "\<lparr>pe_input = [], pe_kind = Kind_BadNumber\<rparr>"
      99 100 "''x''"] by simp

end
