(* ===== verification/Spec2Isabelle.thy ===== *)
theory Spec2Isabelle
  imports Imap_Prelude Imap_Utils Imap_Core Imap_Fragmentizer Imap_Sequence Imap_Ranges Imap_Names
    Imap_Mailbox Imap_Thread Imap_Types Imap_Encode Imap_Encode_Command Imap_Encode_Response Imap_Wire
    Imap_Build Imap_Recovery Imap_Decode Imap_Nom Imap_Parse_Core Imap_Parse_Sequence
    Imap_Parse_Mailbox Imap_Parse_Thread Imap_Parse_Envelope Imap_Parse_Body Imap_Parse_Structure
begin

text \<open>
  A model of \<open>imap-types\<close> and \<open>imap-codec\<close>, the message types and the codec of the IMAP protocol.

  \<^bold>\<open>The program.\<close> \<open>imap-types\<close> defines the values of the protocol: strings that are valid by
  construction (\<open>core.rs\<close>, \<open>mailbox.rs\<close>), names with a typed and an open part (\<open>flag.rs\<close>, \<open>auth.rs\<close>,
  \<open>response.rs\<close>, \<open>extensions/\<close>), sequence sets (\<open>sequence.rs\<close>), and commands, responses and the
  data inside them. \<open>imap-codec\<close> turns messages into fragments, lines and literals
  (\<open>codec/encode.rs\<close>), cuts a byte stream into such fragments without parsing it
  (\<open>fragmentizer.rs\<close>), and parses complete messages (\<open>codec/decode.rs\<close> and the parsers beside it).

  \<^bold>\<open>The theories.\<close>
  \<^item> \<open>Imap_Prelude\<close>: bytes, results, decimal numbers, the parts of Rust's standard library in use.
  \<^item> \<open>Imap_Utils\<close>: \<open>utils.rs\<close>, byte classes and quoting.
  \<^item> \<open>Imap_Core\<close>: \<open>core.rs\<close>, \<open>secret.rs\<close>, the validated strings and the tag generator. The locale of
    validated strings is interpreted for each string type.
  \<^item> \<open>Imap_Fragmentizer\<close>: \<open>fragmentizer.rs\<close>, the state machine \<open>Fragmentizer\<close> with its two parsers.
    \<open>reachable\<close> is its client's view: any sequence of calls; \<open>framed\<close> the protocol it implements.
  \<^item> \<open>Imap_Sequence\<close>: \<open>sequence.rs\<close>, parsing, comparing, normalizing and iterating sequence sets,
    against their denotation as sets of message numbers; \<open>Imap_Ranges\<close>: its conversions of ranges.
  \<^item> \<open>Imap_Names\<close>: \<open>flag.rs\<close>, \<open>auth.rs\<close>, \<open>Capability\<close> and the names of the extensions. The locale
    \<open>named_enum\<close> is the contract of a type with a reader and a printer.
  \<^item> \<open>Imap_Mailbox\<close>: \<open>mailbox.rs\<close>; \<open>Imap_Thread\<close>: \<open>extensions/thread.rs\<close>.
  \<^item> \<open>Imap_Types\<close>: the remaining message types.
  \<^item> \<open>Imap_Encode\<close>, \<open>Imap_Encode_Command\<close>, \<open>Imap_Encode_Response\<close>: \<open>encode.rs\<close> and the encoders of
    the extensions. An encoder is a function on \<open>EncodeContext\<close>; writing to it never fails, so the
    \<open>?\<close> of the source is composition. The locales \<open>encoder\<close> and \<open>framed_message\<close> are the contracts of
    the encoder of a part and of a whole message.
  \<^item> \<open>Imap_Wire\<close>: the encoder against the fragmentizer.
  \<^item> \<open>Imap_Build\<close>: the constructors of commands and responses in \<open>command.rs\<close>, \<open>response.rs\<close> and
    \<open>extensions/\<close>, and what they make of unchecked bytes. The locale \<open>conversion\<close> is what they rely
    on about a \<open>TryInto\<close>; \<open>built\<close> are the commands an application can get from them.
  \<^item> \<open>Imap_Recovery\<close>: \<open>skip_message\<close> and \<open>poison_message\<close> in a stream of commands.
  \<^item> \<open>Imap_Decode\<close>: the decoders of \<open>codec/decode.rs\<close>, and \<open>command\<close>, \<open>literal\<close>, \<open>literal8\<close> and
    the dates, from the point where their combined parser has run.
  \<^item> \<open>Imap_Nom\<close>: what is documented of the combinators of \<open>nom\<close> and \<open>abnf-core\<close>, which parsers built
    from them return a part of their input, how lists are read back, how the failure of a recursion
    limit spreads, and concrete functions that satisfy all of it.
  \<^item> \<open>Imap_Parse_Core\<close> (\<open>core.rs\<close>, \<open>extensions/utf8.rs\<close>), \<open>Imap_Parse_Sequence\<close> (\<open>sequence.rs\<close>),
    \<open>Imap_Parse_Mailbox\<close> (\<open>flag.rs\<close>, \<open>mailbox.rs\<close>), \<open>Imap_Parse_Thread\<close> (\<open>extensions/thread.rs\<close>),
    \<open>Imap_Parse_Envelope\<close> (\<open>envelope.rs\<close>), \<open>Imap_Parse_Body\<close> and \<open>Imap_Parse_Structure\<close> (\<open>body.rs\<close>): the
    grammar of \<open>imap-codec\<close>, against what the encoder writes. Each extends the record of the
    combinators in use and has a locale for what is documented of them, interpreted on the concrete
    ones.

  \<^bold>\<open>Correspondence.\<close> A \<open>u8\<close> is a \<open>char\<close>, a \<open>str\<close> or \<open>Vec<u8>\<close> a list of them (UTF-8 for \<open>str\<close>);
  \<open>u32\<close> and \<open>u64\<close> are words; \<open>usize\<close> positions in memory are natural numbers. \<open>Result\<close> is a sum
  with the error on the left; a panic is \<open>None\<close>. Non-zero numbers, minimal lengths and private
  fields are the predicates \<open>wf_\<close>. All optional extensions are compiled in, with the default quirks.
  Constructors carry the name of their type where the source's name is shared.

  \<^bold>\<open>Parameters.\<close> Code of other crates is an argument: base64, the formatting of dates, the iteration
  order of a hash set (\<open>Env\<close>), the decoder that \<open>decode_message\<close> calls, the random token of a tag,
  the calendar (\<open>Chrono\<close>), and the combinators of \<open>nom\<close>, one field of a record for each type at which
  the grammar uses one. \<open>env_ok\<close>, \<open>visits_all\<close>, \<open>takes_bytes\<close>, \<open>chrono_ok\<close> and the predicates
  \<open>core_nom\<close> to \<open>structure_nom\<close> state what is documented of them. The conversion of a generic
  argument is an argument too, and the theorems are about the conversions of the components.

  \<^bold>\<open>What is shown.\<close> The fragmentizer never panics, consumes all bytes, does not depend on chunking,
  keeps its memory limit, tiles every message, and reads back every framed stream. Every pipeline
  of commands, and every greeting with responses, is such a stream, so no string can break out of
  its message; the conditions on responses are needed. Tags can be recovered from truncated
  commands. Sequence sets keep their meaning through normalization, the wire and iteration, with
  the exact bound where they do not. Constructors fail only for a NUL byte and keep the
  bytes otherwise; whatever bytes an application passes, the commands it gets keep to the framing,
  and different strings differ on the wire. A server can refuse a literal or poison a message and
  stay in step with the client. Decoding a command never panics, reads literals back and lets only
  valid dates through. Strings, sequence sets, flags, mailbox lists, threads, envelopes and body
  structures are read back from what the encoder writes, only valid values are read, and a quoted
  string has one spelling; the recursion of threads, extensions and multiparts is limited, that of
  embedded messages is not. Names read back what they print, mailbox names and list
  patterns pick the right variant, and generated tags are distinct.

  \<^bold>\<open>Bounds.\<close> Recursion is structural or has a measure; the limits of the recursive parsers are the
  source's. The only fuel is the number of stack frames of embedded messages in
  \<open>Imap_Parse_Structure\<close>: the number of messages in each other is enough. A literal has to be shorter
  than \<open>2 ^ 32\<close> bytes, what an announcement can carry. A tag generator is distinct up to the width
  of its counters.

  \<^bold>\<open>Not modelled.\<close> Of the grammar, \<open>fetch.rs\<close>, \<open>search.rs\<close>, \<open>status.rs\<close>, \<open>response.rs\<close>, \<open>auth.rs\<close> and the
  parsers of single commands and extensions; \<open>Imap_Decode\<close> has them as parameters. \<open>Debug\<close> output,
  serialization, generators of random values, tests, fuzzing and benchmarks are outside the
  protocol logic.
\<close>

end
